(* ===== verification/Prelude.thy ===== *)
theory Prelude
  imports Complex_Main "HOL-Library.Multiset" "HOL-Library.Monad_Syntax"
    "HOL-Library.Char_ord" "HOL-Library.List_Lexorder" "HOL-Library.Sublist"
begin

text \<open>
  What every component of the marketplace shares: the outcome of a C function (a value, or the
  fault that ends the process), the program type that threads a state through calls, rules that
  take a finished or an invariant-keeping run apart call by call, 32-bit \<open>int\<close> arithmetic whose
  overflow is a fault, C strings, and the list and map facts that the tables need.
\<close>

section \<open>Collections of hints\<close>

named_theorems prog_simps \<open>how the program combinators run\<close>
named_theorems keeps_intros \<open>the programs that keep an invariant of the state\<close>

section \<open>Programs over a state\<close>

text \<open>
  A fault ends the process that runs the code: undefined behaviour of C that the model detects, or
  \<open>error_and_exit\<close> of util.c. \<open>Bad_Column\<close> is a column read at a type its schema never holds.
\<close>

datatype fault =
    Signed_Overflow
  | Bad_Double_To_Int
  | Bad_Pointer
  | Out_Of_Bounds
  | Bad_Column
  | Exit_Failure

text \<open>A C function that may change the state \<open>'s\<close>: the state it leaves is known in both cases.\<close>

type_synonym ('s, 'a) prog = "'s \<Rightarrow> (fault + 'a) \<times> 's"

definition ret :: "'a \<Rightarrow> ('s, 'a) prog" where
  "ret a s = (Inr a, s)"

definition stop :: "fault \<Rightarrow> ('s, 'a) prog" where
  "stop f s = (Inl f, s)"

text \<open>\<open>error_and_exit\<close> of util.c; its message on standard error is left out.\<close>

abbreviation (input) error_and_exit :: "('s, 'a) prog" where
  "error_and_exit \<equiv> stop Exit_Failure"

text \<open>Sequencing: the second part sees the value and the state of the first, unless it stopped.\<close>

definition cbind :: "('s, 'a) prog \<Rightarrow> ('a \<Rightarrow> ('s, 'b) prog) \<Rightarrow> ('s, 'b) prog" where
  "cbind m f s = (case m s of (Inl e, s') \<Rightarrow> (Inl e, s') | (Inr a, s') \<Rightarrow> f a s')"

definition of_option :: "fault \<Rightarrow> 'a option \<Rightarrow> ('s, 'a) prog" where
  "of_option f x = (case x of None \<Rightarrow> stop f | Some a \<Rightarrow> ret a)"

text \<open>
  Stated for a finished run, not as \<open>ret a s = (Inr a, s)\<close>: the simplifier would contract that
  equation to one for \<open>ret a\<close> itself and lose the rules below.
\<close>

lemma ret_run [prog_simps, simp]: "ret a s = (r, s') \<longleftrightarrow> r = Inr a \<and> s' = s"
  by (auto simp: ret_def)

lemma stop_run [prog_simps, simp]: "stop f s = (r, s') \<longleftrightarrow> r = Inl f \<and> s' = s"
  by (auto simp: stop_def)

lemma of_option_simps [prog_simps, simp]:
  "of_option f None = stop f" "of_option f (Some a) = ret a"
  by (simp_all add: of_option_def)

lemma cbind_ret [simp]: "cbind (ret a) f = f a"
  by (rule ext) (simp add: cbind_def ret_def)

lemma cbind_stop [simp]: "cbind (stop e) f = stop e"
  by (rule ext) (simp add: cbind_def stop_def)

lemma cbind_ret_right [simp]: "cbind m ret = m"
  by (rule ext) (simp add: cbind_def ret_def split: prod.splits sum.splits)

lemma ret_inject [simp]: "ret a = ret b \<longleftrightarrow> a = b"
  by (auto simp: fun_eq_iff ret_def)

lemma cbind_assoc: "cbind (cbind m f) g = cbind m (\<lambda>a. cbind (f a) g)"
  by (rule ext) (simp add: cbind_def split: prod.splits sum.splits)

lemma cbind_done: "m s = (Inr a, s') \<Longrightarrow> cbind m f s = f a s'"
  by (simp add: cbind_def)

lemma cbind_stopped: "m s = (Inl e, s') \<Longrightarrow> cbind m f s = (Inl e, s')"
  by (simp add: cbind_def)

text \<open>A finished run splits at every semicolon; this is how a property of a whole handler is read.\<close>

lemma cbind_Inr_iff:
  "cbind m f s = (Inr b, s') \<longleftrightarrow> (\<exists>a s1. m s = (Inr a, s1) \<and> f a s1 = (Inr b, s'))"
  by (auto simp: cbind_def split: prod.splits sum.splits)

lemma cbindE:
  assumes "cbind m f s = (Inr b, s')"
  obtains a s1 where "m s = (Inr a, s1)" and "f a s1 = (Inr b, s')"
  using assms by (auto simp: cbind_Inr_iff)

lemma of_option_Inr_iff: "of_option f x s = (Inr a, s') \<longleftrightarrow> x = Some a \<and> s' = s"
  by (cases x) auto

lemma cbind_cong [fundef_cong]:
  assumes "m s = m' s'" and "\<And>a t. m' s' = (Inr a, t) \<Longrightarrow> f a t = f' a t"
  shows "cbind m f s = cbind m' f' s'"
  using assms by (auto simp: cbind_def split: prod.splits sum.splits)

section \<open>Invariants of programs\<close>

text \<open>A program keeps \<open>P\<close> when every run from a state with \<open>P\<close> ends in one, faults included.\<close>

definition keeps :: "('s \<Rightarrow> bool) \<Rightarrow> ('s, 'a) prog \<Rightarrow> bool" where
  "keeps P m \<longleftrightarrow> (\<forall>s r s'. P s \<longrightarrow> m s = (r, s') \<longrightarrow> P s')"

lemma keepsI: "(\<And>s r s'. P s \<Longrightarrow> m s = (r, s') \<Longrightarrow> P s') \<Longrightarrow> keeps P m"
  by (auto simp: keeps_def)

lemma keepsD: "keeps P m \<Longrightarrow> m s = (r, s') \<Longrightarrow> P s \<Longrightarrow> P s'"
  by (auto simp: keeps_def)

lemma keeps_ret [keeps_intros, simp]: "keeps P (ret a)"
  by (auto simp: keeps_def)

lemma keeps_stop [keeps_intros, simp]: "keeps P (stop f)"
  by (auto simp: keeps_def)

lemma keeps_of_option [keeps_intros, simp]: "keeps P (of_option f x)"
  by (cases x) simp_all

lemma keeps_cbind [keeps_intros]:
  assumes "keeps P m" and "\<And>a. keeps P (f a)"
  shows "keeps P (cbind m f)"
proof (rule keepsI)
  fix s r s'
  assume "P s" and run: "cbind m f s = (r, s')"
  obtain x s1 where m: "m s = (x, s1)" by force
  with assms(1) \<open>P s\<close> have P1: "P s1" by (auto dest: keepsD)
  show "P s'"
  proof (cases x)
    case (Inl e)
    with m run P1 show ?thesis by (simp add: cbind_stopped)
  next
    case (Inr a)
    with m run have "f a s1 = (r, s')" by (simp add: cbind_done)
    with assms(2) P1 show ?thesis by (auto dest: keepsD)
  qed
qed

text \<open>As \<open>keeps_cbind\<close>, where the second part may rely on what the first one returned.\<close>

lemma keeps_cbind_post:
  assumes "keeps P m" and "\<And>s a s'. P s \<Longrightarrow> m s = (Inr a, s') \<Longrightarrow> Q a"
    and "\<And>a. Q a \<Longrightarrow> keeps P (f a)"
  shows "keeps P (cbind m f)"
proof (rule keepsI)
  fix s r s'
  assume P: "P s" and run: "cbind m f s = (r, s')"
  obtain x s1 where m: "m s = (x, s1)" by force
  with assms(1) P have P1: "P s1" by (auto dest: keepsD)
  show "P s'"
  proof (cases x)
    case (Inl e)
    with m run P1 show ?thesis by (simp add: cbind_stopped)
  next
    case (Inr a)
    with m run have "f a s1 = (r, s')" by (simp add: cbind_done)
    moreover have "Q a" using assms(2) P m Inr by blast
    ultimately show ?thesis using assms(3) P1 by (auto dest: keepsD)
  qed
qed

lemma keeps_if [keeps_intros]:
  "(b \<Longrightarrow> keeps P m) \<Longrightarrow> (\<not> b \<Longrightarrow> keeps P n) \<Longrightarrow> keeps P (if b then m else n)"
  by simp

lemma keeps_sum [keeps_intros]:
  "(\<And>a. x = Inl a \<Longrightarrow> keeps P (f a)) \<Longrightarrow> (\<And>b. x = Inr b \<Longrightarrow> keeps P (g b)) \<Longrightarrow>
   keeps P (case x of Inl a \<Rightarrow> f a | Inr b \<Rightarrow> g b)"
  by (simp split: sum.splits)

lemma keeps_option [keeps_intros]:
  "(x = None \<Longrightarrow> keeps P m) \<Longrightarrow> (\<And>a. x = Some a \<Longrightarrow> keeps P (f a)) \<Longrightarrow>
   keeps P (case x of None \<Rightarrow> m | Some a \<Rightarrow> f a)"
  by (simp split: option.splits)

lemma keeps_prod [keeps_intros]:
  "(\<And>a b. x = (a, b) \<Longrightarrow> keeps P (f a b)) \<Longrightarrow> keeps P (case x of (a, b) \<Rightarrow> f a b)"
  by (simp split: prod.splits)

lemma keeps_Let [keeps_intros]: "keeps P (f a) \<Longrightarrow> keeps P (let x = a in f x)"
  by simp

section \<open>Parts of a state\<close>

text \<open>A program on a part of a larger state; the rest of the state is not touched.\<close>

definition zoom :: "('t \<Rightarrow> 's) \<Rightarrow> ('s \<Rightarrow> 't \<Rightarrow> 't) \<Rightarrow> ('s, 'a) prog \<Rightarrow> ('t, 'a) prog" where
  "zoom get put m t = (case m (get t) of (r, s) \<Rightarrow> (r, put s t))"

text \<open>What makes \<open>get\<close> and \<open>put\<close> read and write one part: the contract every field of a record meets.\<close>

locale part =
  fixes get :: "'t \<Rightarrow> 's" and put :: "'s \<Rightarrow> 't \<Rightarrow> 't"
  assumes get_put: "get (put s t) = s"
    and put_get: "put (get t) t = t"
    and put_put: "put s (put s' t) = put s t"
begin

lemma zoom_ret [simp]: "zoom get put (ret a) = ret a"
  by (rule ext) (simp add: zoom_def put_get ret_def)

lemma zoom_stop [simp]: "zoom get put (stop e) = stop e"
  by (rule ext) (simp add: zoom_def put_get stop_def)

lemma zoom_cbind: "zoom get put (cbind m f) = cbind (zoom get put m) (\<lambda>a. zoom get put (f a))"
  by (rule ext)
    (simp add: zoom_def cbind_def get_put put_put split: prod.splits sum.splits)

lemma zoom_Inr_iff:
  "zoom get put m t = (Inr a, t') \<longleftrightarrow> (\<exists>s'. m (get t) = (Inr a, s') \<and> t' = put s' t)"
  by (auto simp: zoom_def split: prod.splits)

lemma zoom_run: "m (get t) = (r, s') \<Longrightarrow> zoom get put m t = (r, put s' t)"
  by (simp add: zoom_def)

lemma zoom_result: "zoom get put m t = (r, t') \<Longrightarrow> m (get t) = (r, get t')"
  by (auto simp: zoom_def get_put split: prod.splits)

lemma keeps_zoom:
  assumes "keeps P m"
  shows "keeps (\<lambda>t. P (get t)) (zoom get put m)"
  using assms unfolding keeps_def by (metis zoom_result)

text \<open>What does not depend on the part is kept by every program on it.\<close>

lemma keeps_zoom_frame:
  assumes "\<And>s t. Q (put s t) = Q t"
  shows "keeps Q (zoom get put m)"
  using assms by (auto simp: keeps_def zoom_def split: prod.splits)

end

section \<open>The C type int\<close>

definition in_int32 :: "int \<Rightarrow> bool" where
  "in_int32 x \<longleftrightarrow> - (2 ^ 31) \<le> x \<and> x < 2 ^ 31"

text \<open>Conversion of a wider integer to \<open>int\<close>: the low 32 bits, read in two's complement.\<close>

definition wrap32 :: "int \<Rightarrow> int" where
  "wrap32 x = (x + 2 ^ 31) mod 2 ^ 32 - 2 ^ 31"

text \<open>Signed addition and subtraction overflow into undefined behaviour.\<close>

definition cadd :: "int \<Rightarrow> int \<Rightarrow> ('s, int) prog" where
  "cadd a b = (if in_int32 (a + b) then ret (a + b) else stop Signed_Overflow)"

definition csub :: "int \<Rightarrow> int \<Rightarrow> ('s, int) prog" where
  "csub a b = (if in_int32 (a - b) then ret (a - b) else stop Signed_Overflow)"

lemma in_int32_wrap32 [simp]: "in_int32 (wrap32 x)"
proof -
  have "0 \<le> (x + 2 ^ 31) mod 2 ^ 32" and "(x + 2 ^ 31) mod 2 ^ 32 < (2 :: int) ^ 32"
    by simp_all
  then show ?thesis by (simp add: in_int32_def wrap32_def)
qed

lemma wrap32_id [simp]: "in_int32 x \<Longrightarrow> wrap32 x = x"
  by (simp add: in_int32_def wrap32_def)

lemma wrap32_cong: "wrap32 x mod 2 ^ 32 = x mod 2 ^ 32"
  unfolding wrap32_def by (simp add: mod_diff_left_eq)

lemma in_int32_0 [simp]: "in_int32 0" and in_int32_1 [simp]: "in_int32 1"
  by (simp_all add: in_int32_def)

lemma cadd_Inr_iff: "cadd a b s = (Inr c, s') \<longleftrightarrow> c = a + b \<and> in_int32 (a + b) \<and> s' = s"
  by (auto simp: cadd_def)

lemma csub_Inr_iff: "csub a b s = (Inr c, s') \<longleftrightarrow> c = a - b \<and> in_int32 (a - b) \<and> s' = s"
  by (auto simp: csub_def)

lemma cadd_ok: "in_int32 (a + b) \<Longrightarrow> cadd a b = ret (a + b)"
  by (simp add: cadd_def)

lemma csub_ok: "in_int32 (a - b) \<Longrightarrow> csub a b = ret (a - b)"
  by (simp add: csub_def)

lemma keeps_cadd [keeps_intros, simp]: "keeps P (cadd a b)"
  by (simp add: cadd_def)

lemma keeps_csub [keeps_intros, simp]: "keeps P (csub a b)"
  by (simp add: csub_def)

lemmas run_iffs = cbind_Inr_iff of_option_Inr_iff cadd_Inr_iff csub_Inr_iff

section \<open>C strings\<close>

text \<open>The bytes of a buffer up to its first NUL are the C string it holds.\<close>

abbreviation NUL :: char where "NUL \<equiv> CHR 0x00"
abbreviation LF :: char where "LF \<equiv> CHR 0x0A"
abbreviation CR :: char where "CR \<equiv> CHR 0x0D"

abbreviation CRLF :: string where "CRLF \<equiv> [CR, LF]"

definition c_str :: "string \<Rightarrow> string" where
  "c_str s = takeWhile (\<lambda>c. c \<noteq> NUL) s"

lemma c_str_id: "NUL \<notin> set s \<Longrightarrow> c_str s = s"
  unfolding c_str_def by (induction s) auto

text \<open>\<open>isspace\<close> and \<open>tolower\<close> in the C locale (the program sets no other).\<close>

definition isspace :: "char \<Rightarrow> bool" where
  "isspace c \<longleftrightarrow> c \<in> {CHR '' '', CHR 0x09, LF, CHR 0x0B, CHR 0x0C, CR}"

definition isdigit :: "char \<Rightarrow> bool" where
  "isdigit c \<longleftrightarrow> c \<in> set ''0123456789''"

definition tolower :: "char \<Rightarrow> char" where
  "tolower c = (let n = of_char c :: nat in if 65 \<le> n \<and> n \<le> 90 then char_of (n + 32) else c)"

text \<open>\<open>strcasecmp a b == 0\<close>.\<close>

definition strcase_eq :: "string \<Rightarrow> string \<Rightarrow> bool" where
  "strcase_eq a b \<longleftrightarrow> map tolower a = map tolower b"

lemma strcase_eq_refl [simp]: "strcase_eq a a"
  by (simp add: strcase_eq_def)

lemma strcase_eq_sym: "strcase_eq a b \<longleftrightarrow> strcase_eq b a"
  by (auto simp: strcase_eq_def)

lemma not_isspace_NUL [simp]: "\<not> isspace NUL"
  by (simp add: isspace_def)

section \<open>Lists as tables\<close>

lemma map_update_id: "(\<And>x. x \<in> set xs \<Longrightarrow> p x \<Longrightarrow> f x = x) \<Longrightarrow> map (\<lambda>x. if p x then f x else x) xs = xs"
  by (induction xs) auto

lemma distinct_key_unique:
  "distinct (map k xs) \<Longrightarrow> x \<in> set xs \<Longrightarrow> y \<in> set xs \<Longrightarrow> k x = k y \<Longrightarrow> x = y"
  by (metis distinct_map inj_onD)

lemma filter_key_singleton:
  "distinct (map k xs) \<Longrightarrow> x \<in> set xs \<Longrightarrow> k x = i \<Longrightarrow> filter (\<lambda>y. k y = i) xs = [x]"
proof (induction xs)
  case (Cons a xs)
  show ?case
  proof (cases "x = a")
    case True
    with Cons.prems have "\<forall>y \<in> set xs. k y \<noteq> i" by (force simp: rev_image_eqI)
    with True Cons.prems(3) show ?thesis by (simp add: filter_empty_conv)
  next
    case False
    with Cons.prems have "x \<in> set xs" and "k a \<noteq> i" by auto
    with Cons show ?thesis by auto
  qed
qed simp

text \<open>Sums over a keyed table: what one update, one deletion and one insertion do to a total.\<close>

lemma sum_list_update_key:
  fixes w :: "'a \<Rightarrow> int"
  assumes "distinct (map k xs)" and "x \<in> set xs" and "k x = i"
  shows "sum_list (map w (map (\<lambda>y. if k y = i then f y else y) xs)) =
    sum_list (map w xs) + w (f x) - w x"
  using assms
proof (induction xs)
  case (Cons a xs)
  show ?case
  proof (cases "x = a")
    case True
    with Cons.prems have "\<forall>y \<in> set xs. k y \<noteq> i" by (force simp: rev_image_eqI)
    then have "map (\<lambda>y. if k y = i then f y else y) xs = xs"
      by (intro map_update_id) auto
    with True Cons.prems(3) show ?thesis by simp
  next
    case False
    with Cons.prems have "x \<in> set xs" and "k a \<noteq> i" by auto
    with Cons show ?thesis by simp
  qed
qed simp

lemma sum_list_delete_key:
  fixes w :: "'a \<Rightarrow> int"
  assumes "distinct (map k xs)" and "x \<in> set xs" and "k x = i"
  shows "sum_list (map w (filter (\<lambda>y. k y \<noteq> i) xs)) = sum_list (map w xs) - w x"
  using assms
proof (induction xs)
  case (Cons a xs)
  show ?case
  proof (cases "x = a")
    case True
    with Cons.prems have "\<forall>y \<in> set xs. k y \<noteq> i" by (force simp: rev_image_eqI)
    then have "filter (\<lambda>y. k y \<noteq> i) xs = xs" by (simp add: filter_id_conv)
    with True Cons.prems(3) show ?thesis by simp
  next
    case False
    with Cons.prems have "x \<in> set xs" and "k a \<noteq> i" by auto
    with Cons show ?thesis by simp
  qed
qed simp

lemma map_key_update [simp]:
  "(\<And>x. k (f x) = k x) \<Longrightarrow> map (k \<circ> (\<lambda>x. if p x then f x else x)) xs = map k xs"
  by (induction xs) auto

end
