(* ===== verification/CNumber.thy ===== *)
theory CNumber
  imports Prelude "HOL-Library.Log_Nat"
begin

text \<open>
  The C number types and library conversions the code uses: IEEE 754 binary64 values with
  round-to-nearest-even arithmetic (\<open>double\<close>), the conversion of a \<open>double\<close> to \<open>int\<close> (truncation,
  undefined when the result does not fit), \<open>strtol\<close> and \<open>strtod\<close> in the C locale, and the
  conversions \<open>%d\<close> and \<open>%.<p>f\<close> of \<open>printf\<close>. The two zeros of IEEE 754 are one value here: the
  code compares, multiplies, adds and truncates prices, none of which tells them apart, and it
  prints only prices read back from SQLite, which stores \<open>-0.0\<close> as \<open>0.0\<close>.
\<close>

section \<open>Doubles\<close>

datatype double = NInf | Fin rat | PInf | NaN

definition pow2 :: "int \<Rightarrow> rat" where
  "pow2 e = 2 powi e"

text \<open>The exponent of the leading bit of a positive rational.\<close>

definition ilog2 :: "rat \<Rightarrow> int" where
  "ilog2 q = (let (n, d) = quotient_of q; k = bitlen n - bitlen d
     in if pow2 k \<le> q then k else k - 1)"

text \<open>The nearest integer, the even one of two equally near.\<close>

definition round_even :: "rat \<Rightarrow> int" where
  "round_even x = (let f = \<lfloor>x\<rfloor>; r = x - of_int f
     in if r < 1 / 2 then f else if 1 / 2 < r then f + 1 else if even f then f else f + 1)"

text \<open>Rounding of an exact result: 53 significant bits, least exponent \<open>-1074\<close>, infinity beyond.\<close>

definition fl :: "rat \<Rightarrow> double" where
  "fl q =
     (if q = 0 then Fin 0
      else let e = max (ilog2 \<bar>q\<bar> - 52) (- 1074);
               v = of_int (round_even (\<bar>q\<bar> / pow2 e)) * pow2 e
           in if pow2 1024 \<le> v then (if 0 < q then PInf else NInf)
              else Fin (if 0 < q then v else - v))"

fun dneg :: "double \<Rightarrow> double" where
  "dneg NInf = PInf"
| "dneg (Fin a) = Fin (- a)"
| "dneg PInf = NInf"
| "dneg NaN = NaN"

fun dadd :: "double \<Rightarrow> double \<Rightarrow> double" where
  "dadd NaN _ = NaN"
| "dadd _ NaN = NaN"
| "dadd (Fin a) (Fin b) = fl (a + b)"
| "dadd PInf NInf = NaN"
| "dadd NInf PInf = NaN"
| "dadd PInf _ = PInf"
| "dadd NInf _ = NInf"
| "dadd (Fin _) x = x"

definition dsub :: "double \<Rightarrow> double \<Rightarrow> double" where
  "dsub x y = dadd x (dneg y)"

text \<open>The sign of an infinite product.\<close>

definition dinf :: "bool \<Rightarrow> double" where
  "dinf neg = (if neg then NInf else PInf)"

fun dmul :: "double \<Rightarrow> double \<Rightarrow> double" where
  "dmul NaN _ = NaN"
| "dmul _ NaN = NaN"
| "dmul (Fin a) (Fin b) = fl (a * b)"
| "dmul (Fin a) PInf = (if a = 0 then NaN else dinf (a < 0))"
| "dmul (Fin a) NInf = (if a = 0 then NaN else dinf (0 < a))"
| "dmul PInf (Fin b) = (if b = 0 then NaN else dinf (b < 0))"
| "dmul NInf (Fin b) = (if b = 0 then NaN else dinf (0 < b))"
| "dmul PInf PInf = PInf"
| "dmul PInf NInf = NInf"
| "dmul NInf PInf = NInf"
| "dmul NInf NInf = PInf"

text \<open>The comparisons of C: false as soon as one side is not a number.\<close>

fun dlt :: "double \<Rightarrow> double \<Rightarrow> bool" where
  "dlt NaN _ = False"
| "dlt _ NaN = False"
| "dlt (Fin a) (Fin b) = (a < b)"
| "dlt NInf x = (x \<noteq> NInf)"
| "dlt x PInf = (x \<noteq> PInf)"
| "dlt _ _ = False"

definition dle :: "double \<Rightarrow> double \<Rightarrow> bool" where
  "dle x y \<longleftrightarrow> dlt x y \<or> (x = y \<and> x \<noteq> NaN)"

text \<open>An \<open>int\<close> as a \<open>double\<close> is exact: 32 bits fit into 53.\<close>

definition of_cint :: "int \<Rightarrow> double" where
  "of_cint i = Fin (of_int i)"

definition trunc :: "rat \<Rightarrow> int" where
  "trunc q = (if 0 \<le> q then \<lfloor>q\<rfloor> else \<lceil>q\<rceil>)"

text \<open>A \<open>double\<close> assigned to an \<open>int\<close>: \<open>None\<close> where C leaves the conversion undefined.\<close>

fun to_cint :: "double \<Rightarrow> int option" where
  "to_cint (Fin q) = (if in_int32 (trunc q) then Some (trunc q) else None)"
| "to_cint _ = None"

text \<open>
  The order in which SQLite sorts a REAL column (a value that is not a number is stored as NULL
  and never reaches a \<open>NOT NULL\<close> column; it is put last to make the order total).
\<close>

fun drank :: "double \<Rightarrow> nat" where
  "drank NInf = 0"
| "drank (Fin _) = 1"
| "drank PInf = 2"
| "drank NaN = 3"

instantiation double :: linorder
begin

definition less_eq_double :: "double \<Rightarrow> double \<Rightarrow> bool" where
  "less_eq_double x y \<longleftrightarrow> drank x < drank y \<or>
     (drank x = drank y \<and> (\<forall>a b. x = Fin a \<longrightarrow> y = Fin b \<longrightarrow> a \<le> b))"

definition less_double :: "double \<Rightarrow> double \<Rightarrow> bool" where
  "less_double x y \<longleftrightarrow> x \<le> y \<and> \<not> y \<le> (x :: double)"

instance
proof
  fix x y z :: double
  show "x < y \<longleftrightarrow> x \<le> y \<and> \<not> y \<le> x" by (rule less_double_def)
  show "x \<le> x" by (simp add: less_eq_double_def)
  show "x \<le> y \<Longrightarrow> y \<le> z \<Longrightarrow> x \<le> z"
    by (cases x; cases y; cases z) (auto simp: less_eq_double_def)
  show "x \<le> y \<Longrightarrow> y \<le> x \<Longrightarrow> x = y"
    by (cases x; cases y) (auto simp: less_eq_double_def)
  show "x \<le> y \<or> y \<le> x"
    by (cases x; cases y) (auto simp: less_eq_double_def)
qed

end

lemma double_le_code [code, simp]:
  "NInf \<le> x \<longleftrightarrow> True"
  "Fin a \<le> Fin b \<longleftrightarrow> a \<le> b"
  "Fin a \<le> NInf \<longleftrightarrow> False" "Fin a \<le> PInf \<longleftrightarrow> True" "Fin a \<le> NaN \<longleftrightarrow> True"
  "PInf \<le> NInf \<longleftrightarrow> False" "PInf \<le> Fin b \<longleftrightarrow> False" "PInf \<le> PInf \<longleftrightarrow> True" "PInf \<le> NaN \<longleftrightarrow> True"
  "NaN \<le> NInf \<longleftrightarrow> False" "NaN \<le> Fin b \<longleftrightarrow> False" "NaN \<le> PInf \<longleftrightarrow> False" "NaN \<le> NaN \<longleftrightarrow> True"
  by (cases x; simp add: less_eq_double_def)+

text \<open>On the values a price column can hold, the sort order is the comparison of C.\<close>

lemma dle_iff_le: "x \<noteq> NaN \<Longrightarrow> y \<noteq> NaN \<Longrightarrow> dle x y \<longleftrightarrow> x \<le> y"
  by (cases x; cases y) (auto simp: dle_def less_eq_double_def)

lemma not_dlt: "x \<noteq> NaN \<Longrightarrow> y \<noteq> NaN \<Longrightarrow> \<not> dlt x y \<longleftrightarrow> dle y x"
  by (cases x; cases y) (auto simp: dle_def)

section \<open>When arithmetic is exact\<close>

lemma pow2_pos [simp]: "0 < pow2 e"
  by (simp add: pow2_def)

lemma pow2_nonneg [simp]: "0 \<le> pow2 e" and pow2_nonzero [simp]: "pow2 e \<noteq> 0"
  by (simp_all add: pow2_def)

lemma pow2_add: "pow2 (a + b) = pow2 a * pow2 b"
  by (simp add: pow2_def power_int_add)

lemma pow2_diff: "pow2 (a - b) = pow2 a / pow2 b"
  by (simp add: pow2_def power_int_diff)

lemma pow2_nat [simp]: "pow2 (int n) = 2 ^ n"
  by (simp add: pow2_def)

lemma pow2_nonneg_int: "0 \<le> e \<Longrightarrow> pow2 e = of_int (2 ^ nat e)"
  by (metis int_nat_eq of_int_numeral of_int_power pow2_nat)

lemma pow2_mono: "a \<le> b \<Longrightarrow> pow2 a \<le> pow2 b"
  unfolding pow2_def by (rule power_int_increasing) simp_all

lemma pow2_less_imp_less: "pow2 a < pow2 b \<Longrightarrow> a < b"
  using pow2_mono[of b a] by (auto simp: not_le[symmetric])

lemma bitlen_rat_bounds:
  assumes "0 < n"
  shows "pow2 (bitlen n - 1) \<le> of_int n" and "of_int n < pow2 (bitlen n)"
proof -
  have b: "0 < bitlen n" using assms bitlen_eq_zero_iff[of n] bitlen_nonneg[of n] by linarith
  have "2 ^ nat (bitlen n - 1) \<le> n" and "n < 2 ^ nat (bitlen n)"
    using bitlen_bounds[OF assms] by simp_all
  then have "of_int (2 ^ nat (bitlen n - 1)) \<le> (of_int n :: rat)"
    and "(of_int n :: rat) < of_int (2 ^ nat (bitlen n))"
    by (simp_all only: of_int_le_iff of_int_less_iff)
  with b show "pow2 (bitlen n - 1) \<le> of_int n" and "of_int n < pow2 (bitlen n)"
    by (simp_all add: pow2_nonneg_int)
qed

lemma ilog2_bounds:
  assumes "0 < q"
  shows "pow2 (ilog2 q) \<le> q" and "q < pow2 (ilog2 q + 1)"
proof -
  obtain n d where nd: "quotient_of q = (n, d)" by force
  then have q: "q = of_int n / of_int d" and d: "0 < d"
    by (auto simp: quotient_of_div quotient_of_denom_pos)
  with assms have n: "0 < n" by (simp add: zero_less_divide_iff)
  let ?k = "bitlen n - bitlen d"
  have "0 < (of_int n :: rat)" and "0 < (of_int d :: rat)" using n d by simp_all
  then have up: "q < pow2 (bitlen n) / pow2 (bitlen d - 1)"
    and low: "pow2 (bitlen n - 1) / pow2 (bitlen d) \<le> q"
    unfolding q using bitlen_rat_bounds[OF n] bitlen_rat_bounds[OF d]
    by (auto intro!: frac_less frac_le)
  have up': "q < pow2 (?k + 1)" using up by (simp flip: pow2_diff add: algebra_simps)
  have low': "pow2 (?k - 1) \<le> q" using low by (simp flip: pow2_diff add: algebra_simps)
  show "pow2 (ilog2 q) \<le> q" using low' by (simp add: ilog2_def nd Let_def)
  show "q < pow2 (ilog2 q + 1)" using up' by (simp add: ilog2_def nd Let_def)
qed

lemma round_even_int [simp]: "round_even (of_int k) = k"
  by (simp add: round_even_def)

text \<open>A representable result is not rounded.\<close>

lemma fl_exact:
  assumes "\<bar>q\<bar> = of_int m * pow2 k" and "0 \<le> m" and "m < 2 ^ 53" and "- 1074 \<le> k"
    and "\<bar>q\<bar> < pow2 1024"
  shows "fl q = Fin q"
proof (cases "q = 0")
  case False
  let ?e = "max (ilog2 \<bar>q\<bar> - 52) (- 1074)"
  have "pow2 (ilog2 \<bar>q\<bar>) \<le> \<bar>q\<bar>" using False by (intro ilog2_bounds) simp
  also have "\<bar>q\<bar> < pow2 53 * pow2 k"
    using assms(1,3) by (simp add: pow2_nonneg_int del: of_int_power of_int_numeral)
  also have "\<dots> = pow2 (k + 53)" by (simp add: pow2_add)
  finally have "ilog2 \<bar>q\<bar> < k + 53" by (rule pow2_less_imp_less)
  with assms(4) have e: "?e \<le> k" by simp
  have "\<bar>q\<bar> / pow2 ?e = of_int m * pow2 (k - ?e)" using assms(1) by (simp add: pow2_diff)
  also have "\<dots> = of_int (m * 2 ^ nat (k - ?e))"
    using e by (subst pow2_nonneg_int) simp_all
  finally have "of_int (round_even (\<bar>q\<bar> / pow2 ?e)) * pow2 ?e = \<bar>q\<bar> / pow2 ?e * pow2 ?e"
    by (simp only: round_even_int)
  then have "of_int (round_even (\<bar>q\<bar> / pow2 ?e)) * pow2 ?e = \<bar>q\<bar>" by simp
  with assms(5) False show ?thesis
    unfolding fl_def by (cases "0 < q") (simp_all add: Let_def)
qed (simp add: fl_def)

text \<open>Multiples of \<open>2 ^ -k\<close> below \<open>2 ^ (53 - k)\<close> are representable; integers are the case \<open>k = 0\<close>.\<close>

lemma fl_dyadic:
  assumes "\<bar>m\<bar> < 2 ^ 53" and "k \<le> 1000"
  shows "fl (of_int m / 2 ^ k) = Fin (of_int m / 2 ^ k)"
proof (rule fl_exact)
  show "\<bar>of_int m / 2 ^ k\<bar> = of_int \<bar>m\<bar> * pow2 (- int k)"
    by (simp add: pow2_def power_int_minus divide_inverse abs_mult)
  have "\<bar>of_int m / 2 ^ k :: rat\<bar> \<le> of_int \<bar>m\<bar>"
    by (simp add: abs_divide divide_le_eq mult_le_cancel_left1 one_le_power)
  also have "\<dots> < of_int (2 ^ 53)" using assms(1) by (simp only: of_int_less_iff)
  also have "\<dots> = pow2 53" by (simp add: pow2_nonneg_int)
  also have "\<dots> \<le> pow2 1024" by (rule pow2_mono) simp
  finally show "\<bar>of_int m / 2 ^ k\<bar> < pow2 1024" .
qed (use assms in simp_all)

lemma fl_int: "\<bar>m\<bar> < 2 ^ 53 \<Longrightarrow> fl (of_int m) = Fin (of_int m)"
  using fl_dyadic[of m 0] by simp

lemma trunc_int [simp]: "trunc (of_int k) = k"
  by (simp add: trunc_def)

lemma to_cint_of_cint [simp]: "in_int32 i \<Longrightarrow> to_cint (of_cint i) = Some i"
  by (simp add: of_cint_def)

text \<open>Truncation moves towards zero, by less than one.\<close>

lemma trunc_bounds:
  "0 \<le> q \<Longrightarrow> of_int (trunc q) \<le> q" "q < of_int (trunc q) + 1"
  "q \<le> 0 \<Longrightarrow> q \<le> of_int (trunc q)" "of_int (trunc q) - 1 < q"
  unfolding trunc_def by (auto split: if_splits) linarith+

section \<open>Rounding is monotone\<close>

lemma round_even_nearest: "of_int (round_even x) - 1 / 2 \<le> x" "x \<le> of_int (round_even x) + 1 / 2"
  unfolding round_even_def Let_def by (auto split: if_splits) linarith+

lemma round_even_mono:
  assumes "x \<le> y"
  shows "round_even x \<le> round_even y"
proof (cases "\<lfloor>x\<rfloor> = \<lfloor>y\<rfloor>")
  case True
  with assms show ?thesis unfolding round_even_def Let_def by auto
next
  case False
  with assms have "\<lfloor>x\<rfloor> + 1 \<le> \<lfloor>y\<rfloor>" using floor_mono[OF assms] by linarith
  moreover have "round_even x \<le> \<lfloor>x\<rfloor> + 1" and "\<lfloor>y\<rfloor> \<le> round_even y"
    by (simp_all add: round_even_def Let_def)
  ultimately show ?thesis by linarith
qed

text \<open>The exponent and the magnitude that \<open>fl\<close> computes for a positive argument.\<close>

definition fl_exp :: "rat \<Rightarrow> int" where
  "fl_exp q = max (ilog2 q - 52) (- 1074)"

definition fl_mag :: "rat \<Rightarrow> rat" where
  "fl_mag q = of_int (round_even (q / pow2 (fl_exp q))) * pow2 (fl_exp q)"

lemma fl_pos: "0 < q \<Longrightarrow> fl q = (if pow2 1024 \<le> fl_mag q then PInf else Fin (fl_mag q))"
  by (simp add: fl_def fl_mag_def fl_exp_def Let_def)

lemma fl_neg: "q < 0 \<Longrightarrow> fl q = (if pow2 1024 \<le> fl_mag (- q) then NInf else Fin (- fl_mag (- q)))"
  by (simp add: fl_def fl_mag_def fl_exp_def Let_def)

lemma fl_0 [simp]: "fl 0 = Fin 0"
  by (simp add: fl_def)

lemma fl_minus: "fl (- q) = dneg (fl q)"
  by (cases q "0 :: rat" rule: linorder_cases) (simp_all add: fl_pos fl_neg)

lemma ilog2_mono: "0 < a \<Longrightarrow> a \<le> b \<Longrightarrow> ilog2 a \<le> ilog2 b"
proof -
  assume "0 < a" "a \<le> b"
  then have "pow2 (ilog2 a) < pow2 (ilog2 b + 1)"
    using ilog2_bounds(1)[of a] ilog2_bounds(2)[of b] by linarith
  then show ?thesis by (auto dest: pow2_less_imp_less)
qed

lemma fl_mag_nonneg: "0 < q \<Longrightarrow> 0 \<le> fl_mag q"
  using round_even_mono[of 0 "q / pow2 (fl_exp q)"] round_even_int[of 0]
  by (simp add: fl_mag_def)

lemma fl_mag_le_grid:
  assumes "q \<le> of_int g * pow2 (fl_exp q)"
  shows "fl_mag q \<le> of_int g * pow2 (fl_exp q)"
proof -
  have "q / pow2 (fl_exp q) \<le> of_int g" using assms by (simp add: divide_le_eq)
  then have "round_even (q / pow2 (fl_exp q)) \<le> g"
    using round_even_mono round_even_int by metis
  then show ?thesis by (simp add: fl_mag_def)
qed

lemma fl_mag_ge_grid:
  assumes "of_int g * pow2 (fl_exp q) \<le> q"
  shows "of_int g * pow2 (fl_exp q) \<le> fl_mag q"
proof -
  have "of_int g \<le> q / pow2 (fl_exp q)" using assms by (simp add: le_divide_eq)
  then have "g \<le> round_even (q / pow2 (fl_exp q))"
    using round_even_mono round_even_int by metis
  then show ?thesis by (simp add: fl_mag_def)
qed

lemma fl_mag_mono:
  assumes "0 < a" and "a \<le> b"
  shows "fl_mag a \<le> fl_mag b"
proof (cases "fl_exp a = fl_exp b")
  case True
  have "a / pow2 (fl_exp a) \<le> b / pow2 (fl_exp a)"
    using assms(2) by (simp add: divide_right_mono)
  then show ?thesis by (simp add: fl_mag_def True round_even_mono)
next
  case False
  have le: "ilog2 a \<le> ilog2 b" using assms by (rule ilog2_mono)
  with False have less: "fl_exp a < fl_exp b" and eb: "fl_exp b = ilog2 b - 52"
    and lt: "ilog2 a < ilog2 b"
    by (auto simp: fl_exp_def max_def split: if_splits)
  let ?P = "pow2 (ilog2 b)"
  have Pb: "?P = of_int (2 ^ 52) * pow2 (fl_exp b)"
    using pow2_add[of 52 "fl_exp b"] by (simp add: eb pow2_nonneg_int)
  have Pa: "?P = of_int (2 ^ nat (ilog2 b - fl_exp a)) * pow2 (fl_exp a)"
    using less eb pow2_add[of "ilog2 b - fl_exp a" "fl_exp a"]
    by (simp add: pow2_nonneg_int del: of_int_power)
  have "a \<le> ?P"
    using ilog2_bounds(2)[OF assms(1)] pow2_mono[of "ilog2 a + 1" "ilog2 b"] lt by linarith
  then have "fl_mag a \<le> ?P" using fl_mag_le_grid Pa by metis
  moreover have "?P \<le> b" using assms by (intro ilog2_bounds) simp
  then have "?P \<le> fl_mag b" using fl_mag_ge_grid Pb by metis
  ultimately show ?thesis by simp
qed

lemma fl_not_NaN [simp]: "fl q \<noteq> NaN"
  by (cases q "0 :: rat" rule: linorder_cases) (auto simp: fl_pos fl_neg)

lemma fl_mono:
  assumes "a \<le> b"
  shows "fl a \<le> fl b"
proof -
  consider "0 < a" | "b < 0" | "a \<le> 0" "0 \<le> b" by linarith
  then show ?thesis
  proof cases
    case 1
    with assms have "fl_mag a \<le> fl_mag b" by (intro fl_mag_mono)
    with 1 assms show ?thesis by (auto simp: fl_pos)
  next
    case 2
    with assms have "fl_mag (- b) \<le> fl_mag (- a)" by (intro fl_mag_mono) auto
    with 2 assms show ?thesis by (auto simp: fl_neg)
  next
    case 3
    have "fl a \<le> Fin 0"
      using 3(1) fl_mag_nonneg[of "- a"] by (cases "a = 0") (auto simp: fl_neg)
    also have "Fin 0 \<le> fl b"
      using 3(2) fl_mag_nonneg[of b] by (cases "b = 0") (auto simp: fl_pos)
    finally show ?thesis .
  qed
qed

lemma trunc_mono:
  assumes "p \<le> q"
  shows "trunc p \<le> trunc q"
proof (cases "0 \<le> p \<or> q < 0")
  case True
  with assms show ?thesis by (auto simp: trunc_def floor_mono ceiling_mono)
next
  case False
  then have "\<lceil>p\<rceil> \<le> 0" and "0 \<le> \<lfloor>q\<rfloor>" by (simp_all add: ceiling_le_iff)
  then have "\<lceil>p\<rceil> \<le> \<lfloor>q\<rfloor>" by (rule order_trans)
  with False show ?thesis by (simp add: trunc_def)
qed

end
