(* ===== verification/StringArray.thy ===== *)
theory StringArray
  imports Prelude
begin

text \<open>
  The growing array of strings of string_array.c, with the memory it manages: the slots behind
  \<open>array->strings\<close> (one more than the capacity), each an uninitialised pointer, the null pointer
  or a string. A write outside the slots is the fault \<open>Out_Of_Bounds\<close>; \<open>malloc\<close> and \<open>realloc\<close>,
  whose result the code does not check, are taken to succeed. \<open>size_t\<close> has 64 bits and
  \<open>char*\<close> 8 bytes. The invariant \<open>sa_inv\<close> and the list view \<open>sa_list\<close> are the contract of the
  array, which the locale \<open>string_store\<close> states for its client, the tokenizer.
\<close>

section \<open>The representation\<close>

datatype slot = Junk | Null | Str string

record string_array =
  strings :: "slot list"
  sa_size :: nat
  capacity :: nat

definition size_t :: "nat \<Rightarrow> nat" where
  "size_t n = n mod 2 ^ 64"

text \<open>How many pointers fit into \<open>(capacity + 1) * sizeof(char*)\<close> bytes.\<close>

definition alloc_slots :: "nat \<Rightarrow> nat" where
  "alloc_slots cap = size_t (size_t (cap + 1) * 8) div 8"

definition write_slot :: "string_array \<Rightarrow> nat \<Rightarrow> slot \<Rightarrow> ('s, string_array) prog" where
  "write_slot a i v =
     (if i < length (strings a) then ret (a\<lparr>strings := (strings a)[i := v]\<rparr>) else stop Out_Of_Bounds)"

text \<open>Reading \<open>array->strings[i]\<close> and following the pointer.\<close>

definition sa_get :: "string_array \<Rightarrow> nat \<Rightarrow> ('s, string) prog" where
  "sa_get a i =
     (if i < length (strings a)
      then (case strings a ! i of Str s \<Rightarrow> ret s | _ \<Rightarrow> stop Bad_Pointer)
      else stop Out_Of_Bounds)"

section \<open>The operations\<close>

definition make_string_array :: "nat \<Rightarrow> ('s, string_array) prog" where
  "make_string_array cap =
     write_slot \<lparr>strings = replicate (alloc_slots cap) Junk, sa_size = 0, capacity = cap\<rparr> 0 Null"

definition realloc_slots :: "slot list \<Rightarrow> nat \<Rightarrow> slot list" where
  "realloc_slots xs n = take n xs @ replicate (n - length xs) Junk"

definition resize :: "string_array \<Rightarrow> nat \<Rightarrow> ('s, string_array) prog" where
  "resize a cap =
     (let a1 = (if cap < sa_size a then a\<lparr>sa_size := cap\<rparr> else a);
          a2 = a1\<lparr>capacity := cap, strings := realloc_slots (strings a1) (alloc_slots cap)\<rparr>
      in write_slot a2 (capacity a2) Null)"

text \<open>
  \<open>string\<close> points into a NUL-terminated buffer; the copy loop stops behind the first NUL it has
  copied, so the new element is the C string within the first \<open>n\<close> bytes.
\<close>

definition add_string :: "string_array \<Rightarrow> string \<Rightarrow> nat \<Rightarrow> ('s, string_array) prog" where
  "add_string a string n =
     cbind (if sa_size a = capacity a
            then resize a (if capacity a \<noteq> 0 then size_t (capacity a * 2) else 1)
            else ret a)
       (\<lambda>a1. cbind (write_slot a1 (sa_size a1) (Str (c_str (take n string))))
         (\<lambda>a2. let a3 = a2\<lparr>sa_size := size_t (sa_size a2 + 1)\<rparr>
                in write_slot a3 (sa_size a3) Null))"

section \<open>Invariant and list view\<close>

definition slot_str :: "slot \<Rightarrow> string" where
  "slot_str v = (case v of Str s \<Rightarrow> s | _ \<Rightarrow> [])"

definition sa_list :: "string_array \<Rightarrow> string list" where
  "sa_list a = map slot_str (take (sa_size a) (strings a))"

text \<open>The strings come first, the null pointer follows them, and all slots are allocated.\<close>

definition sa_inv :: "string_array \<Rightarrow> bool" where
  "sa_inv a \<longleftrightarrow> sa_size a \<le> capacity a \<and> length (strings a) = capacity a + 1 \<and>
     (\<forall>i < sa_size a. \<exists>s. strings a ! i = Str s) \<and> strings a ! sa_size a = Null"

text \<open>The largest capacity for which the byte count does not wrap around.\<close>

definition max_capacity :: nat where
  "max_capacity = 2 ^ 60"

lemma alloc_slots_ok: "cap \<le> max_capacity \<Longrightarrow> alloc_slots cap = cap + 1"
  by (simp add: alloc_slots_def size_t_def max_capacity_def)

lemma length_sa_list: "sa_inv a \<Longrightarrow> length (sa_list a) = sa_size a"
  by (simp add: sa_list_def sa_inv_def)

lemma sa_get_ok: "sa_inv a \<Longrightarrow> i < sa_size a \<Longrightarrow> sa_get a i = ret (sa_list a ! i)"
  by (auto simp: sa_get_def sa_inv_def sa_list_def slot_str_def split: slot.splits)

text \<open>The sentinel: the slot behind the last string holds the null pointer, which is not followed.\<close>

lemma sa_get_end: "sa_inv a \<Longrightarrow> sa_get a (sa_size a) = stop Bad_Pointer"
  by (simp add: sa_get_def sa_inv_def)

lemma make_string_array_ok:
  assumes "cap \<le> max_capacity"
  shows "\<exists>a. make_string_array cap = ret a \<and> sa_inv a \<and> sa_list a = [] \<and> capacity a = cap"
  using assms
  by (intro exI[where x = "\<lparr>strings = Null # replicate cap Junk, sa_size = 0, capacity = cap\<rparr>"])
    (simp add: make_string_array_def write_slot_def alloc_slots_ok sa_inv_def sa_list_def)

text \<open>Growing keeps the strings, shrinking cuts them off; both leave a sentinel at the end.\<close>

lemma resize_ok:
  assumes "sa_inv a" and "cap \<le> max_capacity"
  shows "\<exists>b. resize a cap = ret b \<and> sa_inv b \<and> capacity b = cap \<and> sa_size b = min (sa_size a) cap \<and>
    sa_list b = take cap (sa_list a)"
proof (cases "cap < sa_size a")
  case True
  with assms show ?thesis
    by (auto simp: resize_def write_slot_def alloc_slots_ok realloc_slots_def sa_inv_def sa_list_def
        nth_append Let_def take_map min_def intro!: nth_equalityI)
next
  case False
  with assms show ?thesis
    by (auto simp: resize_def write_slot_def alloc_slots_ok realloc_slots_def sa_inv_def sa_list_def
        nth_append nth_list_update Let_def min_def intro!: nth_equalityI)
qed

lemma add_string_ok:
  assumes inv: "sa_inv a" and small: "2 * sa_size a + 1 \<le> max_capacity"
  shows "\<exists>b. (add_string a s n :: ('s, string_array) prog) = ret b \<and> sa_inv b \<and>
    sa_list b = sa_list a @ [c_str (take n s)]"
proof -
  let ?cap = "if capacity a \<noteq> 0 then size_t (capacity a * 2) else 1"
  obtain a1 where a1: "(if sa_size a = capacity a then resize a ?cap else ret a :: ('s, _) prog) = ret a1"
    and inv1: "sa_inv a1" and list1: "sa_list a1 = sa_list a" and room: "sa_size a1 < capacity a1"
  proof (cases "sa_size a = capacity a")
    case True
    with small have cap: "?cap \<le> max_capacity" "sa_size a < ?cap"
      by (auto simp: size_t_def max_capacity_def)
    obtain b where "(resize a ?cap :: ('s, _) prog) = ret b" "sa_inv b" "capacity b = ?cap"
      "sa_size b = min (sa_size a) ?cap" "sa_list b = take ?cap (sa_list a)"
      using resize_ok[OF inv cap(1)] by blast
    with True cap(2) that[of b] length_sa_list[OF inv] show ?thesis by simp
  next
    case False
    with inv that[of a] show ?thesis by (simp add: sa_inv_def)
  qed
  have sz: "sa_size a1 = sa_size a"
    using length_sa_list[OF inv] length_sa_list[OF inv1] list1 by simp
  let ?v = "Str (c_str (take n s))"
  let ?b = "a1\<lparr>sa_size := Suc (sa_size a1),
                strings := (strings a1)[sa_size a1 := ?v, Suc (sa_size a1) := Null]\<rparr>"
  have "size_t (sa_size a1 + 1) = Suc (sa_size a1)"
    using small sz by (simp add: size_t_def max_capacity_def)
  with room inv1 have "(add_string a s n :: ('s, _) prog) = ret ?b"
    unfolding add_string_def a1 by (simp add: write_slot_def sa_inv_def Let_def fun_eq_iff)
  moreover have "sa_inv ?b"
    using inv1 room unfolding sa_inv_def by (simp add: nth_list_update All_less_Suc)
  moreover have "sa_list ?b = sa_list a1 @ [c_str (take n s)]"
    using inv1 room
    by (simp add: sa_list_def sa_inv_def take_Suc_conv_app_nth slot_str_def)
  ultimately show ?thesis using list1 by auto
qed

section \<open>The contract for clients\<close>

text \<open>
  A store of strings: it starts empty, and adding within its limit appends one string, keeps the
  invariant and cannot fail. \<open>add_all\<close> is what a client does with it: a run of additions.
\<close>

primrec add_all ::
  "('a \<Rightarrow> string \<Rightarrow> nat \<Rightarrow> ('s, 'a) prog) \<Rightarrow> 'a \<Rightarrow> (string \<times> nat) list \<Rightarrow> ('s, 'a) prog" where
  "add_all add a [] = ret a"
| "add_all add a (p # ps) = cbind (add a (fst p) (snd p)) (\<lambda>b. add_all add b ps)"

locale string_store =
  fixes add :: "'a \<Rightarrow> string \<Rightarrow> nat \<Rightarrow> ('s, 'a) prog"
    and contents :: "'a \<Rightarrow> string list"
    and inv :: "'a \<Rightarrow> bool"
    and limit :: nat
  assumes add_ok: "inv a \<Longrightarrow> length (contents a) < limit \<Longrightarrow>
    \<exists>b. add a s n = ret b \<and> inv b \<and> contents b = contents a @ [c_str (take n s)]"
begin

lemma add_all_ok:
  assumes "inv a" and "length (contents a) + length ps \<le> limit"
  shows "\<exists>b. add_all add a ps = ret b \<and> inv b \<and>
    contents b = contents a @ map (\<lambda>p. c_str (take (snd p) (fst p))) ps"
  using assms
proof (induction ps arbitrary: a)
  case (Cons p ps)
  obtain b where b: "add a (fst p) (snd p) = ret b" "inv b"
    "contents b = contents a @ [c_str (take (snd p) (fst p))]"
    using add_ok[OF Cons.prems(1)] Cons.prems(2) by fastforce
  with Cons.IH[of b] Cons.prems(2) show ?case by auto
qed auto

end

text \<open>The array of the code is such a store; its limit keeps the doubled capacity below \<open>2 ^ 60\<close>.\<close>

definition max_strings :: nat where
  "max_strings = 2 ^ 59"

interpretation sa: string_store add_string sa_list sa_inv max_strings
proof
  fix a s n
  assume "sa_inv a" and "length (sa_list a) < max_strings"
  then have "2 * sa_size a + 1 \<le> max_capacity"
    by (simp add: length_sa_list max_strings_def max_capacity_def)
  with \<open>sa_inv a\<close> show "\<exists>b. add_string a s n = ret b \<and> sa_inv b \<and>
      sa_list b = sa_list a @ [c_str (take n s)]"
    by (rule add_string_ok)
qed

end
