(* ===== verification/Comm.thy ===== *)
theory Comm
  imports Prelude
begin

text \<open>
  The stream \<open>comm_file\<close> that a session talks through (server.c, \<open>fdopen\<close> on the client's socket).
  Its input is the list of lines that \<open>getline\<close> will return, each with its newline, the last one
  perhaps without, and the end-of-file flag that reading up to the end sets; its output is the list of messages sent. Whether a message can still be sent
  is up to the client and the network: \<open>accepts\<close> says, from what was sent before, whether the
  next \<open>fputs\<close> or \<open>fprintf\<close> succeeds.
\<close>

record stream =
  inp :: "string list"
  eof :: bool
  sent :: "string list"
  accepts :: "string list \<Rightarrow> string \<Rightarrow> bool"

text \<open>One \<open>fputs\<close> or \<open>fprintf\<close>: \<open>False\<close> stands for EOF or a negative count.\<close>

definition send :: "string \<Rightarrow> (stream, bool) prog" where
  "send msg c = (if accepts c (sent c) msg then (Inr True, c\<lparr>sent := sent c @ [msg]\<rparr>) else (Inr False, c))"

text \<open>\<open>if (fputs(msg, comm_file) == EOF) error_and_exit(...)\<close>.\<close>

definition put_line :: "string \<Rightarrow> (stream, unit) prog" where
  "put_line msg = cbind (send msg) (\<lambda>ok. if ok then ret () else error_and_exit)"

text \<open>\<open>(void)fprintf(comm_file, ...)\<close>.\<close>

definition put_ignored :: "string \<Rightarrow> (stream, unit) prog" where
  "put_ignored msg = cbind (send msg) (\<lambda>_. ret ())"

fun put_lines :: "string list \<Rightarrow> (stream, unit) prog" where
  "put_lines [] = ret ()"
| "put_lines (m # ms) = cbind (put_line m) (\<lambda>_. put_lines ms)"

text \<open>
  \<open>if (getline(...) == -1) error_and_exit(...)\<close>: the next line, or the end of the process. A line
  without a newline was ended by the end of the input.
\<close>

definition ends_line :: "string \<Rightarrow> bool" where
  "ends_line l \<longleftrightarrow> l \<noteq> [] \<and> last l = LF"

definition get_line :: "(stream, string) prog" where
  "get_line c = (case inp c of
       [] \<Rightarrow> (Inl Exit_Failure, c\<lparr>eof := True\<rparr>)
     | l # ls \<Rightarrow> (Inr l, c\<lparr>inp := ls, eof := \<not> ends_line l\<rparr>))"

definition feof :: "(stream, bool) prog" where
  "feof c = (Inr (eof c), c)"

text \<open>A client that takes every message.\<close>

definition open_stream :: "stream \<Rightarrow> bool" where
  "open_stream c \<longleftrightarrow> (\<forall>out msg. accepts c out msg)"

definition sends :: "string list \<Rightarrow> stream \<Rightarrow> stream" where
  "sends ms c = c\<lparr>sent := sent c @ ms\<rparr>"

lemma send_open [simp]: "open_stream c \<Longrightarrow> send msg c = (Inr True, sends [msg] c)"
  by (simp add: send_def open_stream_def sends_def)

lemma put_line_open [simp]: "open_stream c \<Longrightarrow> put_line msg c = (Inr (), sends [msg] c)"
  by (simp add: put_line_def cbind_def)

lemma put_ignored_open [simp]: "open_stream c \<Longrightarrow> put_ignored msg c = (Inr (), sends [msg] c)"
  by (simp add: put_ignored_def cbind_def)

lemma open_sends [simp]: "open_stream (sends ms c) \<longleftrightarrow> open_stream c"
  by (simp add: open_stream_def sends_def)

lemma sends_sends [simp]: "sends ms (sends ns c) = sends (ns @ ms) c"
  by (simp add: sends_def)

lemma sends_Nil [simp]: "sends [] c = c"
  by (simp add: sends_def)

lemma eof_sends [simp]: "eof (sends ms c) = eof c"
  by (simp add: sends_def)

lemma inp_sends [simp]: "inp (sends ms c) = inp c" and sent_sends [simp]: "sent (sends ms c) = sent c @ ms"
  by (simp_all add: sends_def)

lemma put_lines_open [simp]: "open_stream c \<Longrightarrow> put_lines ms c = (Inr (), sends ms c)"
  by (induction ms arbitrary: c) (simp_all add: cbind_def)

text \<open>Writing never touches the input, and what was sent stays sent.\<close>

lemma send_inp: "send msg c = (r, c') \<Longrightarrow> inp c' = inp c"
  by (auto simp: send_def split: if_splits)

lemma keeps_inp_send [keeps_intros]: "keeps (\<lambda>c. inp c = ls) (send msg)"
  by (auto simp: keeps_def dest: send_inp)

lemma keeps_inp_put_line [keeps_intros]: "keeps (\<lambda>c. inp c = ls) (put_line msg)"
  unfolding put_line_def by (intro keeps_intros)

lemma keeps_inp_put_ignored [keeps_intros]: "keeps (\<lambda>c. inp c = ls) (put_ignored msg)"
  unfolding put_ignored_def by (intro keeps_intros)

lemma get_line_run [simp]:
  "inp c = l # ls \<Longrightarrow> get_line c = (Inr l, c\<lparr>inp := ls, eof := \<not> ends_line l\<rparr>)"
  by (simp add: get_line_def)

lemma get_line_inp: "get_line c = (Inr l, c') \<Longrightarrow> inp c = l # inp c'"
  by (auto simp: get_line_def split: list.splits)

end
