(* ===== verification/Util.thy ===== *)
theory Util
  imports StringArray Comm
begin

text \<open>
  util.c: the tokenizer of command lines, the names of the coins and the argument count check.
  \<open>tok_loop\<close> is the loop of \<open>tokenize_line\<close>; its position and \<open>token_start\<close> are the suffixes of the
  line they point to. The tokens it collects are the whitespace-separated words of the line that
  are followed by whitespace: a last word that runs to the end of the line is dropped.
\<close>

section \<open>Coins\<close>

abbreviation (input) COIN_OMG :: int where "COIN_OMG \<equiv> 0"
abbreviation (input) COIN_DOGE :: int where "COIN_DOGE \<equiv> 1"
abbreviation (input) COIN_BTC :: int where "COIN_BTC \<equiv> 2"
abbreviation (input) COIN_ETH :: int where "COIN_ETH \<equiv> 3"

definition coin_type_to_string :: "int \<Rightarrow> string" where
  "coin_type_to_string coin_type =
     (if coin_type = COIN_DOGE then ''DOGE''
      else if coin_type = COIN_BTC then ''BTC''
      else if coin_type = COIN_ETH then ''ETH''
      else if coin_type = COIN_OMG then ''OMG''
      else ''UNKNOWN'')"

section \<open>Tokens\<close>

definition INITIAL_TOKENS_CAPACITY :: nat where
  "INITIAL_TOKENS_CAPACITY = 4"

fun tok_loop :: "string_array \<Rightarrow> string \<Rightarrow> nat \<Rightarrow> string \<Rightarrow> ('s, string_array) prog" where
  "tok_loop tokens token_start token_size [] = ret tokens"
| "tok_loop tokens token_start token_size (c # cs) =
     (if c = NUL then ret tokens
      else if isspace c then
        (if token_size \<noteq> 0
         then cbind (add_string tokens token_start token_size) (\<lambda>tokens. tok_loop tokens token_start 0 cs)
         else tok_loop tokens token_start token_size cs)
      else tok_loop tokens (if token_size = 0 then c # cs else token_start) (token_size + 1) cs)"

definition tokenize_line :: "string \<Rightarrow> ('s, string_array) prog" where
  "tokenize_line line =
     cbind (make_string_array INITIAL_TOKENS_CAPACITY) (\<lambda>tokens. tok_loop tokens line 0 line)"

text \<open>\<open>validate_command_args\<close>: 1 when the count is right, else 0 after telling the client.\<close>

definition validate_command_args :: "string_array \<Rightarrow> nat \<Rightarrow> (stream, int) prog" where
  "validate_command_args command_tokens expected_count =
     (if sa_size command_tokens \<noteq> expected_count
      then cbind (put_line ''Invalid command syntax! Try help.'') (\<lambda>_. ret 0)
      else ret 1)"

section \<open>The words of a line\<close>

abbreviation word_char :: "char \<Rightarrow> bool" where "word_char c \<equiv> \<not> isspace c"

text \<open>The words that whitespace follows, and all words.\<close>

function closed_words :: "string \<Rightarrow> string list" where
  "closed_words s =
     (let t = dropWhile isspace s
      in case dropWhile word_char t of
           [] \<Rightarrow> []
         | c # r \<Rightarrow> takeWhile word_char t # closed_words r)"
  by pat_completeness auto
termination
proof (relation "measure length")
  fix s x c r assume "x = dropWhile isspace s" and "dropWhile word_char x = c # r"
  then have "length (c # r) \<le> length s"
    by (metis length_dropWhile_le order_trans)
  then show "(r, s) \<in> measure length" by simp
qed simp

declare closed_words.simps [simp del]

definition is_word :: "string \<Rightarrow> bool" where
  "is_word w \<longleftrightarrow> w \<noteq> [] \<and> (\<forall>c \<in> set w. word_char c \<and> c \<noteq> NUL)"

lemma closed_words_Nil [simp]: "closed_words [] = []"
  by (simp add: closed_words.simps)

lemma closed_words_space [simp]: "isspace c \<Longrightarrow> closed_words (c # s) = closed_words s"
  by (simp add: closed_words.simps[of "c # s"] closed_words.simps[of s])

lemma closed_words_word:
  assumes "is_word w" and "isspace c"
  shows "closed_words (w @ c # s) = w # closed_words s"
proof -
  have "dropWhile isspace (w @ c # s) = w @ c # s"
    using assms(1) by (cases w) (auto simp: is_word_def)
  moreover have "takeWhile word_char (w @ c # s) = w" and "dropWhile word_char (w @ c # s) = c # s"
    using assms by (auto simp: is_word_def takeWhile_append dropWhile_append)
  ultimately show ?thesis using closed_words.simps[of "w @ c # s"] assms(2) by simp
qed

lemma closed_words_open: "is_word w \<Longrightarrow> closed_words w = []"
proof -
  assume w: "is_word w"
  then have "dropWhile isspace w = w" by (cases w) (auto simp: is_word_def)
  moreover have "dropWhile word_char w = []" using w by (simp add: is_word_def)
  ultimately show ?thesis by (subst closed_words.simps) (simp del: dropWhile_eq_Nil_conv)
qed

text \<open>The pieces that the loop passes to \<open>add_string\<close>, from the current word and the rest of the line.\<close>

fun pieces :: "string \<Rightarrow> string \<Rightarrow> (string \<times> nat) list" where
  "pieces w [] = []"
| "pieces w (c # cs) =
     (if c = NUL then []
      else if isspace c then (if w = [] then pieces [] cs else (w @ c # cs, length w) # pieces [] cs)
      else pieces (w @ [c]) cs)"

lemma tok_loop_pieces:
  assumes "n = length w" and "w \<noteq> [] \<longrightarrow> start = w @ cs"
  shows "tok_loop a start n cs = add_all add_string a (pieces w cs)"
  using assms
proof (induction cs arbitrary: a start n w)
  case (Cons c cs)
  show ?case
  proof (cases "isspace c")
    case True
    with Cons.prems Cons.IH[of 0 "[]"] show ?thesis by auto
  next
    case False
    with Cons.prems show ?thesis
      using Cons.IH[of "Suc n" "w @ [c]" "if n = 0 then c # cs else start"] by auto
  qed
qed simp

lemma c_str_Cons [simp]: "c_str (c # s) = (if c = NUL then [] else c # c_str s)"
  and c_str_Nil [simp]: "c_str [] = []"
  by (simp_all add: c_str_def)

lemma c_str_word: "is_word w \<Longrightarrow> c_str w = w"
  by (auto simp: is_word_def c_str_def takeWhile_eq_all_conv)

lemma pieces_words:
  assumes "w \<noteq> [] \<longrightarrow> is_word w"
  shows "map (\<lambda>p. c_str (take (snd p) (fst p))) (pieces w cs) = closed_words (w @ c_str cs)"
  using assms
proof (induction cs arbitrary: w)
  case Nil
  then show ?case by (cases "w = []") (auto simp: closed_words_open)
next
  case (Cons c cs)
  consider "c = NUL" | "c \<noteq> NUL" "isspace c" | "c \<noteq> NUL" "\<not> isspace c" by blast
  then show ?case
  proof cases
    case 1
    with Cons.prems show ?thesis by (cases "w = []") (auto simp: closed_words_open)
  next
    case 2
    with Cons.prems Cons.IH[of "[]"] show ?thesis
      by (cases "w = []") (auto simp: closed_words_word c_str_word)
  next
    case 3
    with Cons.prems have "is_word (w @ [c])" by (auto simp: is_word_def)
    with Cons.IH[of "w @ [c]"] 3 show ?thesis by simp
  qed
qed

lemma length_pieces: "length (pieces w cs) \<le> length cs"
  by (induction w cs rule: pieces.induct) auto

text \<open>
  The tokenizer through the contract of its store: it never fails and never writes out of bounds,
  and the array it returns holds the words of the line that are followed by whitespace.
\<close>

lemma tokenize_line_ok:
  assumes "length line \<le> max_strings"
  shows "\<exists>a. (tokenize_line line :: ('s, string_array) prog) = ret a \<and> sa_inv a \<and>
    sa_list a = closed_words (c_str line)"
proof -
  obtain a0 where a0: "(make_string_array INITIAL_TOKENS_CAPACITY :: ('s, _) prog) = ret a0"
    "sa_inv a0" "sa_list a0 = []"
    using make_string_array_ok[of INITIAL_TOKENS_CAPACITY]
    by (auto simp: INITIAL_TOKENS_CAPACITY_def max_capacity_def)
  have "length (sa_list a0) + length (pieces [] line) \<le> max_strings"
    using assms length_pieces[of "[]" line] a0(3) by simp
  then obtain b where "(add_all add_string a0 (pieces [] line) :: ('s, _) prog) = ret b" "sa_inv b"
    "sa_list b = sa_list a0 @ map (\<lambda>p. c_str (take (snd p) (fst p))) (pieces [] line)"
    using sa.add_all_ok[OF a0(2)] by blast
  moreover have "(tokenize_line line :: ('s, _) prog) = add_all add_string a0 (pieces [] line)"
    unfolding tokenize_line_def a0(1) cbind_ret by (rule tok_loop_pieces) simp_all
  ultimately show ?thesis using a0(3) pieces_words[of "[]" line] by auto
qed

text \<open>What the words are: nonempty, free of whitespace, and a line of words reads back as them.\<close>

lemma closed_words_are_words: "NUL \<notin> set s \<Longrightarrow> w \<in> set (closed_words s) \<Longrightarrow> is_word w"
proof (induction s rule: closed_words.induct)
  case (1 s)
  let ?t = "dropWhile isspace s"
  show ?case
  proof (cases "dropWhile word_char ?t")
    case Nil
    with "1.prems" show ?thesis by (simp add: closed_words.simps[of s])
  next
    case (Cons c r)
    have sub: "set ?t \<subseteq> set s" "set (dropWhile word_char ?t) \<subseteq> set ?t"
      by (auto dest: set_dropWhileD)
    with Cons "1.prems"(1) have "NUL \<notin> set r" by auto
    moreover obtain a l where t: "?t = a # l" using Cons by (cases ?t) auto
    then have "word_char a" by (simp add: dropWhile_eq_Cons_conv)
    with t have "takeWhile word_char ?t \<noteq> []" by simp
    then have "is_word (takeWhile word_char ?t)"
      using sub(1) "1.prems"(1) by (auto simp: is_word_def dest: set_takeWhileD)
    ultimately show ?thesis
      using "1.IH"[OF refl Cons] "1.prems"(2) Cons by (auto simp: closed_words.simps[of s])
  qed
qed

fun unwords :: "string list \<Rightarrow> string" where
  "unwords [] = []"
| "unwords (w # ws) = w @ CHR '' '' # unwords ws"

lemma closed_words_unwords_tail:
  "closed_words s = [] \<Longrightarrow> \<forall>w \<in> set ws. is_word w \<Longrightarrow> closed_words (unwords ws @ s) = ws"
  by (induction ws) (auto simp: closed_words_word isspace_def)

lemma unwords_no_NUL: "\<forall>w \<in> set ws. is_word w \<Longrightarrow> NUL \<notin> set (unwords ws)"
  by (induction ws) (auto simp: is_word_def)

text \<open>The words of a line that was put together from words.\<close>

lemma closed_words_typed:
  assumes "list_all is_word ws" and "tail = [] \<or> tail = CRLF \<or> is_word tail"
  shows "closed_words (c_str (unwords ws @ tail)) = ws"
proof -
  have ws: "\<forall>w \<in> set ws. is_word w" using assms(1) by (simp add: list_all_iff)
  have "closed_words tail = []" using assms(2) closed_words_open by (auto simp: isspace_def)
  then have "closed_words (unwords ws @ tail) = ws" using ws by (rule closed_words_unwords_tail)
  moreover have "NUL \<notin> set tail" using assms(2) by (elim disjE) (auto simp: is_word_def)
  then have "NUL \<notin> set (unwords ws @ tail)" using unwords_no_NUL[OF ws] by simp
  ultimately show ?thesis using c_str_id by metis
qed

lemma validate_command_args_ok:
  "sa_size a = n \<Longrightarrow> validate_command_args a n = ret 1"
  by (simp add: validate_command_args_def)

lemma validate_command_args_bad:
  "sa_size a \<noteq> n \<Longrightarrow> open_stream c \<Longrightarrow>
   validate_command_args a n c = (Inr 0, sends [''Invalid command syntax! Try help.''] c)"
  by (simp add: validate_command_args_def cbind_def)

end
