(* ===== verification/Schema.thy ===== *)
theory Schema
  imports CNumber Util "HOL-Library.Option_ord"
begin

text \<open>
  The database of db.c as its SQL text describes it: the structs \<open>user\<close> and \<open>order\<close> of db.h, the
  three tables of \<open>create_tables\<close>, one constructor of \<open>stmt\<close> per SQL statement of the file with its
  bound parameters, and \<open>sql_meaning\<close>, what each statement means on the tables: which rows it
  delivers and which tables it leaves. SQL leaves some of that open (the order of equal sort keys,
  the current time), so \<open>sql_meaning\<close> is a relation; \<open>sql_eval\<close> is one way to compute it. The
  contract of a table with an AUTOINCREMENT key is the locale \<open>keyed_table\<close>.
\<close>

section \<open>Rows and tables\<close>

record user_t =
  userID :: int
  username :: string
  password :: string
  name :: string
  OMG :: int
  DOGE :: int
  BTC :: int
  ETH :: int

text \<open>\<open>created_at\<close> is \<open>None\<close> for a null pointer, or NULL in the table.\<close>

record order_t =
  orderID :: int
  item :: int
  buyOrSell :: int
  quantity :: int
  ord_userID :: int
  unitPrice :: double
  created_at :: "string option"

abbreviation (input) BUY :: int where "BUY \<equiv> 0"
abbreviation (input) SELL :: int where "SELL \<equiv> 1"

abbreviation (input) DEFAULT_OMG :: int where "DEFAULT_OMG \<equiv> 10000"
abbreviation (input) DEFAULT_DOGE :: int where "DEFAULT_DOGE \<equiv> 200"
abbreviation (input) DEFAULT_BTC :: int where "DEFAULT_BTC \<equiv> 50"
abbreviation (input) DEFAULT_ETH :: int where "DEFAULT_ETH \<equiv> 75"

text \<open>
  What a connection sees: whether the tables exist, whether foreign keys are enforced, the rows in
  the order of their keys, and the largest key each table has ever given out.
\<close>

record tables =
  created :: bool
  fk_on :: bool
  users :: "user_t list"
  orders :: "order_t list"
  archives :: "order_t list"
  user_seq :: int
  order_seq :: int
  archive_seq :: int

datatype sqlval = SInt int | SReal double | SText string | SNull

type_synonym row = "sqlval list"

definition text_val :: "string option \<Rightarrow> sqlval" where
  "text_val s = (case s of None \<Rightarrow> SNull | Some t \<Rightarrow> SText t)"

text \<open>The columns in the order of the SELECT lists, which is also the order of the tables.\<close>

definition user_row :: "user_t \<Rightarrow> row" where
  "user_row u = [SInt (userID u), SText (username u), SText (password u), SText (name u),
     SInt (OMG u), SInt (DOGE u), SInt (BTC u), SInt (ETH u)]"

definition order_row :: "order_t \<Rightarrow> row" where
  "order_row r = [SInt (orderID r), SInt (item r), SInt (buyOrSell r), SInt (quantity r),
     SReal (unitPrice r), SInt (ord_userID r), text_val (created_at r)]"

definition inventory_row :: "user_t \<Rightarrow> row" where
  "inventory_row u = [SInt (OMG u), SInt (DOGE u), SInt (BTC u), SInt (ETH u)]"

section \<open>The statements of db.c\<close>

datatype stmt =
    Create_Tables
  | Drop_All_Tables
  | Insert_Order int int int double int
  | Insert_User string string string int int int int
  | Dump_Users
  | Dump_Orders
  | Dump_Archives
  | Delete_Order int
  | Select_User int
  | Select_Order int
  | Select_Matching_Buy int double int
  | Select_Matching_Sell int double int
  | Select_Top_Buys int
  | Select_Top_Sells int
  | Update_Order int int int double int int
  | Update_Balance int int int int int
  | Select_User_Orders int
  | Select_Inventory int
  | Select_User_By_Name string
  | Insert_Archive int int int double int "string option"
  | Select_Archives int
  | Select_Timestamp

text \<open>The WHERE clauses that select the counterparties of an order, and the two sides of a book.\<close>

definition matching_buys :: "tables \<Rightarrow> int \<Rightarrow> double \<Rightarrow> int \<Rightarrow> order_t list" where
  "matching_buys t i p uid =
     filter (\<lambda>r. item r = i \<and> buyOrSell r = 0 \<and> dle p (unitPrice r) \<and> ord_userID r \<noteq> uid) (orders t)"

definition matching_sells :: "tables \<Rightarrow> int \<Rightarrow> double \<Rightarrow> int \<Rightarrow> order_t list" where
  "matching_sells t i p uid =
     filter (\<lambda>r. item r = i \<and> buyOrSell r = 1 \<and> dle (unitPrice r) p \<and> ord_userID r \<noteq> uid) (orders t)"

definition side_orders :: "tables \<Rightarrow> int \<Rightarrow> int \<Rightarrow> order_t list" where
  "side_orders t i side = filter (\<lambda>r. item r = i \<and> buyOrSell r = side) (orders t)"

text \<open>\<open>ORDER BY ... LIMIT n\<close>: the first \<open>n\<close> of some arrangement in the order asked for.\<close>

definition ordered_limit :: "('r \<Rightarrow> 'r \<Rightarrow> bool) \<Rightarrow> nat \<Rightarrow> 'r list \<Rightarrow> 'r list \<Rightarrow> bool" where
  "ordered_limit le n xs out \<longleftrightarrow> (\<exists>ys. mset ys = mset xs \<and> sorted_wrt le ys \<and> out = take n ys)"

definition older :: "order_t \<Rightarrow> order_t \<Rightarrow> bool" where
  "older a b \<longleftrightarrow> created_at a \<le> created_at b"

definition dearer :: "order_t \<Rightarrow> order_t \<Rightarrow> bool" where
  "dearer a b \<longleftrightarrow> unitPrice b \<le> unitPrice a"

definition cheaper :: "order_t \<Rightarrow> order_t \<Rightarrow> bool" where
  "cheaper a b \<longleftrightarrow> unitPrice a \<le> unitPrice b"

section \<open>The effects of the statements\<close>

definition user_ids :: "tables \<Rightarrow> int set" where
  "user_ids t = userID ` set (users t)"

definition fk_ok :: "tables \<Rightarrow> int \<Rightarrow> bool" where
  "fk_ok t uid \<longleftrightarrow> (fk_on t \<longrightarrow> uid \<in> user_ids t)"

definition max_rowid :: int where
  "max_rowid = 2 ^ 63 - 1"

definition empty_tables :: "tables \<Rightarrow> tables" where
  "empty_tables t = t\<lparr>users := [], orders := [], archives := [],
     user_seq := 0, order_seq := 0, archive_seq := 0\<rparr>"

definition add_order :: "string \<Rightarrow> int \<Rightarrow> int \<Rightarrow> int \<Rightarrow> double \<Rightarrow> int \<Rightarrow> tables \<Rightarrow> tables" where
  "add_order ts i b q p uid t = t\<lparr>order_seq := order_seq t + 1,
     orders := orders t @ [\<lparr>orderID = order_seq t + 1, item = i, buyOrSell = b, quantity = q,
       ord_userID = uid, unitPrice = p, created_at = Some ts\<rparr>]\<rparr>"

definition add_user :: "string \<Rightarrow> string \<Rightarrow> string \<Rightarrow> int \<Rightarrow> int \<Rightarrow> int \<Rightarrow> int \<Rightarrow> tables \<Rightarrow> tables" where
  "add_user un pw nm omg doge btc eth t = t\<lparr>user_seq := user_seq t + 1,
     users := users t @ [\<lparr>userID = user_seq t + 1, username = un, password = pw, name = nm,
       OMG = omg, DOGE = doge, BTC = btc, ETH = eth\<rparr>]\<rparr>"

definition add_archive :: "int \<Rightarrow> int \<Rightarrow> int \<Rightarrow> double \<Rightarrow> int \<Rightarrow> string option \<Rightarrow> tables \<Rightarrow> tables" where
  "add_archive i b q p uid ts t = t\<lparr>archive_seq := archive_seq t + 1,
     archives := archives t @ [\<lparr>orderID = archive_seq t + 1, item = i, buyOrSell = b, quantity = q,
       ord_userID = uid, unitPrice = p, created_at = ts\<rparr>]\<rparr>"

definition remove_order :: "int \<Rightarrow> tables \<Rightarrow> tables" where
  "remove_order i t = t\<lparr>orders := filter (\<lambda>r. orderID r \<noteq> i) (orders t)\<rparr>"

definition change_order :: "int \<Rightarrow> int \<Rightarrow> int \<Rightarrow> double \<Rightarrow> int \<Rightarrow> int \<Rightarrow> tables \<Rightarrow> tables" where
  "change_order i b q p uid k t = t\<lparr>orders := map (\<lambda>r. if orderID r = k
     then r\<lparr>item := i, buyOrSell := b, quantity := q, ord_userID := uid, unitPrice := p\<rparr> else r) (orders t)\<rparr>"

definition change_balance :: "int \<Rightarrow> int \<Rightarrow> int \<Rightarrow> int \<Rightarrow> int \<Rightarrow> tables \<Rightarrow> tables" where
  "change_balance omg doge btc eth k t = t\<lparr>users := map (\<lambda>u. if userID u = k
     then u\<lparr>OMG := omg, DOGE := doge, BTC := btc, ETH := eth\<rparr> else u) (users t)\<rparr>"

text \<open>
  \<open>sql_meaning t q rows t'\<close>: run to its end on \<open>t\<close>, the statement \<open>q\<close> delivers \<open>rows\<close> and leaves
  \<open>t'\<close>. No \<open>t'\<close> exists when the tables are missing or a constraint forbids the change. A NaN is
  bound as NULL, which the \<open>NOT NULL\<close> price column refuses and no comparison selects.
\<close>

fun sql_meaning :: "tables \<Rightarrow> stmt \<Rightarrow> row list \<Rightarrow> tables \<Rightarrow> bool" where
  "sql_meaning t Create_Tables rows t' \<longleftrightarrow>
     rows = [] \<and> t' = (if created t then t else (empty_tables t)\<lparr>created := True\<rparr>)"
| "sql_meaning t Drop_All_Tables rows t' \<longleftrightarrow>
     rows = [] \<and> t' = (empty_tables t)\<lparr>created := False, fk_on := True\<rparr>"
| "sql_meaning t (Insert_Order i b q p uid) rows t' \<longleftrightarrow>
     created t \<and> p \<noteq> NaN \<and> fk_ok t uid \<and> order_seq t < max_rowid \<and> rows = [] \<and>
     (\<exists>ts. t' = add_order ts i b q p uid t)"
| "sql_meaning t (Insert_User un pw nm omg doge btc eth) rows t' \<longleftrightarrow>
     created t \<and> un \<notin> username ` set (users t) \<and> user_seq t < max_rowid \<and> rows = [] \<and>
     t' = add_user un pw nm omg doge btc eth t"
| "sql_meaning t Dump_Users rows t' \<longleftrightarrow>
     created t \<and> t' = t \<and> mset rows = mset (map user_row (users t))"
| "sql_meaning t Dump_Orders rows t' \<longleftrightarrow>
     created t \<and> t' = t \<and> mset rows = mset (map order_row (orders t))"
| "sql_meaning t Dump_Archives rows t' \<longleftrightarrow>
     created t \<and> t' = t \<and> mset rows = mset (map order_row (archives t))"
| "sql_meaning t (Delete_Order k) rows t' \<longleftrightarrow> created t \<and> rows = [] \<and> t' = remove_order k t"
| "sql_meaning t (Select_User k) rows t' \<longleftrightarrow>
     created t \<and> t' = t \<and> mset rows = mset (map user_row (filter (\<lambda>u. userID u = k) (users t)))"
| "sql_meaning t (Select_Order k) rows t' \<longleftrightarrow>
     created t \<and> t' = t \<and> mset rows = mset (map order_row (filter (\<lambda>r. orderID r = k) (orders t)))"
| "sql_meaning t (Select_Matching_Buy i p uid) rows t' \<longleftrightarrow>
     created t \<and> t' = t \<and>
     (\<exists>out. ordered_limit older 1 (matching_buys t i p uid) out \<and> rows = map order_row out)"
| "sql_meaning t (Select_Matching_Sell i p uid) rows t' \<longleftrightarrow>
     created t \<and> t' = t \<and>
     (\<exists>out. ordered_limit older 1 (matching_sells t i p uid) out \<and> rows = map order_row out)"
| "sql_meaning t (Select_Top_Buys i) rows t' \<longleftrightarrow>
     created t \<and> t' = t \<and>
     (\<exists>out. ordered_limit dearer 5 (side_orders t i 0) out \<and> rows = map order_row out)"
| "sql_meaning t (Select_Top_Sells i) rows t' \<longleftrightarrow>
     created t \<and> t' = t \<and>
     (\<exists>out. ordered_limit cheaper 5 (side_orders t i 1) out \<and> rows = map order_row out)"
| "sql_meaning t (Update_Order i b q p uid k) rows t' \<longleftrightarrow>
     created t \<and> rows = [] \<and> t' = change_order i b q p uid k t \<and>
     (k \<in> orderID ` set (orders t) \<longrightarrow> p \<noteq> NaN \<and> fk_ok t uid)"
| "sql_meaning t (Update_Balance omg doge btc eth k) rows t' \<longleftrightarrow>
     created t \<and> rows = [] \<and> t' = change_balance omg doge btc eth k t"
| "sql_meaning t (Select_User_Orders uid) rows t' \<longleftrightarrow>
     created t \<and> t' = t \<and> mset rows = mset (map order_row (filter (\<lambda>r. ord_userID r = uid) (orders t)))"
| "sql_meaning t (Select_Inventory k) rows t' \<longleftrightarrow>
     created t \<and> t' = t \<and> mset rows = mset (map inventory_row (filter (\<lambda>u. userID u = k) (users t)))"
| "sql_meaning t (Select_User_By_Name un) rows t' \<longleftrightarrow>
     created t \<and> t' = t \<and> mset rows = mset (map user_row (filter (\<lambda>u. username u = un) (users t)))"
| "sql_meaning t (Insert_Archive i b q p uid ts) rows t' \<longleftrightarrow>
     created t \<and> p \<noteq> NaN \<and> fk_ok t uid \<and> archive_seq t < max_rowid \<and> rows = [] \<and>
     t' = add_archive i b q p uid ts t"
| "sql_meaning t (Select_Archives uid) rows t' \<longleftrightarrow>
     created t \<and> t' = t \<and> mset rows = mset (map order_row (filter (\<lambda>r. ord_userID r = uid) (archives t)))"
| "sql_meaning t Select_Timestamp rows t' \<longleftrightarrow> t' = t \<and> (\<exists>ts. rows = [[SText ts]])"

text \<open>A computation of it: rows in key order, equal sort keys oldest first, the time given.\<close>

definition select :: "tables \<Rightarrow> row list \<Rightarrow> (row list \<times> tables) option" where
  "select t rows = (if created t then Some (rows, t) else None)"

definition modify :: "tables \<Rightarrow> bool \<Rightarrow> tables \<Rightarrow> (row list \<times> tables) option" where
  "modify t allowed t' = (if created t \<and> allowed then Some ([], t') else None)"

fun sql_eval :: "string \<Rightarrow> tables \<Rightarrow> stmt \<Rightarrow> (row list \<times> tables) option" where
  "sql_eval now t Create_Tables =
     Some ([], if created t then t else (empty_tables t)\<lparr>created := True\<rparr>)"
| "sql_eval now t Drop_All_Tables = Some ([], (empty_tables t)\<lparr>created := False, fk_on := True\<rparr>)"
| "sql_eval now t (Insert_Order i b q p uid) =
     modify t (p \<noteq> NaN \<and> fk_ok t uid \<and> order_seq t < max_rowid) (add_order now i b q p uid t)"
| "sql_eval now t (Insert_User un pw nm omg doge btc eth) =
     modify t (un \<notin> username ` set (users t) \<and> user_seq t < max_rowid)
       (add_user un pw nm omg doge btc eth t)"
| "sql_eval now t Dump_Users = select t (map user_row (users t))"
| "sql_eval now t Dump_Orders = select t (map order_row (orders t))"
| "sql_eval now t Dump_Archives = select t (map order_row (archives t))"
| "sql_eval now t (Delete_Order k) = modify t True (remove_order k t)"
| "sql_eval now t (Select_User k) = select t (map user_row (filter (\<lambda>u. userID u = k) (users t)))"
| "sql_eval now t (Select_Order k) = select t (map order_row (filter (\<lambda>r. orderID r = k) (orders t)))"
| "sql_eval now t (Select_Matching_Buy i p uid) =
     select t (map order_row (take 1 (sort_key created_at (matching_buys t i p uid))))"
| "sql_eval now t (Select_Matching_Sell i p uid) =
     select t (map order_row (take 1 (sort_key created_at (matching_sells t i p uid))))"
| "sql_eval now t (Select_Top_Buys i) =
     select t (map order_row (take 5 (rev (sort_key unitPrice (rev (side_orders t i 0))))))"
| "sql_eval now t (Select_Top_Sells i) =
     select t (map order_row (take 5 (sort_key unitPrice (side_orders t i 1))))"
| "sql_eval now t (Update_Order i b q p uid k) =
     modify t (k \<in> orderID ` set (orders t) \<longrightarrow> p \<noteq> NaN \<and> fk_ok t uid) (change_order i b q p uid k t)"
| "sql_eval now t (Update_Balance omg doge btc eth k) = modify t True (change_balance omg doge btc eth k t)"
| "sql_eval now t (Select_User_Orders uid) =
     select t (map order_row (filter (\<lambda>r. ord_userID r = uid) (orders t)))"
| "sql_eval now t (Select_Inventory k) =
     select t (map inventory_row (filter (\<lambda>u. userID u = k) (users t)))"
| "sql_eval now t (Select_User_By_Name un) =
     select t (map user_row (filter (\<lambda>u. username u = un) (users t)))"
| "sql_eval now t (Insert_Archive i b q p uid ts) =
     modify t (p \<noteq> NaN \<and> fk_ok t uid \<and> archive_seq t < max_rowid) (add_archive i b q p uid ts t)"
| "sql_eval now t (Select_Archives uid) =
     select t (map order_row (filter (\<lambda>r. ord_userID r = uid) (archives t)))"
| "sql_eval now t Select_Timestamp = Some ([[SText now]], t)"

lemma ordered_limit_sort_key:
  assumes "\<And>a b. le a b \<longleftrightarrow> k a \<le> k b"
  shows "ordered_limit le n xs (take n (sort_key k xs))"
proof -
  have "sorted_wrt (\<lambda>a b. k a \<le> k b) (sort_key k xs)"
    using sorted_sort_key[of k xs] by (simp only: sorted_map)
  moreover have "le = (\<lambda>a b. k a \<le> k b)" using assms by (intro ext) simp
  ultimately show ?thesis unfolding ordered_limit_def using mset_sort by blast
qed

lemma ordered_limit_rev_sort_key:
  assumes "\<And>a b. le a b \<longleftrightarrow> k b \<le> k a"
  shows "ordered_limit le n xs (take n (rev (sort_key k (rev xs))))"
proof -
  have "sorted_wrt (\<lambda>a b. k a \<le> k b) (sort_key k (rev xs))"
    using sorted_sort_key[of k "rev xs"] by (simp only: sorted_map)
  moreover have "le = (\<lambda>a b. k b \<le> k a)" using assms by (intro ext) simp
  ultimately have "sorted_wrt le (rev (sort_key k (rev xs)))" by (simp add: sorted_wrt_rev)
  moreover have "mset (rev (sort_key k (rev xs))) = mset xs" by simp
  ultimately show ?thesis unfolding ordered_limit_def by blast
qed

text \<open>The computation gives a result exactly when the statement has one, and it is a right one.\<close>

lemma sql_eval_sound: "sql_eval now t q = Some (rows, t') \<Longrightarrow> sql_meaning t q rows t'"
  by (cases q)
    (auto simp: select_def modify_def older_def cheaper_def dearer_def split: if_splits
      intro!: exI[of _ now] ordered_limit_sort_key ordered_limit_rev_sort_key exI conjI refl)

lemma sql_eval_complete: "sql_meaning t q rows t' \<Longrightarrow> \<exists>r. sql_eval now t q = Some r"
  by (cases q) (auto simp: select_def modify_def)

section \<open>Tables with a key\<close>

text \<open>
  The keys of a table are distinct and lie between 1 and the largest one ever given out, so a new
  row never meets an old key, not even that of a deleted row.
\<close>

definition keyed :: "('r \<Rightarrow> int) \<Rightarrow> int \<Rightarrow> 'r list \<Rightarrow> bool" where
  "keyed key n xs \<longleftrightarrow> 0 \<le> n \<and> distinct (map key xs) \<and> (\<forall>x \<in> set xs. 0 < key x \<and> key x \<le> n)"

lemma keyed_Nil [simp]: "keyed key n [] \<longleftrightarrow> 0 \<le> n"
  by (simp add: keyed_def)

lemma keyed_snoc: "keyed key n xs \<Longrightarrow> key x = n + 1 \<Longrightarrow> keyed key (n + 1) (xs @ [x])"
  by (fastforce simp: keyed_def)

lemma keyed_filter: "keyed key n xs \<Longrightarrow> keyed key n (filter p xs)"
  by (auto simp: keyed_def distinct_map_filter)

lemma keyed_update: "keyed key n xs \<Longrightarrow> (\<And>x. key (f x) = key x) \<Longrightarrow>
    keyed key n (map (\<lambda>x. if p x then f x else x) xs)"
  by (auto simp: keyed_def)

text \<open>One table within a larger state, and what reading it gives after each change of it.\<close>

locale keyed_table =
  fixes rows :: "'t \<Rightarrow> 'r list" and put :: "'r list \<Rightarrow> 't \<Rightarrow> 't" and key :: "'r \<Rightarrow> int"
    and seq :: "'t \<Rightarrow> int"
  assumes rows_put: "rows (put xs t) = xs" and seq_put: "seq (put xs t) = seq t"
begin

lemma the_row:
  "keyed key (seq t) (rows t) \<Longrightarrow> r \<in> set (rows t) \<Longrightarrow> key r = k \<Longrightarrow>
   filter (\<lambda>x. key x = k) (rows t) = [r]"
  by (simp add: keyed_def filter_key_singleton)

lemma no_row: "k \<notin> key ` set (rows t) \<Longrightarrow> filter (\<lambda>x. key x = k) (rows t) = []"
  by (auto simp: filter_empty_conv)

lemma row_unique:
  "keyed key (seq t) (rows t) \<Longrightarrow> r \<in> set (rows t) \<Longrightarrow> r' \<in> set (rows t) \<Longrightarrow> key r = key r' \<Longrightarrow> r = r'"
  unfolding keyed_def by (blast intro: distinct_key_unique)

text \<open>A total over the table moves by what the changed row gains, the removed one had, the new one has.\<close>

lemma total_update:
  fixes w :: "'r \<Rightarrow> int"
  assumes "keyed key (seq t) (rows t)" and "r \<in> set (rows t)" and "key r = k"
  shows "sum_list (map w (rows (put (map (\<lambda>x. if key x = k then f x else x) (rows t)) t))) =
    sum_list (map w (rows t)) + w (f r) - w r"
  unfolding rows_put using assms by (intro sum_list_update_key) (simp_all add: keyed_def)

lemma total_delete:
  fixes w :: "'r \<Rightarrow> int"
  assumes "keyed key (seq t) (rows t)" and "r \<in> set (rows t)" and "key r = k"
  shows "sum_list (map w (rows (put (filter (\<lambda>x. key x \<noteq> k) (rows t)) t))) =
    sum_list (map w (rows t)) - w r"
  unfolding rows_put using assms by (intro sum_list_delete_key) (simp_all add: keyed_def)

lemma total_insert:
  fixes w :: "'r \<Rightarrow> int"
  shows "sum_list (map w (rows (put (rows t @ [r]) t))) = sum_list (map w (rows t)) + w r"
  by (simp add: rows_put)

end

interpretation users: keyed_table users "\<lambda>xs t. t\<lparr>users := xs\<rparr>" userID user_seq
  by unfold_locales simp_all

interpretation orders: keyed_table orders "\<lambda>xs t. t\<lparr>orders := xs\<rparr>" orderID order_seq
  by unfold_locales simp_all

interpretation archives: keyed_table archives "\<lambda>xs t. t\<lparr>archives := xs\<rparr>" orderID archive_seq
  by unfold_locales simp_all

section \<open>Well-formed databases\<close>

text \<open>What every statement keeps: keys, unique user names, foreign keys, 32-bit columns, real prices, time stamps.\<close>

definition user_ok :: "user_t \<Rightarrow> bool" where
  "user_ok u \<longleftrightarrow> in_int32 (OMG u) \<and> in_int32 (DOGE u) \<and> in_int32 (BTC u) \<and> in_int32 (ETH u)"

definition order_ok :: "order_t \<Rightarrow> bool" where
  "order_ok r \<longleftrightarrow> in_int32 (item r) \<and> in_int32 (buyOrSell r) \<and> in_int32 (quantity r) \<and> unitPrice r \<noteq> NaN"

definition wf_db :: "tables \<Rightarrow> bool" where
  "wf_db t \<longleftrightarrow> fk_on t \<and> keyed userID (user_seq t) (users t) \<and> distinct (map username (users t)) \<and>
     keyed orderID (order_seq t) (orders t) \<and> keyed orderID (archive_seq t) (archives t) \<and>
     (\<forall>u \<in> set (users t). user_ok u) \<and>
     (\<forall>r \<in> set (orders t). order_ok r \<and> ord_userID r \<in> user_ids t \<and> created_at r \<noteq> None) \<and>
     (\<forall>r \<in> set (archives t). order_ok r \<and> ord_userID r \<in> user_ids t \<and> created_at r \<noteq> None)"

text \<open>The parameters that a C \<open>int\<close> can hold.\<close>

fun stmt_ok :: "stmt \<Rightarrow> bool" where
  "stmt_ok (Insert_Order i b q p uid) \<longleftrightarrow> in_int32 i \<and> in_int32 b \<and> in_int32 q"
| "stmt_ok (Insert_User un pw nm omg doge btc eth) \<longleftrightarrow>
     in_int32 omg \<and> in_int32 doge \<and> in_int32 btc \<and> in_int32 eth"
| "stmt_ok (Update_Order i b q p uid k) \<longleftrightarrow> in_int32 i \<and> in_int32 b \<and> in_int32 q"
| "stmt_ok (Update_Balance omg doge btc eth k) \<longleftrightarrow>
     in_int32 omg \<and> in_int32 doge \<and> in_int32 btc \<and> in_int32 eth"
| "stmt_ok (Insert_Archive i b q p uid ts) \<longleftrightarrow> in_int32 i \<and> in_int32 b \<and> in_int32 q \<and> ts \<noteq> None"
| "stmt_ok _ \<longleftrightarrow> True"

lemmas effect_defs = add_order_def add_user_def add_archive_def remove_order_def
  change_order_def change_balance_def empty_tables_def

lemma wf_empty: "fk_on t \<Longrightarrow> wf_db ((empty_tables t)\<lparr>created := c\<rparr>)"
  by (simp add: wf_db_def empty_tables_def)

lemma wf_add_order:
  "wf_db t \<Longrightarrow> in_int32 i \<Longrightarrow> in_int32 b \<Longrightarrow> in_int32 q \<Longrightarrow> p \<noteq> NaN \<Longrightarrow> fk_ok t uid \<Longrightarrow>
   wf_db (add_order ts i b q p uid t)"
  by (simp add: wf_db_def add_order_def keyed_snoc order_ok_def fk_ok_def user_ids_def)

lemma wf_add_archive:
  "wf_db t \<Longrightarrow> in_int32 i \<Longrightarrow> in_int32 b \<Longrightarrow> in_int32 q \<Longrightarrow> p \<noteq> NaN \<Longrightarrow> fk_ok t uid \<Longrightarrow>
   ts \<noteq> None \<Longrightarrow> wf_db (add_archive i b q p uid ts t)"
  by (simp add: wf_db_def add_archive_def keyed_snoc order_ok_def fk_ok_def user_ids_def)

lemma wf_add_user:
  "wf_db t \<Longrightarrow> in_int32 omg \<Longrightarrow> in_int32 doge \<Longrightarrow> in_int32 btc \<Longrightarrow> in_int32 eth \<Longrightarrow>
   un \<notin> username ` set (users t) \<Longrightarrow> wf_db (add_user un pw nm omg doge btc eth t)"
  by (auto simp: wf_db_def add_user_def keyed_snoc user_ok_def user_ids_def)

lemma wf_remove_order: "wf_db t \<Longrightarrow> wf_db (remove_order k t)"
  by (auto simp: wf_db_def remove_order_def keyed_filter user_ids_def)

lemma user_ids_change_balance [simp]: "user_ids (change_balance omg doge btc eth k t) = user_ids t"
proof -
  have "map userID (users (change_balance omg doge btc eth k t)) = map userID (users t)"
    by (simp add: change_balance_def)
  from arg_cong[OF this, of set] show ?thesis by (simp only: user_ids_def set_map)
qed

lemma change_balance_frame [simp]:
  "created (change_balance omg doge btc eth k t) = created t"
  "fk_on (change_balance omg doge btc eth k t) = fk_on t"
  "orders (change_balance omg doge btc eth k t) = orders t"
  "archives (change_balance omg doge btc eth k t) = archives t"
  "user_seq (change_balance omg doge btc eth k t) = user_seq t"
  "order_seq (change_balance omg doge btc eth k t) = order_seq t"
  "archive_seq (change_balance omg doge btc eth k t) = archive_seq t"
  by (simp_all add: change_balance_def)

lemma users_change_balance: "users (change_balance omg doge btc eth k t) =
    map (\<lambda>u. if userID u = k then u\<lparr>OMG := omg, DOGE := doge, BTC := btc, ETH := eth\<rparr> else u) (users t)"
  by (simp add: change_balance_def)

lemma wf_change_balance:
  "wf_db t \<Longrightarrow> in_int32 omg \<Longrightarrow> in_int32 doge \<Longrightarrow> in_int32 btc \<Longrightarrow> in_int32 eth \<Longrightarrow>
   wf_db (change_balance omg doge btc eth k t)"
  by (auto simp: wf_db_def users_change_balance keyed_update user_ok_def)

lemma wf_change_order:
  "wf_db t \<Longrightarrow> in_int32 i \<Longrightarrow> in_int32 b \<Longrightarrow> in_int32 q \<Longrightarrow>
   (k \<in> orderID ` set (orders t) \<longrightarrow> p \<noteq> NaN \<and> fk_ok t uid) \<Longrightarrow> wf_db (change_order i b q p uid k t)"
  by (auto simp: wf_db_def change_order_def keyed_update user_ids_def order_ok_def fk_ok_def)

lemma sql_meaning_wf:
  assumes "sql_meaning t q rows t'" and "wf_db t" and "stmt_ok q"
  shows "wf_db t'"
  using assms
  by (cases q)
    (auto simp: wf_add_order wf_add_archive wf_add_user wf_remove_order wf_change_balance
      wf_change_order wf_empty, simp_all add: wf_db_def empty_tables_def)

end
