(* ===== verification/Engine.thy ===== *)
theory Engine
  imports Schema
begin

text \<open>
  SQLite as db.c uses it. The library is not part of the repository, so it is a parameter: a
  \<open>platform\<close> gives the result of \<open>sqlite3_prepare_v2\<close>, of each \<open>sqlite3_bind_*\<close>, and of stepping a
  prepared statement until it stops delivering rows. A connection is the tables it sees and a
  \<open>world\<close> of type \<open>'w\<close>, the engine's own state (locks, time, disk), of which nothing is assumed, so that
  any statement may fail at any moment. \<open>sqlite_engine\<close> states what the documentation promises of an
  engine that may fail; \<open>sqlite_healthy\<close> that it fails only where a constraint demands it.
\<close>

section \<open>Result codes\<close>

abbreviation (input) SQLITE_OK :: int where "SQLITE_OK \<equiv> 0"
abbreviation (input) SQLITE_ERROR :: int where "SQLITE_ERROR \<equiv> 1"
abbreviation (input) SQLITE_NOMEM :: int where "SQLITE_NOMEM \<equiv> 7"
abbreviation (input) SQLITE_NOTFOUND :: int where "SQLITE_NOTFOUND \<equiv> 12"
abbreviation (input) SQLITE_CONSTRAINT :: int where "SQLITE_CONSTRAINT \<equiv> 19"
abbreviation (input) SQLITE_ROW :: int where "SQLITE_ROW \<equiv> 100"
abbreviation (input) SQLITE_DONE :: int where "SQLITE_DONE \<equiv> 101"

section \<open>The platform\<close>

record 'w sqlite3 =
  db :: tables
  world :: 'w

text \<open>
  \<open>run_stmt\<close> gives the rows that successive calls of \<open>sqlite3_step\<close> deliver with \<open>SQLITE_ROW\<close> and the
  code that ends them; \<open>last_rowid\<close> is what \<open>sqlite3_last_insert_rowid\<close> returns. \<open>malloc_ok\<close> says whether an allocation of so many bytes succeeds, and
  \<open>heap_order\<close> what the fields of a freshly allocated order happen to hold.
\<close>

record 'w platform =
  open_code :: int
  close_code :: "'w sqlite3 \<Rightarrow> int"
  prepare_v2 :: "'w sqlite3 \<Rightarrow> stmt \<Rightarrow> int \<times> 'w sqlite3"
  bind_param :: "'w sqlite3 \<Rightarrow> stmt \<Rightarrow> nat \<Rightarrow> int"
  run_stmt :: "'w sqlite3 \<Rightarrow> stmt \<Rightarrow> (row list \<times> int) \<times> 'w sqlite3"
  last_rowid :: "'w sqlite3 \<Rightarrow> int"
  malloc_ok :: "'w sqlite3 \<Rightarrow> nat \<Rightarrow> bool"
  heap_order :: "'w sqlite3 \<Rightarrow> order_t"

type_synonym ('w, 'a) dbprog = "('w sqlite3, 'a) prog"

definition sql_prepare :: "'w platform \<Rightarrow> stmt \<Rightarrow> ('w, int) dbprog" where
  "sql_prepare E q c = (case prepare_v2 E c q of (rc, c') \<Rightarrow> (Inr rc, c'))"

text \<open>The calls \<open>sqlite3_bind_*\<close> of parameters \<open>i\<close> to \<open>i + n - 1\<close>, up to the first that fails.\<close>

fun sql_binds :: "'w platform \<Rightarrow> stmt \<Rightarrow> nat \<Rightarrow> nat \<Rightarrow> ('w, int) dbprog" where
  "sql_binds E q i 0 c = (Inr SQLITE_OK, c)"
| "sql_binds E q i (Suc n) c =
     (if bind_param E c q i \<noteq> SQLITE_OK then (Inr (bind_param E c q i), c) else sql_binds E q (Suc i) n c)"

definition fresh_order :: "'w platform \<Rightarrow> ('w, order_t) dbprog" where
  "fresh_order E c = (Inr (heap_order E c), c)"

text \<open>All the rows and the final code; the first call of \<open>sqlite3_step\<close> alone; \<open>sqlite3_exec\<close>.\<close>

definition sql_run :: "'w platform \<Rightarrow> stmt \<Rightarrow> ('w, row list \<times> int) dbprog" where
  "sql_run E q c = (case run_stmt E c q of (r, c') \<Rightarrow> (Inr r, c'))"

definition sql_step :: "'w platform \<Rightarrow> stmt \<Rightarrow> ('w, int + row) dbprog" where
  "sql_step E q = cbind (sql_run E q)
     (\<lambda>(rows, rc). ret (case rows of [] \<Rightarrow> Inl rc | r # _ \<Rightarrow> Inr r))"

definition sql_exec :: "'w platform \<Rightarrow> stmt \<Rightarrow> ('w, int) dbprog" where
  "sql_exec E q = cbind (sql_run E q) (\<lambda>(rows, rc). ret (if rc = SQLITE_DONE then SQLITE_OK else rc))"

definition sql_last_rowid :: "'w platform \<Rightarrow> ('w, int) dbprog" where
  "sql_last_rowid E c = (Inr (last_rowid E c), c)"

definition alloc :: "'w platform \<Rightarrow> nat \<Rightarrow> ('w, bool) dbprog" where
  "alloc E n c = (Inr (malloc_ok E c n), c)"

section \<open>The contract\<close>

text \<open>
  An engine that may fail: preparing changes nothing; the parameters of a statement just prepared
  can be bound; the key reported after an insertion is that of the new row; a statement that ends with \<open>SQLITE_DONE\<close> did what its text means; one that ends
  otherwise did nothing to the tables (it is rolled back) and reports a positive code; and the rows
  delivered, however the statement ends, are the first rows of its meaning. The two texts of
  \<open>init_db\<close> hold several statements each; when one of them fails, nothing is said of the tables.
\<close>

fun data_stmt :: "stmt \<Rightarrow> bool" where
  "data_stmt Create_Tables = False"
| "data_stmt Drop_All_Tables = False"
| "data_stmt _ = True"

locale sqlite_engine =
  fixes E :: "'w platform"
  assumes prepare_db: "prepare_v2 E c q = (rc, c') \<Longrightarrow> db c' = db c"
    and prepare_code: "prepare_v2 E c q = (rc, c') \<Longrightarrow> 0 \<le> rc"
    and bind_code: "bind_param E c q i = SQLITE_OK"
    and done_meaning: "run_stmt E c q = ((rows, SQLITE_DONE), c') \<Longrightarrow> sql_meaning (db c) q rows (db c')"
    and failed_db: "run_stmt E c q = ((rows, rc), c') \<Longrightarrow> rc \<noteq> SQLITE_DONE \<Longrightarrow> data_stmt q \<Longrightarrow> db c' = db c"
    and final_code: "run_stmt E c q = ((rows, rc), c') \<Longrightarrow> 0 < rc \<and> rc \<noteq> SQLITE_ROW"
    and delivered: "run_stmt E c q = ((rows, rc), c') \<Longrightarrow> rows \<noteq> [] \<Longrightarrow>
      \<exists>all t'. sql_meaning (db c) q all t' \<and> prefix rows all"
    and rowid: "run_stmt E c (Insert_User un pw nm omg doge btc eth) = ((rows, SQLITE_DONE), c') \<Longrightarrow>
      last_rowid E c' = user_seq (db c')"

text \<open>
  The database is a file, and every client has a process of its own. \<open>traffic\<close> is what any number of
  sessions can do to the tables: data statements whose parameters are \<open>int\<close>s, one after the other, as
  SQLite runs each in a transaction. An engine that is shared lets traffic in at every call; the rows
  of a query are those of one state of the tables in between.
\<close>

inductive traffic :: "tables \<Rightarrow> tables \<Rightarrow> bool" where
  quiet: "traffic t t"
| statement: "traffic t t1 \<Longrightarrow> data_stmt q \<Longrightarrow> stmt_ok q \<Longrightarrow> sql_meaning t1 q rows t2 \<Longrightarrow> traffic t t2"

locale sqlite_shared =
  fixes E :: "'w platform"
  assumes shared_prepare: "prepare_v2 E c q = (rc, c') \<Longrightarrow> traffic (db c) (db c')"
    and shared_run: "run_stmt E c q = ((rows, rc), c') \<Longrightarrow> data_stmt q \<Longrightarrow>
      \<exists>t1 t2. traffic (db c) t1 \<and> (t2 = t1 \<or> (\<exists>all. sql_meaning t1 q all t2)) \<and> traffic t2 (db c') \<and>
        (rows \<noteq> [] \<longrightarrow> (\<exists>all t'. sql_meaning t1 q all t' \<and> prefix rows all))"

locale sqlite_healthy = sqlite_engine E for E :: "'w platform" +
  assumes prepared: "created (db c) \<or> q \<in> {Create_Tables, Drop_All_Tables, Select_Timestamp} \<Longrightarrow>
      fst (prepare_v2 E c q) = SQLITE_OK"
    and completes: "sql_meaning (db c) q all t' \<Longrightarrow> run_stmt E c q = ((rows, rc), c') \<Longrightarrow> rc = SQLITE_DONE"
    and allocates: "malloc_ok E c n"

section \<open>A reference engine\<close>

text \<open>
  The engine that computes every statement by \<open>sql_eval\<close> at a fixed time, which is its world: it
  shows that the contract can be met, and it runs the examples.
\<close>

definition ref_prepare :: "string sqlite3 \<Rightarrow> stmt \<Rightarrow> int \<times> string sqlite3" where
  "ref_prepare c q =
     (if created (db c) \<or> q = Create_Tables \<or> q = Drop_All_Tables \<or> q = Select_Timestamp
      then SQLITE_OK else SQLITE_ERROR, c)"

definition ref_run :: "string sqlite3 \<Rightarrow> stmt \<Rightarrow> (row list \<times> int) \<times> string sqlite3" where
  "ref_run c q = (case sql_eval (world c) (db c) q of
       None \<Rightarrow> (([], SQLITE_CONSTRAINT), c)
     | Some (rows, t') \<Rightarrow> ((rows, SQLITE_DONE), c\<lparr>db := t'\<rparr>))"

definition ref_platform :: "string platform" where
  "ref_platform = \<lparr>open_code = SQLITE_OK, close_code = (\<lambda>c. SQLITE_OK), prepare_v2 = ref_prepare,
     bind_param = (\<lambda>c q i. SQLITE_OK), run_stmt = ref_run, last_rowid = (\<lambda>c. user_seq (db c)), malloc_ok = (\<lambda>c n. True),
     heap_order = (\<lambda>c. \<lparr>orderID = 0, item = 0, buyOrSell = 0, quantity = 0, ord_userID = 0,
       unitPrice = Fin 0, created_at = None\<rparr>)\<rparr>"

interpretation ref: sqlite_healthy ref_platform
proof unfold_locales
  fix c :: "string sqlite3" and q rows rc c' all t'
  show "prepare_v2 ref_platform c q = (rc, c') \<Longrightarrow> db c' = db c"
    "prepare_v2 ref_platform c q = (rc, c') \<Longrightarrow> 0 \<le> rc"
    by (auto simp: ref_platform_def ref_prepare_def split: if_splits)
  show "run_stmt ref_platform c q = ((rows, SQLITE_DONE), c') \<Longrightarrow> sql_meaning (db c) q rows (db c')"
    "run_stmt ref_platform c q = ((rows, rc), c') \<Longrightarrow> rc \<noteq> SQLITE_DONE \<Longrightarrow> data_stmt q \<Longrightarrow> db c' = db c"
    "run_stmt ref_platform c q = ((rows, rc), c') \<Longrightarrow> 0 < rc \<and> rc \<noteq> SQLITE_ROW"
    by (auto simp: ref_platform_def ref_run_def sql_eval_sound split: option.splits)
  show "run_stmt ref_platform c q = ((rows, rc), c') \<Longrightarrow> rows \<noteq> [] \<Longrightarrow>
      \<exists>all t'. sql_meaning (db c) q all t' \<and> prefix rows all"
    by (auto simp: ref_platform_def ref_run_def dest!: sql_eval_sound split: option.splits)
  show "sql_meaning (db c) q all t' \<Longrightarrow> run_stmt ref_platform c q = ((rows, rc), c') \<Longrightarrow> rc = SQLITE_DONE"
    by (auto simp: ref_platform_def ref_run_def split: option.splits dest: sql_eval_complete[of _ _ _ _ "world c"])
qed (auto simp: ref_platform_def ref_prepare_def)

section \<open>Consequences of the contract\<close>

context sqlite_engine
begin

lemma prepare_run:
  "sql_prepare E q c = (r, c') \<Longrightarrow> \<exists>rc. r = Inr rc \<and> 0 \<le> rc \<and> db c' = db c"
  by (auto simp: sql_prepare_def prepare_db dest: prepare_code split: prod.splits)

lemma binds_run [simp]: "sql_binds E q i n c = (Inr SQLITE_OK, c)"
  by (induction n arbitrary: i) (simp_all add: bind_code)

lemma binds_ret [simp]: "sql_binds E q i n = ret SQLITE_OK"
  by (rule ext) (simp add: ret_def)

text \<open>Every run either completed, or left the tables alone.\<close>

lemma run_cases:
  assumes "sql_run E q c = (r, c')" and "data_stmt q"
  obtains rows where "r = Inr (rows, SQLITE_DONE)" and "sql_meaning (db c) q rows (db c')"
  | rows rc where "r = Inr (rows, rc)" and "rc \<noteq> SQLITE_DONE" and "0 < rc" and "db c' = db c"
      and "rows \<noteq> [] \<Longrightarrow> \<exists>all t'. sql_meaning (db c) q all t' \<and> prefix rows all"
  using assms done_meaning failed_db final_code delivered
  by (auto simp: sql_run_def split: prod.splits) (metis surj_pair)

lemma step_cases:
  assumes "sql_step E q c = (r, c')" and q: "data_stmt q"
  obtains "r = Inr (Inl SQLITE_DONE)" and "sql_meaning (db c) q [] (db c')"
  | rc where "r = Inr (Inl rc)" and "rc \<noteq> SQLITE_DONE" and "0 < rc" and "db c' = db c"
  | row rest t' where "r = Inr (Inr row)" and "sql_meaning (db c) q (row # rest) t'"
      and "db c' = db c \<or> db c' = t'"
proof -
  obtain rows rc c1 where run: "run_stmt E c q = ((rows, rc), c1)" by (metis surj_pair)
  then have r: "r = Inr (case rows of [] \<Rightarrow> Inl rc | row # _ \<Rightarrow> Inr row)" and c': "c' = c1"
    using assms(1) by (auto simp: sql_step_def sql_run_def cbind_def)
  show thesis
  proof (cases rows)
    case Nil
    show ?thesis
    proof (cases "rc = SQLITE_DONE")
      case True
      with that(1) Nil r c' done_meaning run show ?thesis by auto
    next
      case False
      with that(2)[of rc] Nil r c' failed_db[OF run _ q] final_code[OF run] show ?thesis by auto
    qed
  next
    case (Cons row rest)
    show ?thesis
    proof (cases "rc = SQLITE_DONE")
      case True
      with that(3)[of row rest "db c1"] Cons r c' done_meaning run show ?thesis by auto
    next
      case False
      obtain all t' where all: "sql_meaning (db c) q all t'" "prefix rows all"
        using delivered[OF run] Cons by auto
      then obtain rest' where "all = row # rest'" using Cons by (auto simp: prefix_def)
      with that(3)[of row rest' t'] all Cons r c' failed_db[OF run False q] show ?thesis by auto
    qed
  qed
qed

end

text \<open>An engine that one session has for itself is a shared one without traffic.\<close>

sublocale sqlite_engine \<subseteq> sqlite_shared E
proof unfold_locales
  fix c :: "'w sqlite3" and q rc c' and rows :: "row list"
  show "prepare_v2 E c q = (rc, c') \<Longrightarrow> traffic (db c) (db c')"
    by (simp add: prepare_db quiet)
  assume run: "run_stmt E c q = ((rows, rc), c')" and q: "data_stmt q"
  have "db c' = db c \<or> (\<exists>all. sql_meaning (db c) q all (db c'))"
    using done_meaning[of c q rows c'] failed_db run q by (cases "rc = SQLITE_DONE") auto
  moreover have "rows \<noteq> [] \<longrightarrow> (\<exists>all t'. sql_meaning (db c) q all t' \<and> prefix rows all)"
    using delivered[OF run] by blast
  ultimately show "\<exists>t1 t2. traffic (db c) t1 \<and> (t2 = t1 \<or> (\<exists>all. sql_meaning t1 q all t2)) \<and> traffic t2 (db c') \<and>
      (rows \<noteq> [] \<longrightarrow> (\<exists>all t'. sql_meaning t1 q all t' \<and> prefix rows all))"
    using quiet by metis
qed

context sqlite_engine
begin

lemma shared: "sqlite_shared E"
  by (rule sqlite_shared_axioms)

text \<open>Invariants of the tables: what each statement keeps, the code that runs it keeps.\<close>

abbreviation wf_conn :: "'w sqlite3 \<Rightarrow> bool" where "wf_conn c \<equiv> wf_db (db c)"

lemma keeps_prepare [keeps_intros]: "keeps (\<lambda>c. P (db c)) (sql_prepare E q)"
  by (rule keepsI) (auto dest!: prepare_run)

lemma keeps_run:
  assumes "data_stmt q" and "\<And>t rows t'. P t \<Longrightarrow> sql_meaning t q rows t' \<Longrightarrow> P t'"
  shows "keeps (\<lambda>c. P (db c)) (sql_run E q)"
proof (rule keepsI)
  fix c r c' assume "P (db c)" and "sql_run E q c = (r, c')"
  then show "P (db c')" using assms by (auto elim!: run_cases)
qed

lemma keeps_step:
  assumes "data_stmt q" and "\<And>t rows t'. P t \<Longrightarrow> sql_meaning t q rows t' \<Longrightarrow> P t'"
  shows "keeps (\<lambda>c. P (db c)) (sql_step E q)"
  unfolding sql_step_def
  by (rule keeps_cbind[OF keeps_run[OF assms]]) (auto split: prod.splits)

lemma keeps_alloc [keeps_intros]: "keeps P (alloc E n)"
  by (simp add: keeps_def alloc_def)

end

end
