(* ===== verification/CText.thy ===== *)
theory CText
  imports CNumber
begin

text \<open>
  Text in and out of the C library as the marketplace uses it: \<open>strtol\<close> in base 10 and \<open>strtod\<close>
  (command.c, \<open>create_order_from_string\<close>; server.c, \<open>handle_cancel_order\<close>), each returning what it
  read and the rest of the string that \<open>endptr\<close> points to, and the conversions \<open>%d\<close>, \<open>%.2f\<close>,
  \<open>%f\<close> and \<open>%-30s\<close> of the \<open>printf\<close> family (server.c, db.c). Round trips close the theory: what
  \<open>%d\<close> prints, \<open>strtol\<close> reads back.
\<close>

section \<open>Digits\<close>

definition digit_val :: "char \<Rightarrow> int" where
  "digit_val c = of_char c - 48"

definition digit_char :: "int \<Rightarrow> char" where
  "digit_char d = char_of (d + 48)"

definition digits_val :: "string \<Rightarrow> int" where
  "digits_val s = foldl (\<lambda>acc c. 10 * acc + digit_val c) 0 s"

text \<open>The decimal digits of a number that is not negative.\<close>

function show_nat :: "int \<Rightarrow> string" where
  "show_nat n = (if n < 10 then [digit_char n] else show_nat (n div 10) @ [digit_char (n mod 10)])"
  by pat_completeness auto
termination
  by (relation "measure nat") auto

declare show_nat.simps [simp del]

text \<open>The conversion \<open>%d\<close>.\<close>

definition show_int :: "int \<Rightarrow> string" where
  "show_int i = (if i < 0 then CHR ''-'' # show_nat (- i) else show_nat i)"

text \<open>The conversion \<open>%.<p>f\<close>: the exact value, rounded to \<open>p\<close> decimals, ties to even.\<close>

definition pad_zeros :: "nat \<Rightarrow> string \<Rightarrow> string" where
  "pad_zeros w s = replicate (w - length s) (CHR ''0'') @ s"

fun fmt_fixed :: "nat \<Rightarrow> double \<Rightarrow> string" where
  "fmt_fixed p (Fin q) =
     (let n = round_even (\<bar>q\<bar> * 10 ^ p)
      in (if q < 0 then ''-'' else []) @ show_nat (n div 10 ^ p) @
         (if p = 0 then [] else CHR ''.'' # pad_zeros p (show_nat (n mod 10 ^ p))))"
| "fmt_fixed p PInf = ''inf''"
| "fmt_fixed p NInf = ''-inf''"
| "fmt_fixed p NaN = ''nan''"

text \<open>The conversion \<open>%-30s\<close>: padded with spaces on the right, never cut.\<close>

definition pad_right :: "nat \<Rightarrow> string \<Rightarrow> string" where
  "pad_right w s = s @ replicate (w - length s) (CHR '' '')"

section \<open>Reading numbers\<close>

fun read_sign :: "string \<Rightarrow> bool \<times> string" where
  "read_sign (c # s) = (if c = CHR ''-'' then (True, s) else if c = CHR ''+'' then (False, s) else (False, c # s))"
| "read_sign [] = (False, [])"

text \<open>\<open>strtol(s, &endptr, 10)\<close> for a 64-bit \<open>long\<close>: clamped when out of range; no digits reads 0.\<close>

definition clamp64 :: "int \<Rightarrow> int" where
  "clamp64 x = max (- (2 ^ 63)) (min (2 ^ 63 - 1) x)"

definition strtol :: "string \<Rightarrow> int \<times> string" where
  "strtol s =
     (let (neg, t) = read_sign (dropWhile isspace s); ds = takeWhile isdigit t
      in if ds = [] then (0, s)
         else (clamp64 (if neg then - digits_val ds else digits_val ds),
               dropWhile isdigit t))"

text \<open>The optional exponent of a number: none is read unless at least one digit follows.\<close>

definition read_exponent :: "char \<Rightarrow> string \<Rightarrow> int \<times> string" where
  "read_exponent mark s =
     (case s of [] \<Rightarrow> (0, s)
      | c # t \<Rightarrow>
          if tolower c \<noteq> mark then (0, s)
          else let (neg, u) = read_sign t; ds = takeWhile isdigit u
               in if ds = [] then (0, s)
                  else ((if neg then - digits_val ds else digits_val ds),
                        dropWhile isdigit u))"

text \<open>Digits with an optional point: the digits, how many of them stand behind the point, the rest.\<close>

definition read_mantissa :: "(char \<Rightarrow> bool) \<Rightarrow> string \<Rightarrow> string \<times> nat \<times> string" where
  "read_mantissa isd s =
     (let ip = takeWhile isd s; r = dropWhile isd s
      in case r of [] \<Rightarrow> (ip, 0, r)
         | c # t \<Rightarrow>
             if c \<noteq> CHR ''.'' then (ip, 0, r)
             else let fp = takeWhile isd t
                  in if ip @ fp = [] then ([], 0, s) else (ip @ fp, length fp, dropWhile isd t))"

definition isxdigit :: "char \<Rightarrow> bool" where
  "isxdigit c \<longleftrightarrow> c \<in> set ''0123456789abcdefABCDEF''"

definition xdigit_val :: "char \<Rightarrow> int" where
  "xdigit_val c = (if isdigit c then digit_val c else of_char (tolower c) - 87)"

definition xdigits_val :: "string \<Rightarrow> int" where
  "xdigits_val s = foldl (\<lambda>acc c. 16 * acc + xdigit_val c) 0 s"

definition has_prefix :: "string \<Rightarrow> string \<Rightarrow> bool" where
  "has_prefix p s \<longleftrightarrow> map tolower (take (length p) s) = p"

text \<open>The optional \<open>(chars)\<close> behind \<open>nan\<close>.\<close>

definition skip_nan_chars :: "string \<Rightarrow> string" where
  "skip_nan_chars s =
     (case s of [] \<Rightarrow> s
      | c # t \<Rightarrow>
          if c \<noteq> CHR ''('' then s
          else case dropWhile (\<lambda>c. isdigit c \<or> tolower c \<in> set ''abcdefghijklmnopqrstuvwxyz_'') t of
                 [] \<Rightarrow> s
               | d # u \<Rightarrow> if d = CHR '')'' then u else s)"

definition read_hex :: "string \<Rightarrow> (rat \<times> string) option" where
  "read_hex s =
     (if has_prefix ''0x'' s
      then (case read_mantissa isxdigit (drop 2 s) of (ds, k, r) \<Rightarrow>
              if ds = [] then None
              else case read_exponent (CHR ''p'') r of (e, r') \<Rightarrow>
                     Some (of_int (xdigits_val ds) * 2 powi (e - 4 * int k), r'))
      else None)"

definition read_dec :: "string \<Rightarrow> (rat \<times> string) option" where
  "read_dec s =
     (case read_mantissa isdigit s of (ds, k, r) \<Rightarrow>
        if ds = [] then None
        else case read_exponent (CHR ''e'') r of (e, r') \<Rightarrow>
               Some (of_int (digits_val ds) * 10 powi (e - int k), r'))"

text \<open>\<open>strtod(s, &endptr)\<close>: an infinity, a NaN, a hexadecimal or a decimal number, correctly rounded.\<close>

definition strtod :: "string \<Rightarrow> double \<times> string" where
  "strtod s =
     (let (neg, t) = read_sign (dropWhile isspace s)
      in if has_prefix ''infinity'' t then (dinf neg, drop 8 t)
         else if has_prefix ''inf'' t then (dinf neg, drop 3 t)
         else if has_prefix ''nan'' t then (NaN, skip_nan_chars (drop 3 t))
         else case read_hex t of
                Some (q, r) \<Rightarrow> (fl (if neg then - q else q), r)
              | None \<Rightarrow>
                  (case read_dec t of
                     Some (q, r) \<Rightarrow> (fl (if neg then - q else q), r)
                   | None \<Rightarrow> (Fin 0, s)))"

section \<open>Formats\<close>

text \<open>
  \<open>vasprintf\<close> for the conversions that the program gives to it, and \<open>fprintf_to_string\<close> of util.c, which
  passes its arguments on: \<open>None\<close> when format and arguments do not fit, which is undefined.
\<close>

datatype printf_arg = Arg_Int int | Arg_Double double | Arg_Text string

fun vasprintf :: "string \<Rightarrow> printf_arg list \<Rightarrow> string option" where
  "vasprintf [] args = Some []"
| "vasprintf (c # s) args =
     (if c \<noteq> CHR ''%'' then map_option ((#) c) (vasprintf s args)
      else if take 1 s = ''d'' then
        (case args of Arg_Int n # args \<Rightarrow> map_option ((@) (show_int n)) (vasprintf (drop 1 s) args) | _ \<Rightarrow> None)
      else if take 3 s = ''.2f'' then
        (case args of Arg_Double x # args \<Rightarrow> map_option ((@) (fmt_fixed 2 x)) (vasprintf (drop 3 s) args) | _ \<Rightarrow> None)
      else if take 1 s = ''s'' then
        (case args of Arg_Text t # args \<Rightarrow> map_option ((@) t) (vasprintf (drop 1 s) args) | _ \<Rightarrow> None)
      else None)"

definition fprintf_to_string :: "string \<Rightarrow> printf_arg list \<Rightarrow> string option" where
  "fprintf_to_string fmt args = vasprintf fmt args"

section \<open>What is printed reads back\<close>

lemma digit_val_char: "0 \<le> d \<Longrightarrow> d < 10 \<Longrightarrow> digit_val (digit_char d) = d"
  by (simp add: digit_val_def digit_char_def)

lemma isdigit_char: "0 \<le> d \<Longrightarrow> d < 10 \<Longrightarrow> isdigit (digit_char d)"
proof -
  assume "0 \<le> d" "d < 10"
  then have "d \<in> {0, 1, 2, 3, 4, 5, 6, 7, 8, 9}" unfolding insert_iff empty_iff by presburger
  then show ?thesis unfolding isdigit_def digit_char_def by (elim insertE emptyE) (simp_all add: char_of_def)
qed

lemma digits_val_append: "digits_val (s @ [c]) = 10 * digits_val s + digit_val c"
  by (simp add: digits_val_def)

lemma show_nat_digits: "0 \<le> n \<Longrightarrow> show_nat n \<noteq> [] \<and> (\<forall>c \<in> set (show_nat n). isdigit c) \<and> digits_val (show_nat n) = n"
proof (induction n rule: show_nat.induct)
  case (1 n)
  show ?case
  proof (cases "n < 10")
    case True
    with 1(2) show ?thesis by (subst (1 2 3) show_nat.simps) (simp add: isdigit_char digits_val_def digit_val_char)
  next
    case False
    with 1 show ?thesis
      by (subst (1 2 3) show_nat.simps) (auto simp: isdigit_char digits_val_append digit_val_char)
  qed
qed

lemma strtol_digits:
  assumes "\<forall>c \<in> set ds. isdigit c" and "ds \<noteq> []"
  shows "strtol ds = (clamp64 (digits_val ds), [])" and "strtol (CHR ''-'' # ds) = (clamp64 (- digits_val ds), [])"
proof -
  obtain d ds' where ds: "ds = d # ds'" "isdigit d" using assms by (cases ds) auto
  then have d: "\<not> isspace d" "d \<noteq> CHR ''-''" "d \<noteq> CHR ''+''" by (auto simp: isdigit_def isspace_def)
  have all: "takeWhile isdigit ds = ds" "dropWhile isdigit ds = []" using assms by simp_all
  have s: "dropWhile isspace ds = ds" "read_sign ds = (False, ds)" using ds(1) d by simp_all
  show "strtol ds = (clamp64 (digits_val ds), [])"
    by (simp add: strtol_def s all assms(2) del: dropWhile_eq_Nil_conv)
  have "\<not> isspace (CHR ''-'')" by (simp add: isspace_def)
  then show "strtol (CHR ''-'' # ds) = (clamp64 (- digits_val ds), [])"
    by (simp add: strtol_def all assms(2) del: dropWhile_eq_Nil_conv)
qed

lemma strtol_show_int:
  assumes "- (2 ^ 63) \<le> i" and "i < 2 ^ 63"
  shows "strtol (show_int i) = (i, [])"
proof -
  have n: "show_nat n \<noteq> []" "\<forall>c \<in> set (show_nat n). isdigit c" "digits_val (show_nat n) = n" if "0 \<le> n" for n
    using show_nat_digits[OF that] by auto
  have "clamp64 i = i" using assms by (simp add: clamp64_def)
  with n[of i] n[of "- i"] show ?thesis by (simp add: show_int_def strtol_digits)
qed

end
