(* ===== verification/Db.thy ===== *)
theory Db
  imports Engine CText
begin

text \<open>
  db.c, one definition per function. A function with an out parameter returns \<open>Inl rc\<close> with the
  result code when it fails and \<open>Inr\<close> of what it stores when it returns \<open>SQLITE_OK\<close>. Results of
  \<open>sqlite3_bind_*\<close> are checked where the code checks them. \<open>strdup\<close> is taken to succeed, and
  messages on stderr are left out. Below the definitions: every function keeps the database
  well-formed, whatever fails, and what each function does when the engine keeps its contract.
\<close>

section \<open>Reading columns\<close>

text \<open>
  \<open>sqlite3_column_int\<close> gives the low 32 bits, 0 for NULL; \<open>sqlite3_column_text\<close> of NULL is a null
  pointer, which the code copies with \<open>strdup\<close>. \<open>None\<close> is that, or a type the schema never holds.
\<close>

definition column_int :: "row \<Rightarrow> nat \<Rightarrow> int option" where
  "column_int r i =
     (if i < length r then (case r ! i of SInt v \<Rightarrow> Some (wrap32 v) | SNull \<Rightarrow> Some 0 | _ \<Rightarrow> None) else None)"

definition column_double :: "row \<Rightarrow> nat \<Rightarrow> double option" where
  "column_double r i = (if i < length r then (case r ! i of SReal v \<Rightarrow> Some v | _ \<Rightarrow> None) else None)"

definition column_text :: "row \<Rightarrow> nat \<Rightarrow> string option" where
  "column_text r i = (if i < length r then (case r ! i of SText v \<Rightarrow> Some v | _ \<Rightarrow> None) else None)"

text \<open>The column reads of \<open>get_user\<close> and \<open>get_user_by_username\<close>, and of every SELECT of orders.\<close>

definition read_user :: "row \<Rightarrow> user_t option" where
  "read_user r = do {
     uid \<leftarrow> column_int r 0; un \<leftarrow> column_text r 1; pw \<leftarrow> column_text r 2; nm \<leftarrow> column_text r 3;
     omg \<leftarrow> column_int r 4; doge \<leftarrow> column_int r 5; btc \<leftarrow> column_int r 6; eth \<leftarrow> column_int r 7;
     Some \<lparr>userID = uid, username = un, password = pw, name = nm,
       OMG = omg, DOGE = doge, BTC = btc, ETH = eth\<rparr> }"

definition read_order :: "row \<Rightarrow> order_t option" where
  "read_order r = do {
     k \<leftarrow> column_int r 0; i \<leftarrow> column_int r 1; b \<leftarrow> column_int r 2; q \<leftarrow> column_int r 3;
     p \<leftarrow> column_double r 4; uid \<leftarrow> column_int r 5; ts \<leftarrow> column_text r 6;
     Some \<lparr>orderID = k, item = i, buyOrSell = b, quantity = q, ord_userID = uid,
       unitPrice = p, created_at = Some ts\<rparr> }"

section \<open>The database itself\<close>

text \<open>\<open>None\<close> is the null pointer.\<close>

definition open_database :: "'w platform \<Rightarrow> 'w sqlite3 \<Rightarrow> 'w sqlite3 option" where
  "open_database E file = (if open_code E \<noteq> SQLITE_OK then None else Some file)"

definition close_database :: "'w platform \<Rightarrow> ('w, int) dbprog" where
  "close_database E c = (Inr (if close_code E c \<noteq> SQLITE_OK then - 1 else SQLITE_OK), c)"

definition create_tables :: "'w platform \<Rightarrow> ('w, int) dbprog" where
  "create_tables E = cbind (sql_exec E Create_Tables)
     (\<lambda>res. if res \<noteq> SQLITE_OK then ret res else ret SQLITE_OK)"

definition drop_all_tables :: "'w platform \<Rightarrow> ('w, int) dbprog" where
  "drop_all_tables E = cbind (sql_exec E Drop_All_Tables)
     (\<lambda>res. if res \<noteq> SQLITE_OK then ret SQLITE_ERROR else ret SQLITE_OK)"

section \<open>Users\<close>

definition get_user :: "'w platform \<Rightarrow> int \<Rightarrow> ('w, int + user_t) dbprog" where
  "get_user E uid =
     (let q = Select_User uid in
      cbind (sql_prepare E q) (\<lambda>res.
      if res \<noteq> SQLITE_OK then ret (Inl res) else
      cbind (sql_binds E q 1 1) (\<lambda>res.
      if res \<noteq> SQLITE_OK then ret (Inl res) else
      cbind (sql_step E q) (\<lambda>st.
      case st of
        Inl _ \<Rightarrow> ret (Inl SQLITE_NOTFOUND)
      | Inr r \<Rightarrow> cbind (of_option Bad_Column (read_user r)) (\<lambda>u. ret (Inr u))))))"

definition get_user_by_username :: "'w platform \<Rightarrow> string \<Rightarrow> ('w, int + user_t) dbprog" where
  "get_user_by_username E un =
     (let q = Select_User_By_Name un in
      cbind (sql_prepare E q) (\<lambda>res.
      if res \<noteq> SQLITE_OK then ret (Inl res) else
      cbind (sql_binds E q 1 1) (\<lambda>res.
      if res \<noteq> SQLITE_OK then ret (Inl res) else
      cbind (sql_step E q) (\<lambda>st.
      case st of
        Inl _ \<Rightarrow> ret (Inl SQLITE_NOTFOUND)
      | Inr r \<Rightarrow> cbind (of_option Bad_Column (read_user r)) (\<lambda>u. ret (Inr u))))))"

text \<open>The new key that \<open>sqlite3_last_insert_rowid\<close> reports is stored in an \<open>int\<close>.\<close>

definition insert_user :: "'w platform \<Rightarrow> user_t \<Rightarrow> ('w, int + int) dbprog" where
  "insert_user E u =
     (let q = Insert_User (username u) (password u) (name u) (OMG u) (DOGE u) (BTC u) (ETH u) in
      cbind (sql_prepare E q) (\<lambda>res.
      if res \<noteq> SQLITE_OK then ret (Inl res) else
      cbind (sql_binds E q 1 7) (\<lambda>res.
      if res \<noteq> SQLITE_OK then ret (Inl res) else
      cbind (sql_run E q) (\<lambda>(rows, res).
      if res \<noteq> SQLITE_DONE then ret (Inl res) else
      cbind (sql_last_rowid E) (\<lambda>k. ret (Inr (wrap32 k)))))))"

definition update_user_balance :: "'w platform \<Rightarrow> user_t \<Rightarrow> ('w, int) dbprog" where
  "update_user_balance E u =
     (let q = Update_Balance (OMG u) (DOGE u) (BTC u) (ETH u) (userID u) in
      cbind (sql_prepare E q) (\<lambda>res.
      if res \<noteq> SQLITE_OK then ret res else
      cbind (sql_binds E q 1 5) (\<lambda>res.
      if res \<noteq> SQLITE_OK then ret res else
      cbind (sql_run E q) (\<lambda>(rows, res).
      if res \<noteq> SQLITE_DONE then ret res else ret SQLITE_OK))))"

text \<open>The four balances, for the user whose identifier the caller has set.\<close>

definition get_user_inventories :: "'w platform \<Rightarrow> user_t \<Rightarrow> ('w, int + user_t) dbprog" where
  "get_user_inventories E u =
     (let q = Select_Inventory (userID u) in
      cbind (sql_prepare E q) (\<lambda>res.
      if res \<noteq> SQLITE_OK then ret (Inl res) else
      cbind (sql_step E q) (\<lambda>st.
      case st of
        Inl _ \<Rightarrow> ret (Inl SQLITE_NOTFOUND)
      | Inr r \<Rightarrow>
          cbind (of_option Bad_Column (column_int r 0)) (\<lambda>omg.
          cbind (of_option Bad_Column (column_int r 1)) (\<lambda>doge.
          cbind (of_option Bad_Column (column_int r 2)) (\<lambda>btc.
          cbind (of_option Bad_Column (column_int r 3)) (\<lambda>eth.
          ret (Inr (u\<lparr>OMG := omg, DOGE := doge, BTC := btc, ETH := eth\<rparr>)))))))))"

section \<open>Orders\<close>

definition get_order :: "'w platform \<Rightarrow> int \<Rightarrow> ('w, int + order_t) dbprog" where
  "get_order E k =
     (let q = Select_Order k in
      cbind (sql_prepare E q) (\<lambda>res.
      if res \<noteq> SQLITE_OK then ret (Inl res) else
      cbind (sql_step E q) (\<lambda>st.
      case st of
        Inl _ \<Rightarrow> ret (Inl SQLITE_NOTFOUND)
      | Inr r \<Rightarrow> cbind (of_option Bad_Column (read_order r)) (\<lambda>ord. ret (Inr ord)))))"

text \<open>The cost of a buy order as an \<open>int\<close>: the product is rounded, then truncated.\<close>

definition int_cost :: "order_t \<Rightarrow> ('s, int) prog" where
  "int_cost ord = of_option Bad_Double_To_Int (to_cint (dmul (of_cint (quantity ord)) (unitPrice ord)))"

text \<open>The balance check of \<open>insert_order\<close>: \<open>SQLITE_OK\<close>, or \<open>SQLITE_ERROR\<close> for an early return.\<close>

definition insert_check :: "user_t \<Rightarrow> order_t \<Rightarrow> ('s, int) prog" where
  "insert_check u ord =
     (if buyOrSell ord = 0 then
        cbind (int_cost ord) (\<lambda>cost. ret (if OMG u < cost then SQLITE_ERROR else SQLITE_OK))
      else if buyOrSell ord = 1 then
        (if item ord = 1 then ret (if DOGE u < quantity ord then SQLITE_ERROR else SQLITE_OK)
         else if item ord = 2 then ret (if BTC u < quantity ord then SQLITE_ERROR else SQLITE_OK)
         else if item ord = 3 then ret (if ETH u < quantity ord then SQLITE_ERROR else SQLITE_OK)
         else ret SQLITE_ERROR)
      else ret SQLITE_OK)"

text \<open>What the order locks up: coins to pay with, or the coins on offer.\<close>

definition insert_deduct :: "user_t \<Rightarrow> order_t \<Rightarrow> ('s, user_t) prog" where
  "insert_deduct u ord =
     (if buyOrSell ord = 0 then
        cbind (int_cost ord) (\<lambda>cost. cbind (csub (OMG u) cost) (\<lambda>v. ret (u\<lparr>OMG := v\<rparr>)))
      else if buyOrSell ord = 1 then
        (if item ord = 1 then cbind (csub (DOGE u) (quantity ord)) (\<lambda>v. ret (u\<lparr>DOGE := v\<rparr>))
         else if item ord = 2 then cbind (csub (BTC u) (quantity ord)) (\<lambda>v. ret (u\<lparr>BTC := v\<rparr>))
         else if item ord = 3 then cbind (csub (ETH u) (quantity ord)) (\<lambda>v. ret (u\<lparr>ETH := v\<rparr>))
         else ret u)
      else ret u)"

definition insert_order :: "'w platform \<Rightarrow> order_t \<Rightarrow> ('w, int) dbprog" where
  "insert_order E ord =
     cbind (get_user E (ord_userID ord)) (\<lambda>got.
     case got of
       Inl res \<Rightarrow> ret res
     | Inr u \<Rightarrow>
         cbind (insert_check u ord) (\<lambda>res.
         if res \<noteq> SQLITE_OK then ret res else
         (let q = Insert_Order (item ord) (buyOrSell ord) (quantity ord) (unitPrice ord) (ord_userID ord) in
          cbind (sql_prepare E q) (\<lambda>res.
          if res \<noteq> SQLITE_OK then ret res else
          cbind (sql_run E q) (\<lambda>(rows, res).
          if res \<noteq> SQLITE_DONE then ret res else
          cbind (insert_deduct u ord) (\<lambda>u'.
          cbind (update_user_balance E u') (\<lambda>res.
          if res \<noteq> SQLITE_OK then ret res else ret SQLITE_OK)))))))"

definition delete_order :: "'w platform \<Rightarrow> int \<Rightarrow> ('w, int) dbprog" where
  "delete_order E k =
     (let q = Delete_Order k in
      cbind (sql_prepare E q) (\<lambda>res.
      if res \<noteq> SQLITE_OK then ret res else
      cbind (sql_run E q) (\<lambda>(rows, res).
      if res \<noteq> SQLITE_DONE then ret res else ret SQLITE_OK)))"

definition update_order :: "'w platform \<Rightarrow> order_t \<Rightarrow> ('w, int) dbprog" where
  "update_order E ord =
     (let q = Update_Order (item ord) (buyOrSell ord) (quantity ord) (unitPrice ord) (ord_userID ord) (orderID ord) in
      cbind (sql_prepare E q) (\<lambda>res.
      if res \<noteq> SQLITE_OK then ret res else
      cbind (sql_binds E q 1 6) (\<lambda>res.
      if res \<noteq> SQLITE_OK then ret res else
      cbind (sql_run E q) (\<lambda>(rows, res).
      if res \<noteq> SQLITE_DONE then ret res else ret SQLITE_OK))))"

text \<open>The identifier of a match or \<open>-1\<close>; but the result code itself when preparing fails.\<close>

definition find_matching_buy :: "'w platform \<Rightarrow> order_t \<Rightarrow> ('w, int) dbprog" where
  "find_matching_buy E ord =
     (let q = Select_Matching_Buy (item ord) (unitPrice ord) (ord_userID ord) in
      cbind (sql_prepare E q) (\<lambda>res.
      if res \<noteq> SQLITE_OK then ret res else
      cbind (sql_step E q) (\<lambda>st.
      case st of
        Inl _ \<Rightarrow> ret (- 1)
      | Inr r \<Rightarrow> of_option Bad_Column (column_int r 0))))"

definition find_matching_sell :: "'w platform \<Rightarrow> order_t \<Rightarrow> ('w, int) dbprog" where
  "find_matching_sell E ord =
     (let q = Select_Matching_Sell (item ord) (unitPrice ord) (ord_userID ord) in
      cbind (sql_prepare E q) (\<lambda>res.
      if res \<noteq> SQLITE_OK then ret res else
      cbind (sql_step E q) (\<lambda>st.
      case st of
        Inl _ \<Rightarrow> ret (- 1)
      | Inr r \<Rightarrow> of_option Bad_Column (column_int r 0))))"

text \<open>\<open>sizeof(order)\<close>: five \<open>int\<close>s, padding, a \<open>double\<close>, a pointer.\<close>

definition sizeof_order :: nat where
  "sizeof_order = 40"

text \<open>The copy loop of \<open>get_item_all_orders\<close>: it writes into an array of \<open>cap\<close> orders, unchecked.\<close>

fun fill_rows :: "nat \<Rightarrow> row list \<Rightarrow> order_t list \<Rightarrow> ('s, order_t list) prog" where
  "fill_rows cap [] acc = ret acc"
| "fill_rows cap (r # rs) acc =
     (if length acc < cap
      then cbind (of_option Bad_Column (read_order r)) (\<lambda>ord. fill_rows cap rs (acc @ [ord]))
      else stop Out_Of_Bounds)"

text \<open>One half of \<open>get_item_all_orders\<close>: prepare, allocate room for five orders, copy the rows.\<close>

definition fetch_top :: "'w platform \<Rightarrow> stmt \<Rightarrow> ('w, int + order_t list) dbprog" where
  "fetch_top E q =
     cbind (sql_prepare E q) (\<lambda>res.
     if res \<noteq> SQLITE_OK then ret (Inl res) else
     cbind (alloc E (sizeof_order * 5)) (\<lambda>ok.
     if \<not> ok then ret (Inl SQLITE_NOMEM) else
     cbind (sql_run E q) (\<lambda>(rows, res). cbind (fill_rows 5 rows []) (\<lambda>out. ret (Inr out)))))"

definition get_item_all_orders ::
  "'w platform \<Rightarrow> int \<Rightarrow> ('w, int + order_t list \<times> order_t list) dbprog" where
  "get_item_all_orders E i =
     cbind (fetch_top E (Select_Top_Buys i)) (\<lambda>got.
     case got of
       Inl res \<Rightarrow> ret (Inl res)
     | Inr buys \<Rightarrow>
         cbind (fetch_top E (Select_Top_Sells i)) (\<lambda>got.
         case got of
           Inl res \<Rightarrow> ret (Inl res)
         | Inr sells \<Rightarrow> ret (Inr (buys, sells))))"

text \<open>The loop of \<open>get_user_all_orders\<close>: the array grows by one order at a time.\<close>

fun collect_rows :: "'w platform \<Rightarrow> row list \<Rightarrow> order_t list \<Rightarrow> ('w, order_t list) dbprog" where
  "collect_rows E [] acc = ret acc"
| "collect_rows E (r # rs) acc =
     cbind (of_option Bad_Column (read_order r)) (\<lambda>ord.
     cbind (alloc E ((length acc + 1) * sizeof_order)) (\<lambda>ok.
     if ok then collect_rows E rs (acc @ [ord]) else error_and_exit))"

text \<open>The code, and the orders stored through the out parameters; no orders is the null pointer.\<close>

definition get_user_all_orders :: "'w platform \<Rightarrow> int \<Rightarrow> ('w, int \<times> order_t list) dbprog" where
  "get_user_all_orders E uid =
     (let q = Select_User_Orders uid in
      cbind (sql_prepare E q) (\<lambda>res.
      if res \<noteq> SQLITE_OK then ret (res, []) else
      cbind (sql_run E q) (\<lambda>(rows, res).
      cbind (collect_rows E rows []) (\<lambda>out. ret (SQLITE_OK, out)))))"

section \<open>Archives\<close>

definition insert_archive :: "'w platform \<Rightarrow> order_t \<Rightarrow> ('w, int) dbprog" where
  "insert_archive E ord =
     (let q = Insert_Archive (item ord) (buyOrSell ord) (quantity ord) (unitPrice ord) (ord_userID ord) (created_at ord) in
      cbind (sql_prepare E q) (\<lambda>res.
      if res \<noteq> SQLITE_OK then ret res else
      cbind (sql_run E q) (\<lambda>(rows, res).
      if res \<noteq> SQLITE_DONE then ret res else ret SQLITE_OK)))"

text \<open>The loop of \<open>get_user_archived_orders\<close>: the array doubles; \<open>None\<close> when it cannot.\<close>

fun grow_rows :: "'w platform \<Rightarrow> row list \<Rightarrow> int \<Rightarrow> order_t list \<Rightarrow> ('w, order_t list option) dbprog" where
  "grow_rows E [] cap acc = ret (Some acc)"
| "grow_rows E (r # rs) cap acc =
     cbind (if cap \<le> int (length acc)
            then cbind (cadd cap cap) (\<lambda>cap. cbind (alloc E (sizeof_order * nat cap)) (\<lambda>ok.
                   ret (if ok then Some cap else None)))
            else ret (Some cap))
       (\<lambda>room. case room of
          None \<Rightarrow> ret None
        | Some cap \<Rightarrow>
            if int (length acc) < cap
            then cbind (of_option Bad_Column (read_order r)) (\<lambda>ord. grow_rows E rs cap (acc @ [ord]))
            else stop Out_Of_Bounds)"

definition get_user_archived_orders :: "'w platform \<Rightarrow> int \<Rightarrow> ('w, int + order_t list) dbprog" where
  "get_user_archived_orders E uid =
     (let q = Select_Archives uid in
      cbind (sql_prepare E q) (\<lambda>res.
      if res \<noteq> SQLITE_OK then ret (Inl res) else
      cbind (alloc E (sizeof_order * 10)) (\<lambda>ok.
      if \<not> ok then ret (Inl SQLITE_NOMEM) else
      cbind (sql_run E q) (\<lambda>(rows, res).
      cbind (grow_rows E rows 10 []) (\<lambda>out.
      case out of None \<Rightarrow> ret (Inl SQLITE_NOMEM) | Some ords \<Rightarrow> ret (Inr ords))))))"

definition assign_order_timestamp :: "'w platform \<Rightarrow> order_t \<Rightarrow> ('w, int + order_t) dbprog" where
  "assign_order_timestamp E ord =
     (let q = Select_Timestamp in
      cbind (sql_prepare E q) (\<lambda>res.
      if res \<noteq> SQLITE_OK then ret (Inl res) else
      cbind (sql_step E q) (\<lambda>st.
      case st of
        Inl res \<Rightarrow> ret (Inl res)
      | Inr r \<Rightarrow> cbind (of_option Bad_Column (column_text r 0)) (\<lambda>ts.
          ret (Inr (ord\<lparr>created_at := Some ts\<rparr>))))))"

section \<open>The dump on standard output\<close>

definition dump_value :: "sqlval \<Rightarrow> string" where
  "dump_value v = (case v of
       SInt i \<Rightarrow> show_int (wrap32 i)
     | SReal p \<Rightarrow> fmt_fixed 6 p
     | SText s \<Rightarrow> s
     | SNull \<Rightarrow> ''NULL'') @ [CHR 0x09]"

definition dump_row :: "row \<Rightarrow> string" where
  "dump_row r = concat (map dump_value r) @ [LF]"

definition user_columns :: "string list" where
  "user_columns = [''userID'', ''username'', ''password'', ''name'', ''OMG'', ''DOGE'', ''BTC'', ''ETH'']"

definition order_columns :: "string list" where
  "order_columns = [''orderID'', ''item'', ''buyOrSell'', ''quantity'', ''unitPrice'', ''userID'', ''created_at'']"

definition dump_table :: "'w platform \<Rightarrow> string \<Rightarrow> string list \<Rightarrow> stmt \<Rightarrow> ('w, string) dbprog" where
  "dump_table E title cols q =
     (let head = ''Table: '' @ title @ [LF] in
      cbind (sql_prepare E q) (\<lambda>res.
      if res \<noteq> SQLITE_OK then ret head else
      cbind (sql_run E q) (\<lambda>(rows, res).
      ret (head @ concat (map (\<lambda>s. s @ [CHR 0x09]) cols) @ [LF] @ concat (map dump_row rows) @ [LF]))))"

definition dump_database :: "'w platform \<Rightarrow> ('w, string) dbprog" where
  "dump_database E =
     cbind (dump_table E ''Users'' user_columns Dump_Users) (\<lambda>a.
     cbind (dump_table E ''Orders'' order_columns Dump_Orders) (\<lambda>b.
     cbind (dump_table E ''Archives'' order_columns Dump_Archives) (\<lambda>c.
     ret (a @ b @ c))))"

end
