(* ===== verification/DbFacts.thy ===== *)
theory DbFacts
  imports Db
begin

text \<open>
  The functions of db.c under the contract of the engine: what each of them returns and leaves,
  including every way in which the engine may fail, that they keep the database well-formed, and
  that on a healthy engine they succeed.
\<close>

section \<open>Reading back what the tables hold\<close>

lemma read_user_row [simp]: "user_ok u \<Longrightarrow> in_int32 (userID u) \<Longrightarrow> read_user (user_row u) = Some u"
  by (simp add: read_user_def user_row_def column_int_def column_text_def user_ok_def)

lemma read_user_ok: "read_user r = Some u \<Longrightarrow> user_ok u \<and> in_int32 (userID u)"
  by (auto simp: read_user_def user_ok_def column_int_def split: Option.bind_splits if_splits sqlval.splits)

lemma read_order_row [simp]:
  "order_ok r \<Longrightarrow> in_int32 (ord_userID r) \<Longrightarrow> in_int32 (orderID r) \<Longrightarrow> created_at r \<noteq> None \<Longrightarrow>
   read_order (order_row r) = Some r"
  by (auto simp: read_order_def order_row_def column_int_def column_text_def column_double_def
      order_ok_def text_val_def)

lemma read_order_ints:
  "read_order r = Some ord \<Longrightarrow> in_int32 (orderID ord) \<and> in_int32 (item ord) \<and> in_int32 (buyOrSell ord) \<and>
   in_int32 (quantity ord) \<and> in_int32 (ord_userID ord) \<and> created_at ord \<noteq> None"
  by (auto simp: read_order_def column_int_def split: Option.bind_splits if_splits sqlval.splits)

lemma column_int_0_order_row [simp]: "column_int (order_row r) 0 = Some (wrap32 (orderID r))"
  by (simp add: column_int_def order_row_def)

text \<open>The identifiers that fit into an \<open>int\<close>: all of them, for the first two thousand million rows.\<close>

definition ids_small :: "tables \<Rightarrow> bool" where
  "ids_small t \<longleftrightarrow> user_seq t < 2 ^ 31 \<and> order_seq t < 2 ^ 31 \<and> archive_seq t < 2 ^ 31"

lemma keyed_int32: "keyed key n xs \<Longrightarrow> n < 2 ^ 31 \<Longrightarrow> x \<in> set xs \<Longrightarrow> in_int32 (key x)"
  by (fastforce simp: keyed_def in_int32_def)

lemma wf_small_ids:
  assumes "wf_db t" and "ids_small t"
  shows "u \<in> set (users t) \<Longrightarrow> in_int32 (userID u)"
    and "r \<in> set (orders t) \<Longrightarrow> in_int32 (orderID r) \<and> in_int32 (ord_userID r)"
    and "r \<in> set (archives t) \<Longrightarrow> in_int32 (orderID r) \<and> in_int32 (ord_userID r)"
  using assms
  by (auto simp: wf_db_def ids_small_def user_ids_def keyed_int32)

lemma wf_order_rowD:
  assumes "wf_db t" and "r \<in> set (orders t)"
  shows "order_ok r" and "ord_userID r \<in> user_ids t" and "created_at r \<noteq> None" and "0 < orderID r"
  using assms by (auto simp: wf_db_def keyed_def)

lemma wf_user_rowD: "wf_db t \<Longrightarrow> u \<in> set (users t) \<Longrightarrow> user_ok u"
  by (auto simp: wf_db_def)

lemma wf_filter_user:
  "wf_db t \<Longrightarrow> u \<in> set (users t) \<Longrightarrow> userID u = k \<Longrightarrow> filter (\<lambda>u. userID u = k) (users t) = [u]"
  by (auto simp: wf_db_def intro: users.the_row)

lemma wf_filter_order:
  "wf_db t \<Longrightarrow> r \<in> set (orders t) \<Longrightarrow> orderID r = k \<Longrightarrow> filter (\<lambda>r. orderID r = k) (orders t) = [r]"
  by (auto simp: wf_db_def intro: orders.the_row)

lemma mset_rows_in: "mset (r # rs) = mset (map f (filter p xs)) \<Longrightarrow> \<exists>x \<in> set xs. p x \<and> r = f x"
proof -
  assume "mset (r # rs) = mset (map f (filter p xs))"
  then have "r \<in> set (map f (filter p xs))"
    by (metis list.set_intros(1) mset_eq_setD)
  then show ?thesis by auto
qed

section \<open>The functions that write\<close>

text \<open>A call either did its work and returned \<open>SQLITE_OK\<close>, or did nothing and returned a code.\<close>

definition wrote :: "(tables \<Rightarrow> tables \<Rightarrow> bool) \<Rightarrow> (fault + int) \<times> 'w sqlite3 \<Rightarrow> 'w sqlite3 \<Rightarrow> bool" where
  "wrote eff rs c \<longleftrightarrow> (fst rs = Inr SQLITE_OK \<and> eff (db c) (db (snd rs))) \<or>
     ((\<exists>rc. 0 < rc \<and> fst rs = Inr rc) \<and> db (snd rs) = db c)"

context sqlite_engine
begin

lemma prepareE:
  assumes "cbind (sql_prepare E q) f c = (r, c')"
  obtains rc c1 where "0 \<le> rc" and "db c1 = db c" and "f rc c1 = (r, c')"
  using assms prepare_code prepare_db
  by (auto simp: cbind_def sql_prepare_def split: prod.splits) metis

lemma write_spec:
  assumes "cbind (sql_prepare E q) (\<lambda>res. if res \<noteq> SQLITE_OK then ret res else
    cbind (sql_run E q) (\<lambda>(rows, res). if res \<noteq> SQLITE_DONE then ret res else ret SQLITE_OK)) c = (r, c')" and q: "data_stmt q"
  shows "wrote (\<lambda>t t'. \<exists>rows. sql_meaning t q rows t') (r, c') c"
  using assms(1)
proof (rule prepareE)
  fix rc c1 assume "0 \<le> rc" and c1: "db c1 = db c"
    and run: "(if rc \<noteq> SQLITE_OK then ret rc else cbind (sql_run E q)
      (\<lambda>(rows, res). if res \<noteq> SQLITE_DONE then ret res else ret SQLITE_OK)) c1 = (r, c')"
  show ?thesis
  proof (cases "rc = 0")
    case False
    with run \<open>0 \<le> rc\<close> c1 show ?thesis by (auto simp: wrote_def)
  next
    case True
    obtain x c2 where sr: "sql_run E q c1 = (x, c2)" by force
    then show ?thesis
      by (rule run_cases[OF _ q]) (use sr True run c1 in \<open>auto simp: wrote_def cbind_def\<close>)
  qed
qed

lemma update_user_balance_spec:
  "wrote (\<lambda>t t'. created t \<and> t' = change_balance (OMG u) (DOGE u) (BTC u) (ETH u) (userID u) t)
     (update_user_balance E u c) c"
proof -
  obtain r c' where run: "update_user_balance E u c = (r, c')" by force
  with write_spec[of "Update_Balance (OMG u) (DOGE u) (BTC u) (ETH u) (userID u)" c r c'] show ?thesis
    unfolding update_user_balance_def Let_def by (simp add: wrote_def cong del: if_weak_cong)
qed

lemma delete_order_spec:
  "wrote (\<lambda>t t'. created t \<and> t' = remove_order k t) (delete_order E k c) c"
proof -
  obtain r c' where run: "delete_order E k c = (r, c')" by force
  with write_spec[of "Delete_Order k" c r c'] show ?thesis
    unfolding delete_order_def Let_def by (simp add: wrote_def cong del: if_weak_cong)
qed

lemma update_order_spec:
  "wrote (\<lambda>t t'. created t \<and>
      t' = change_order (item r) (buyOrSell r) (quantity r) (unitPrice r) (ord_userID r) (orderID r) t \<and>
      (orderID r \<in> orderID ` set (orders t) \<longrightarrow> unitPrice r \<noteq> NaN \<and> fk_ok t (ord_userID r)))
     (update_order E r c) c"
proof -
  obtain x c' where run: "update_order E r c = (x, c')" by force
  with write_spec[of "Update_Order (item r) (buyOrSell r) (quantity r) (unitPrice r) (ord_userID r) (orderID r)" c x c']
  show ?thesis unfolding update_order_def Let_def by (simp add: wrote_def cong del: if_weak_cong)
qed

lemma insert_archive_spec:
  "wrote (\<lambda>t t'. created t \<and> unitPrice r \<noteq> NaN \<and> fk_ok t (ord_userID r) \<and> archive_seq t < max_rowid \<and>
      t' = add_archive (item r) (buyOrSell r) (quantity r) (unitPrice r) (ord_userID r) (created_at r) t)
     (insert_archive E r c) c"
proof -
  obtain x c' where run: "insert_archive E r c = (x, c')" by force
  with write_spec[of "Insert_Archive (item r) (buyOrSell r) (quantity r) (unitPrice r) (ord_userID r) (created_at r)" c x c']
  show ?thesis unfolding insert_archive_def Let_def by (simp add: wrote_def cong del: if_weak_cong)
qed

section \<open>The functions that read\<close>

lemma one_row_spec:
  fixes parse :: "row \<Rightarrow> 'x option"
  assumes wf: "\<And>row rest t'. sql_meaning (db c) q (row # rest) t' \<Longrightarrow>
      t' = db c \<and> (\<exists>x. P x \<and> parse row = Some x)"
    and none: "\<And>t'. sql_meaning (db c) q [] t' \<Longrightarrow> t' = db c"
    and run: "cbind (sql_prepare E q) (\<lambda>res. if res \<noteq> SQLITE_OK then ret (Inl res) else
      cbind (sql_step E q) (\<lambda>st. case st of
        Inl rc \<Rightarrow> ret (Inl (g rc))
      | Inr row \<Rightarrow> cbind (of_option Bad_Column (parse row)) (\<lambda>x. ret (Inr x)))) c = (r, c')"
    and pos: "\<And>rc. 0 < rc \<Longrightarrow> 0 < g rc" and q: "data_stmt q"
  shows "db c' = db c \<and> ((\<exists>rc. 0 < rc \<and> r = Inr (Inl rc)) \<or> (\<exists>x. P x \<and> r = Inr (Inr x)))"
  using run
proof (rule prepareE)
  fix rc c1 assume "0 \<le> rc" and c1: "db c1 = db c"
    and rest: "(if rc \<noteq> SQLITE_OK then ret (Inl rc) else
      cbind (sql_step E q) (\<lambda>st. case st of
        Inl rc \<Rightarrow> ret (Inl (g rc))
      | Inr row \<Rightarrow> cbind (of_option Bad_Column (parse row)) (\<lambda>x. ret (Inr x)))) c1 = (r, c')"
  show ?thesis
  proof (cases "rc = 0")
    case False
    with rest \<open>0 \<le> rc\<close> c1 show ?thesis by (auto intro!: exI[of _ rc])
  next
    case True
    define k :: "int + row \<Rightarrow> ('w, int + 'x) dbprog" where "k = (\<lambda>st. case st of
        Inl rc \<Rightarrow> ret (Inl (g rc))
      | Inr row \<Rightarrow> cbind (of_option Bad_Column (parse row)) (\<lambda>x. ret (Inr x)))"
    obtain x c2 where step: "sql_step E q c1 = (x, c2)" by force
    have k: "case_sum (\<lambda>e. (Inl e, c2)) (\<lambda>st. k st c2) x = (r, c')"
      using rest True step by (simp add: cbind_def k_def[symmetric])
    show ?thesis using step q
    proof (cases rule: step_cases)
      case 1
      with k none pos[of SQLITE_DONE] c1 show ?thesis by (auto simp: k_def)
    next
      case (2 rc)
      with k pos[of rc] c1 show ?thesis by (auto simp: k_def)
    next
      case (3 row rest t')
      with wf c1 obtain y where "t' = db c" "P y" "parse row = Some y" by metis
      with 3 k c1 show ?thesis by (auto simp: k_def)
    qed
  qed
qed

lemma get_user_spec:
  assumes "wf_conn c" and "in_int32 uid" and "get_user E uid c = (r, c')"
  shows "db c' = db c \<and>
    ((\<exists>rc. 0 < rc \<and> r = Inr (Inl rc)) \<or> (\<exists>u. (u \<in> set (users (db c)) \<and> userID u = uid) \<and> r = Inr (Inr u)))"
proof (rule one_row_spec[where q = "Select_User uid" and parse = read_user and g = "\<lambda>_. SQLITE_NOTFOUND"])
  fix row rest t'
  assume "sql_meaning (db c) (Select_User uid) (row # rest) t'"
  then obtain u where "u \<in> set (users (db c))" "userID u = uid" "row = user_row u" "t' = db c"
    by (simp only: sql_meaning.simps) (blast dest: mset_rows_in)
  with assms(1,2) show "t' = db c \<and> (\<exists>u. (u \<in> set (users (db c)) \<and> userID u = uid) \<and> read_user row = Some u)"
    by (auto intro!: exI[of _ u] read_user_row wf_user_rowD)
qed (use assms(3) in \<open>simp_all add: get_user_def Let_def cong del: if_weak_cong\<close>)

lemma get_user_by_username_spec:
  assumes "wf_conn c" and "ids_small (db c)" and "get_user_by_username E un c = (r, c')"
  shows "db c' = db c \<and>
    ((\<exists>rc. 0 < rc \<and> r = Inr (Inl rc)) \<or> (\<exists>u. (u \<in> set (users (db c)) \<and> username u = un) \<and> r = Inr (Inr u)))"
proof (rule one_row_spec[where q = "Select_User_By_Name un" and parse = read_user and g = "\<lambda>_. SQLITE_NOTFOUND"])
  fix row rest t'
  assume "sql_meaning (db c) (Select_User_By_Name un) (row # rest) t'"
  then obtain u where "u \<in> set (users (db c))" "username u = un" "row = user_row u" "t' = db c"
    by (simp only: sql_meaning.simps) (blast dest: mset_rows_in)
  with assms(1,2) show "t' = db c \<and> (\<exists>u. (u \<in> set (users (db c)) \<and> username u = un) \<and> read_user row = Some u)"
    by (auto intro!: exI[of _ u] read_user_row wf_user_rowD wf_small_ids)
qed (use assms(3) in \<open>simp_all add: get_user_by_username_def Let_def cong del: if_weak_cong\<close>)

lemma get_order_spec:
  assumes "wf_conn c" and "ids_small (db c)" and "get_order E k c = (r, c')"
  shows "db c' = db c \<and>
    ((\<exists>rc. 0 < rc \<and> r = Inr (Inl rc)) \<or> (\<exists>x. (x \<in> set (orders (db c)) \<and> orderID x = k) \<and> r = Inr (Inr x)))"
proof (rule one_row_spec[where q = "Select_Order k" and parse = read_order and g = "\<lambda>_. SQLITE_NOTFOUND"])
  fix row rest t'
  assume "sql_meaning (db c) (Select_Order k) (row # rest) t'"
  then obtain x where "x \<in> set (orders (db c))" "orderID x = k" "row = order_row x" "t' = db c"
    by (simp only: sql_meaning.simps) (blast dest: mset_rows_in)
  with assms(1,2) show "t' = db c \<and> (\<exists>x. (x \<in> set (orders (db c)) \<and> orderID x = k) \<and> read_order row = Some x)"
    using wf_order_rowD[OF assms(1)] by (auto intro!: exI[of _ x] read_order_row dest: wf_small_ids(2))
qed (use assms(3) in \<open>simp_all add: get_order_def Let_def cong del: if_weak_cong\<close>)

lemma assign_order_timestamp_spec:
  assumes "assign_order_timestamp E ord c = (r, c')"
  shows "db c' = db c \<and>
    ((\<exists>rc. 0 < rc \<and> r = Inr (Inl rc)) \<or> (\<exists>x. (\<exists>ts. x = ord\<lparr>created_at := Some ts\<rparr>) \<and> r = Inr (Inr x)))"
proof (rule one_row_spec[where q = Select_Timestamp and g = "\<lambda>rc. rc"
      and parse = "\<lambda>r. map_option (\<lambda>ts. ord\<lparr>created_at := Some ts\<rparr>) (column_text r 0)"])
  show "cbind (sql_prepare E Select_Timestamp) (\<lambda>res. if res \<noteq> SQLITE_OK then ret (Inl res) else
      cbind (sql_step E Select_Timestamp) (\<lambda>st. case st of
        Inl rc \<Rightarrow> ret (Inl rc)
      | Inr row \<Rightarrow> cbind (of_option Bad_Column
          (map_option (\<lambda>ts. ord\<lparr>created_at := Some ts\<rparr>) (column_text row 0))) (\<lambda>x. ret (Inr x)))) c = (r, c')"
    using assms
    by (auto simp: assign_order_timestamp_def cbind_def of_option_def Let_def ret_def stop_def
        split: prod.splits sum.splits option.splits if_splits)
qed (auto simp: column_text_def)

lemma update_user_balance_ok:
  "update_user_balance E u c = (Inr 0, c') \<Longrightarrow> created (db c) \<and>
   db c' = change_balance (OMG u) (DOGE u) (BTC u) (ETH u) (userID u) (db c)"
  using update_user_balance_spec[of u c] by (simp add: wrote_def)

lemma delete_order_ok: "delete_order E k c = (Inr 0, c') \<Longrightarrow> db c' = remove_order k (db c)"
  using delete_order_spec[of k c] by (simp add: wrote_def)

lemma update_order_ok:
  "update_order E r c = (Inr 0, c') \<Longrightarrow>
   db c' = change_order (item r) (buyOrSell r) (quantity r) (unitPrice r) (ord_userID r) (orderID r) (db c)"
  using update_order_spec[of r c] by (simp add: wrote_def)

lemma insert_archive_ok:
  "insert_archive E r c = (Inr 0, c') \<Longrightarrow>
   db c' = add_archive (item r) (buyOrSell r) (quantity r) (unitPrice r) (ord_userID r) (created_at r) (db c)"
  using insert_archive_spec[of r c] by (simp add: wrote_def)

lemma get_user_found:
  "wf_conn c \<Longrightarrow> in_int32 uid \<Longrightarrow> get_user E uid c = (Inr (Inr u), c') \<Longrightarrow>
   db c' = db c \<and> u \<in> set (users (db c)) \<and> userID u = uid"
  using get_user_spec[of c uid "Inr (Inr u)" c'] by auto

lemma get_order_found:
  "wf_conn c \<Longrightarrow> ids_small (db c) \<Longrightarrow> get_order E k c = (Inr (Inr r), c') \<Longrightarrow>
   db c' = db c \<and> r \<in> set (orders (db c)) \<and> orderID r = k"
  using get_order_spec[of c k "Inr (Inr r)" c'] by auto

lemma assign_order_timestamp_found:
  "assign_order_timestamp E ord c = (Inr (Inr x), c') \<Longrightarrow>
   db c' = db c \<and> (\<exists>ts. x = ord\<lparr>created_at := Some ts\<rparr>)"
  using assign_order_timestamp_spec[of ord c "Inr (Inr x)" c'] by auto

end

section \<open>Reading from a healthy engine\<close>

lemma ordered_limit_1:
  assumes "ordered_limit le 1 xs out" and "\<And>x. le x x"
  shows "out = [] \<and> xs = [] \<or> (\<exists>m. out = [m] \<and> m \<in> set xs \<and> (\<forall>x \<in> set xs. le m x))"
proof -
  obtain ys where ys: "mset ys = mset xs" "sorted_wrt le ys" "out = take 1 ys"
    using assms(1) by (auto simp: ordered_limit_def)
  have set: "set xs = set ys" using ys(1) by (metis set_mset_mset)
  show ?thesis
  proof (cases ys)
    case Nil
    with ys show ?thesis by simp
  next
    case (Cons m zs)
    with ys set assms(2) show ?thesis by auto
  qed
qed

lemma older_refl [simp]: "older x x"
  by (simp add: older_def)

lemma enabled_reads:
  assumes "created t" and "q \<in> {Select_User k, Select_Order k, Select_Matching_Buy i p uid,
    Select_Matching_Sell i p uid, Select_Top_Buys i, Select_Top_Sells i, Select_User_Orders uid,
    Select_Inventory uid, Select_User_By_Name un, Select_Archives uid}"
  shows "\<exists>rows t'. sql_meaning t q rows t'"
proof -
  have "\<exists>rows t'. sql_eval now t q = Some (rows, t')" for now
    using assms by (auto simp: select_def)
  with sql_eval_sound show ?thesis by blast
qed

text \<open>The oldest of the orders that qualify, or \<open>-1\<close> when none does.\<close>

definition oldest_of :: "order_t list \<Rightarrow> int \<Rightarrow> bool" where
  "oldest_of ms k \<longleftrightarrow> (if ms = [] then k = - 1
     else \<exists>m \<in> set ms. orderID m = k \<and> (\<forall>x \<in> set ms. older m x))"

context sqlite_healthy
begin

lemma prepare_healthy:
  assumes "created (db c) \<or> q = Select_Timestamp"
  obtains c' where "sql_prepare E q c = (Inr SQLITE_OK, c')" and "db c' = db c"
proof -
  obtain rc c' where p: "prepare_v2 E c q = (rc, c')" by force
  with prepared[of c q] assms have "rc = 0" by auto
  with p prepare_db[OF p] that show thesis by (simp add: sql_prepare_def)
qed

lemma run_healthy:
  assumes "\<exists>all t'. sql_meaning (db c) q all t'"
  obtains rows c' where "sql_run E q c = (Inr (rows, SQLITE_DONE), c')" and "sql_meaning (db c) q rows (db c')"
proof -
  obtain rows rc c' where run: "run_stmt E c q = ((rows, rc), c')" by (metis surj_pair)
  with assms completes have "rc = SQLITE_DONE" by blast
  with run done_meaning that show thesis by (auto simp: sql_run_def)
qed

lemma step_healthy:
  assumes "\<exists>all t'. sql_meaning (db c) q all t'"
  obtains c' where "sql_step E q c = (Inr (Inl SQLITE_DONE), c')" and "sql_meaning (db c) q [] (db c')"
  | row rest c' where "sql_step E q c = (Inr (Inr row), c')" and "sql_meaning (db c) q (row # rest) (db c')"
proof -
  obtain rows c' where run: "sql_run E q c = (Inr (rows, SQLITE_DONE), c')"
    and rows: "sql_meaning (db c) q rows (db c')"
    using run_healthy[OF assms] .
  have "sql_step E q c = (Inr (case rows of [] \<Rightarrow> Inl SQLITE_DONE | r # _ \<Rightarrow> Inr r), c')"
    using run by (simp add: sql_step_def cbind_def)
  with rows that show thesis by (cases rows) auto
qed

lemma write_healthy:
  assumes "created (db c)" and "sql_meaning (db c) q [] t'"
    and det: "\<And>rows t. sql_meaning (db c) q rows t \<Longrightarrow> t = t'"
  obtains c' where "cbind (sql_prepare E q) (\<lambda>res. if res \<noteq> SQLITE_OK then ret res else
    cbind (sql_run E q) (\<lambda>(rows, res). if res \<noteq> SQLITE_DONE then ret res else ret SQLITE_OK)) c
      = (Inr SQLITE_OK, c')" and "db c' = t'"
proof -
  obtain c1 where p: "sql_prepare E q c = (Inr SQLITE_OK, c1)" "db c1 = db c"
    using prepare_healthy assms(1) by blast
  have "\<exists>all t'. sql_meaning (db c1) q all t'" using assms(2) p(2) by auto
  then obtain rows c2 where "sql_run E q c1 = (Inr (rows, SQLITE_DONE), c2)" "sql_meaning (db c1) q rows (db c2)"
    by (rule run_healthy)
  with p det that show thesis by (simp add: cbind_done)
qed

lemma update_user_balance_healthy:
  assumes "created (db c)"
  obtains c' where "update_user_balance E u c = (Inr 0, c')"
    and "db c' = change_balance (OMG u) (DOGE u) (BTC u) (ETH u) (userID u) (db c)"
  using write_healthy[OF assms, of "Update_Balance (OMG u) (DOGE u) (BTC u) (ETH u) (userID u)"] assms that
  unfolding update_user_balance_def Let_def by (auto cong del: if_weak_cong)

lemma delete_order_healthy:
  assumes "created (db c)"
  obtains c' where "delete_order E k c = (Inr 0, c')" and "db c' = remove_order k (db c)"
  using write_healthy[OF assms, of "Delete_Order k"] assms that
  unfolding delete_order_def Let_def by auto

lemma update_order_healthy:
  assumes "created (db c)" and "unitPrice r \<noteq> NaN" and "fk_ok (db c) (ord_userID r)"
  obtains c' where "update_order E r c = (Inr 0, c')"
    and "db c' = change_order (item r) (buyOrSell r) (quantity r) (unitPrice r) (ord_userID r) (orderID r) (db c)"
  using write_healthy[OF assms(1), of "Update_Order (item r) (buyOrSell r) (quantity r) (unitPrice r)
      (ord_userID r) (orderID r)"] assms that
  unfolding update_order_def Let_def by (auto cong del: if_weak_cong)

lemma insert_archive_healthy:
  assumes "created (db c)" and "unitPrice r \<noteq> NaN" and "fk_ok (db c) (ord_userID r)"
    and "archive_seq (db c) < max_rowid"
  obtains c' where "insert_archive E r c = (Inr 0, c')"
    and "db c' = add_archive (item r) (buyOrSell r) (quantity r) (unitPrice r) (ord_userID r) (created_at r) (db c)"
  using write_healthy[OF assms(1), of "Insert_Archive (item r) (buyOrSell r) (quantity r) (unitPrice r)
      (ord_userID r) (created_at r)"] assms that
  unfolding insert_archive_def Let_def by auto

text \<open>Reads of at most one row: the row, or \<open>SQLITE_NOTFOUND\<close>.\<close>

lemma one_row_healthy:
  assumes "created (db c)" and ex: "\<exists>rows t'. sql_meaning (db c) q rows t'"
    and rows: "\<And>rows t'. sql_meaning (db c) q rows t' \<Longrightarrow> t' = db c \<and> rows = map f (case_option [] (\<lambda>x. [x]) x)"
    and parse: "\<And>y. x = Some y \<Longrightarrow> parse (f y) = Some y"
  obtains c' where "cbind (sql_prepare E q) (\<lambda>res. if res \<noteq> SQLITE_OK then ret (Inl res) else
      cbind (sql_step E q) (\<lambda>st. case st of
        Inl _ \<Rightarrow> ret (Inl SQLITE_NOTFOUND)
      | Inr row \<Rightarrow> cbind (of_option Bad_Column (parse row)) (\<lambda>x. ret (Inr x)))) c =
      (Inr (case x of None \<Rightarrow> Inl SQLITE_NOTFOUND | Some y \<Rightarrow> Inr y), c')" and "db c' = db c"
proof -
  obtain c1 where p: "sql_prepare E q c = (Inr SQLITE_OK, c1)" "db c1 = db c"
    using prepare_healthy assms(1) by blast
  have "\<exists>rows t'. sql_meaning (db c1) q rows t'" using ex p(2) by simp
  then show thesis
  proof (cases rule: step_healthy)
    case (1 c')
    with rows[of "[]" "db c'"] p that show thesis
      by (cases x) (auto simp: cbind_done)
  next
    case (2 row rest c')
    then have "db c' = db c" and "map f (case_option [] (\<lambda>x. [x]) x) = row # rest"
      using rows[of "row # rest" "db c'"] p(2) by auto
    with 2 p that parse show thesis by (cases x) (auto simp: cbind_done)
  qed
qed

lemma get_user_healthy:
  assumes "wf_conn c" and "created (db c)" and "u \<in> set (users (db c))" and "userID u = uid"
    and "in_int32 uid"
  obtains c' where "get_user E uid c = (Inr (Inr u), c')" and "db c' = db c"
proof (rule one_row_healthy[of c "Select_User uid" user_row "Some u" read_user])
  show "t' = db c \<and> rows = map user_row (case Some u of None \<Rightarrow> [] | Some x \<Rightarrow> [x])"
    if "sql_meaning (db c) (Select_User uid) rows t'" for rows t'
    using that wf_filter_user[OF assms(1,3,4)] by simp
qed (use assms that enabled_reads[of "db c" "Select_User uid"] in
    \<open>auto simp: get_user_def Let_def wf_user_rowD cong del: if_weak_cong\<close>)

lemma get_order_healthy:
  assumes "wf_conn c" and "ids_small (db c)" and "created (db c)"
    and "r \<in> set (orders (db c))" and "orderID r = k"
  obtains c' where "get_order E k c = (Inr (Inr r), c')" and "db c' = db c"
proof (rule one_row_healthy[of c "Select_Order k" order_row "Some r" read_order])
  show "t' = db c \<and> rows = map order_row (case Some r of None \<Rightarrow> [] | Some x \<Rightarrow> [x])"
    if "sql_meaning (db c) (Select_Order k) rows t'" for rows t'
    using that wf_filter_order[OF assms(1,4,5)] by simp
  show "read_order (order_row y) = Some y" if "Some r = Some y" for y
    using that assms wf_order_rowD[OF assms(1)] wf_small_ids(2)[OF assms(1,2)] by (intro read_order_row) auto
qed (use assms that enabled_reads[of "db c" "Select_Order k"] in
    \<open>auto simp: get_order_def Let_def cong del: if_weak_cong\<close>)

lemma get_order_missing:
  assumes "created (db c)" and "k \<notin> orderID ` set (orders (db c))"
  obtains c' where "get_order E k c = (Inr (Inl SQLITE_NOTFOUND), c')" and "db c' = db c"
proof (rule one_row_healthy[of c "Select_Order k" order_row None read_order])
  show "t' = db c \<and> rows = map order_row (case None of None \<Rightarrow> [] | Some x \<Rightarrow> [x])"
    if "sql_meaning (db c) (Select_Order k) rows t'" for rows t'
    using that orders.no_row[OF assms(2)] by simp
qed (use assms that enabled_reads[of "db c" "Select_Order k"] in
    \<open>auto simp: get_order_def Let_def cong del: if_weak_cong\<close>)

text \<open>The timestamp always comes; the search for a counterparty finds the oldest one.\<close>

lemma assign_order_timestamp_healthy:
  obtains ts c' where "assign_order_timestamp E ord c = (Inr (Inr (ord\<lparr>created_at := Some ts\<rparr>)), c')"
    and "db c' = db c"
proof -
  obtain c1 where p: "sql_prepare E Select_Timestamp c = (Inr SQLITE_OK, c1)" "db c1 = db c"
    using prepare_healthy by blast
  have "\<exists>all t'. sql_meaning (db c1) Select_Timestamp all t'" by auto
  then show thesis
  proof (cases rule: step_healthy)
    case (1 c')
    then show thesis by simp
  next
    case (2 row rest c')
    then obtain ts where "row = [SText ts]" "db c' = db c" using p(2) by auto
    with 2 p that show thesis
      by (auto simp: assign_order_timestamp_def cbind_done column_text_def)
  qed
qed

lemma first_match_healthy:
  assumes "wf_conn c" and "ids_small (db c)" and "created (db c)"
    and q: "\<And>rows t'. sql_meaning (db c) q rows t' \<longleftrightarrow> t' = db c \<and>
      (\<exists>out. ordered_limit older 1 ms out \<and> rows = map order_row out)"
    and ms: "set ms \<subseteq> set (orders (db c))"
  obtains k c' where "cbind (sql_prepare E q) (\<lambda>res. if res \<noteq> SQLITE_OK then ret res else
      cbind (sql_step E q) (\<lambda>st. case st of
        Inl _ \<Rightarrow> ret (- 1) | Inr r \<Rightarrow> of_option Bad_Column (column_int r 0))) c = (Inr k, c')"
    and "db c' = db c" and "oldest_of ms k"
proof -
  obtain c1 where p: "sql_prepare E q c = (Inr SQLITE_OK, c1)" "db c1 = db c"
    using prepare_healthy assms(3) by blast
  have "ordered_limit older 1 ms (take 1 (sort_key created_at ms))"
    by (rule ordered_limit_sort_key) (simp add: older_def)
  then have "\<exists>all t'. sql_meaning (db c1) q all t'" using q p(2) by auto
  then show thesis
  proof (cases rule: step_healthy)
    case (1 c')
    then have "ordered_limit older 1 ms []" and "db c' = db c" using q p(2) by auto
    with ordered_limit_1[of older ms "[]"] 1 p that[of "- 1" c'] show thesis
      by (auto simp: cbind_done oldest_of_def)
  next
    case (2 row rest c')
    then obtain out where out: "ordered_limit older 1 ms out" "map order_row out = row # rest" "db c' = db c"
      using q p(2) by auto
    with ordered_limit_1[OF out(1)] obtain m where m: "m \<in> set ms" "\<forall>x \<in> set ms. older m x" "row = order_row m"
      by auto
    with wf_small_ids(2)[OF assms(1,2), of m] ms have "column_int row 0 = Some (orderID m)" by auto
    moreover have "oldest_of ms (orderID m)" using m by (auto simp: oldest_of_def)
    ultimately show thesis using 2 p m(3) out(3) that[of "orderID m" c'] by (simp add: cbind_done)
  qed
qed

lemma find_matching_buy_healthy:
  assumes "wf_conn c" and "ids_small (db c)" and "created (db c)"
  obtains k c' where "find_matching_buy E ord c = (Inr k, c')" and "db c' = db c"
    and "oldest_of (matching_buys (db c) (item ord) (unitPrice ord) (ord_userID ord)) k"
proof (rule first_match_healthy[OF assms, of "Select_Matching_Buy (item ord) (unitPrice ord) (ord_userID ord)"])
qed (use assms that in \<open>auto simp: find_matching_buy_def Let_def matching_buys_def\<close>)

lemma find_matching_sell_healthy:
  assumes "wf_conn c" and "ids_small (db c)" and "created (db c)"
  obtains k c' where "find_matching_sell E ord c = (Inr k, c')" and "db c' = db c"
    and "oldest_of (matching_sells (db c) (item ord) (unitPrice ord) (ord_userID ord)) k"
proof (rule first_match_healthy[OF assms, of "Select_Matching_Sell (item ord) (unitPrice ord) (ord_userID ord)"])
qed (use assms that in \<open>auto simp: find_matching_sell_def Let_def matching_sells_def\<close>)

end

end
