(* ===== verification/Invariants.thy ===== *)
theory Invariants
  imports DbFacts
begin

text \<open>
  Invariants of the tables and who keeps them. The locale \<open>session_invariant\<close> is the contract of a
  property that no data statement of db.c can break when its parameters are \<open>int\<close>s; inside it, every
  function of db.c that a session calls is shown to keep the property, whatever the engine does and
  however the call ends. Its interpretations are well-formedness, the existence of the tables, and
  the histories that only grow: archives, accounts with their credentials, and the keys given out.
\<close>

definition order_ints :: "order_t \<Rightarrow> bool" where
  "order_ints r \<longleftrightarrow> in_int32 (item r) \<and> in_int32 (buyOrSell r) \<and> in_int32 (quantity r)"

lemma read_order_ints': "read_order r = Some ord \<Longrightarrow> order_ints ord \<and> created_at ord \<noteq> None"
  by (auto simp: order_ints_def dest: read_order_ints)

lemma get_user_ok: "get_user E uid c = (Inr (Inr u), c') \<Longrightarrow> user_ok u \<and> in_int32 (userID u)"
  unfolding get_user_def Let_def
  by (auto simp: of_option_Inr_iff elim!: cbindE split: if_splits sum.split_asm dest!: read_user_ok)

lemma get_order_ints: "get_order E k c = (Inr (Inr r), c') \<Longrightarrow> order_ints r \<and> created_at r \<noteq> None"
  unfolding get_order_def Let_def
  by (auto simp: of_option_Inr_iff elim!: cbindE split: if_splits sum.split_asm dest!: read_order_ints')

lemma to_cint_int32: "to_cint d = Some i \<Longrightarrow> in_int32 i"
  by (cases d) (auto split: if_splits)

lemma insert_deduct_ok: "user_ok u \<Longrightarrow> insert_deduct u ord c = (Inr u', c') \<Longrightarrow> user_ok u'"
  by (auto simp: insert_deduct_def run_iffs user_ok_def split: if_splits)

lemma keeps_insert_deduct [keeps_intros]: "keeps P (insert_deduct u ord)"
  unfolding insert_deduct_def int_cost_def by (intro keeps_intros)

lemma keeps_insert_check [keeps_intros]: "keeps P (insert_check u ord)"
  unfolding insert_check_def int_cost_def by (intro keeps_intros)

lemma keeps_fill_rows [keeps_intros]: "keeps P (fill_rows cap rows acc)"
  by (induction cap rows acc rule: fill_rows.induct) (auto intro!: keeps_intros)

lemma keeps_alloc' [keeps_intros]: "keeps P (alloc E n)"
  by (simp add: keeps_def alloc_def)

lemma keeps_last_rowid [keeps_intros]: "keeps P (sql_last_rowid E)"
  by (simp add: keeps_def sql_last_rowid_def)

lemma keeps_binds [keeps_intros]: "keeps P (sql_binds E q i n)"
  by (induction n arbitrary: i) (auto simp: keeps_def)

lemma keeps_collect_rows [keeps_intros]: "keeps P (collect_rows E rows acc)"
  by (induction E rows acc rule: collect_rows.induct) (auto intro!: keeps_intros)

lemma keeps_grow_rows [keeps_intros]: "keeps P (grow_rows E rows cap acc)"
  by (induction E rows cap acc rule: grow_rows.induct)
    (auto intro!: keeps_intros split: option.splits)

section \<open>The contract\<close>

locale session_invariant =
  fixes P :: "tables \<Rightarrow> bool"
  assumes closed: "sql_meaning t q rows t' \<Longrightarrow> data_stmt q \<Longrightarrow> stmt_ok q \<Longrightarrow> P t \<Longrightarrow> P t'"
begin

lemma traffic_keeps: "traffic t t' \<Longrightarrow> P t \<Longrightarrow> P t'"
  by (induction rule: traffic.induct) (auto intro: closed)

lemma prep: "sqlite_shared E \<Longrightarrow> keeps (\<lambda>c. P (db c)) (sql_prepare E q)"
  by (rule keepsI) (auto simp: sql_prepare_def split: prod.split_asm
      intro: traffic_keeps dest: sqlite_shared.shared_prepare)

lemma run:
  assumes "sqlite_shared E" and "data_stmt q" and "stmt_ok q"
  shows "keeps (\<lambda>c. P (db c)) (sql_run E q)"
proof (rule keepsI)
  fix c r c' assume P: "P (db c)" and "sql_run E q c = (r, c')"
  then obtain rows rc where "run_stmt E c q = ((rows, rc), c')" by (auto simp: sql_run_def split: prod.split_asm)
  from sqlite_shared.shared_run[OF assms(1) this assms(2)]
  obtain t1 t2 where "traffic (db c) t1" "t2 = t1 \<or> (\<exists>all. sql_meaning t1 q all t2)" "traffic t2 (db c')"
    by blast
  with P assms(2,3) show "P (db c')" by (blast intro: traffic_keeps closed)
qed

lemma step: "sqlite_shared E \<Longrightarrow> data_stmt q \<Longrightarrow> stmt_ok q \<Longrightarrow> keeps (\<lambda>c. P (db c)) (sql_step E q)"
  unfolding sql_step_def by (rule keeps_cbind[OF run]) (auto split: prod.splits)

text \<open>Functions that read.\<close>

lemma keeps_get_user: "sqlite_shared E \<Longrightarrow> keeps (\<lambda>c. P (db c)) (get_user E uid)"
  unfolding get_user_def Let_def by (intro keeps_intros prep step) simp_all

lemma keeps_get_user_by_username:
  "sqlite_shared E \<Longrightarrow> keeps (\<lambda>c. P (db c)) (get_user_by_username E un)"
  unfolding get_user_by_username_def Let_def by (intro keeps_intros prep step) simp_all

lemma keeps_get_user_inventories:
  "sqlite_shared E \<Longrightarrow> keeps (\<lambda>c. P (db c)) (get_user_inventories E u)"
  unfolding get_user_inventories_def Let_def by (intro keeps_intros prep step) simp_all

lemma keeps_get_order: "sqlite_shared E \<Longrightarrow> keeps (\<lambda>c. P (db c)) (get_order E k)"
  unfolding get_order_def Let_def by (intro keeps_intros prep step) simp_all

lemma keeps_find_matching_buy: "sqlite_shared E \<Longrightarrow> keeps (\<lambda>c. P (db c)) (find_matching_buy E ord)"
  unfolding find_matching_buy_def Let_def by (intro keeps_intros prep step) simp_all

lemma keeps_find_matching_sell: "sqlite_shared E \<Longrightarrow> keeps (\<lambda>c. P (db c)) (find_matching_sell E ord)"
  unfolding find_matching_sell_def Let_def by (intro keeps_intros prep step) simp_all

lemma keeps_get_item_all_orders:
  "sqlite_shared E \<Longrightarrow> keeps (\<lambda>c. P (db c)) (get_item_all_orders E i)"
  unfolding get_item_all_orders_def fetch_top_def by (intro keeps_intros prep run) simp_all

lemma keeps_get_user_all_orders:
  "sqlite_shared E \<Longrightarrow> keeps (\<lambda>c. P (db c)) (get_user_all_orders E uid)"
  unfolding get_user_all_orders_def Let_def by (intro keeps_intros prep run) simp_all

lemma keeps_get_user_archived_orders:
  "sqlite_shared E \<Longrightarrow> keeps (\<lambda>c. P (db c)) (get_user_archived_orders E uid)"
  unfolding get_user_archived_orders_def Let_def by (intro keeps_intros prep run) simp_all

lemma keeps_assign_order_timestamp:
  "sqlite_shared E \<Longrightarrow> keeps (\<lambda>c. P (db c)) (assign_order_timestamp E ord)"
  unfolding assign_order_timestamp_def Let_def by (intro keeps_intros prep step) simp_all

lemma keeps_dump_database: "sqlite_shared E \<Longrightarrow> keeps (\<lambda>c. P (db c)) (dump_database E)"
  unfolding dump_database_def dump_table_def Let_def by (intro keeps_intros prep run) simp_all

text \<open>Functions that write.\<close>

lemma keeps_insert_user:
  "sqlite_shared E \<Longrightarrow> user_ok u \<Longrightarrow> keeps (\<lambda>c. P (db c)) (insert_user E u)"
  unfolding insert_user_def Let_def
  by (intro keeps_intros prep run) (simp_all add: user_ok_def keeps_def)

lemma keeps_update_user_balance:
  "sqlite_shared E \<Longrightarrow> user_ok u \<Longrightarrow> keeps (\<lambda>c. P (db c)) (update_user_balance E u)"
  unfolding update_user_balance_def Let_def
  by (intro keeps_intros prep run) (simp_all add: user_ok_def)

lemma keeps_delete_order: "sqlite_shared E \<Longrightarrow> keeps (\<lambda>c. P (db c)) (delete_order E k)"
  unfolding delete_order_def Let_def by (intro keeps_intros prep run) simp_all

lemma keeps_update_order:
  "sqlite_shared E \<Longrightarrow> order_ints ord \<Longrightarrow> keeps (\<lambda>c. P (db c)) (update_order E ord)"
  unfolding update_order_def Let_def
  by (intro keeps_intros prep run) (simp_all add: order_ints_def)

lemma keeps_insert_archive:
  "sqlite_shared E \<Longrightarrow> order_ints ord \<Longrightarrow> created_at ord \<noteq> None \<Longrightarrow>
   keeps (\<lambda>c. P (db c)) (insert_archive E ord)"
  unfolding insert_archive_def Let_def
  by (intro keeps_intros prep run) (simp_all add: order_ints_def)

lemma keeps_insert_order:
  assumes "sqlite_shared E" and "order_ints ord"
  shows "keeps (\<lambda>c. P (db c)) (insert_order E ord)"
proof -
  have rest: "keeps (\<lambda>c. P (db c)) (cbind (insert_deduct u ord) (\<lambda>u'.
      cbind (update_user_balance E u') (\<lambda>res. if res \<noteq> SQLITE_OK then ret res else ret SQLITE_OK)))"
    if "user_ok u" for u
    by (rule keeps_cbind_post[where Q = user_ok])
      (use that assms(1) in \<open>auto intro: keeps_intros keeps_update_user_balance insert_deduct_ok\<close>)
  show ?thesis
    unfolding insert_order_def Let_def
    by (rule keeps_cbind_post[where Q = "\<lambda>got. \<forall>u. got = Inr u \<longrightarrow> user_ok u"])
      (use assms in \<open>auto simp: order_ints_def dest: get_user_ok
        intro!: keeps_get_user keeps_intros prep run rest\<close>)
qed

end

section \<open>The invariants\<close>

interpretation wf: session_invariant wf_db
  by unfold_locales (rule sql_meaning_wf)

interpretation made: session_invariant created
  by unfold_locales (case_tac q; auto simp: effect_defs)

text \<open>Everything ever archived stays archived.\<close>

definition archived_since :: "order_t list \<Rightarrow> tables \<Rightarrow> bool" where
  "archived_since as t \<longleftrightarrow> prefix as (archives t)"

interpretation archived: session_invariant "archived_since as" for as
  by unfold_locales (case_tac q; auto simp: archived_since_def effect_defs)

text \<open>Every account stays, under its identifier, with its user name, password and name.\<close>

definition credentials :: "user_t \<Rightarrow> int \<times> string \<times> string \<times> string" where
  "credentials u = (userID u, username u, password u, name u)"

definition accounts_since :: "(int \<times> string \<times> string \<times> string) list \<Rightarrow> tables \<Rightarrow> bool" where
  "accounts_since as t \<longleftrightarrow> prefix as (map credentials (users t))"

lemma credentials_change_balance [simp]:
  "map credentials (users (change_balance omg doge btc eth k t)) = map credentials (users t)"
  by (simp add: users_change_balance credentials_def)

interpretation accounts: session_invariant "accounts_since as" for as
  by unfold_locales
    (case_tac q; auto simp: accounts_since_def add_order_def add_user_def add_archive_def
      remove_order_def change_order_def)

text \<open>No identifier is given out twice: an order that is gone stays gone.\<close>

definition gone_since :: "int \<Rightarrow> int \<Rightarrow> tables \<Rightarrow> bool" where
  "gone_since k n t \<longleftrightarrow> n \<le> order_seq t \<and> k \<notin> orderID ` set (orders t)"

interpretation gone: session_invariant "\<lambda>t. k \<le> n \<longrightarrow> gone_since k n t" for k n
  by unfold_locales (case_tac q; auto simp: gone_since_def effect_defs)

text \<open>The counters behind the identifiers never go back.\<close>

definition counted_since :: "tables \<Rightarrow> tables \<Rightarrow> bool" where
  "counted_since t0 t \<longleftrightarrow> user_seq t0 \<le> user_seq t \<and> order_seq t0 \<le> order_seq t \<and> archive_seq t0 \<le> archive_seq t"

interpretation counted: session_invariant "counted_since t0" for t0
  by unfold_locales (case_tac q; auto simp: counted_since_def effect_defs)

lemma counted_refl [simp]: "counted_since t t"
  by (simp add: counted_since_def)

lemma ids_small_before: "counted_since t0 t \<Longrightarrow> ids_small t \<Longrightarrow> ids_small t0"
  by (simp add: counted_since_def ids_small_def)

text \<open>
  What other sessions may do is also all that a session does: the traffic that the contract of a shared
  engine allows is an invariant, so it may be assumed of every session beside this one.
\<close>

interpretation flow: session_invariant "traffic t0" for t0
  by unfold_locales (blast intro: statement)

lemma flow_counted: "traffic t t' \<Longrightarrow> counted_since t t'"
  by (erule counted.traffic_keeps) simp

lemma flow_account:
  assumes "traffic t t'" and "u \<in> set (users t)"
  shows "\<exists>v \<in> set (users t'). credentials v = credentials u"
proof -
  have "accounts_since (map credentials (users t)) t'"
    using accounts.traffic_keeps[OF assms(1)] by (simp add: accounts_since_def)
  then have "set (map credentials (users t)) \<subseteq> set (map credentials (users t'))"
    unfolding accounts_since_def by (rule set_mono_prefix)
  then have "credentials u \<in> set (map credentials (users t'))" using assms(2) by auto
  then show ?thesis by auto
qed

end
