(* ===== verification/Command.thy ===== *)
theory Command
  imports Invariants
begin

text \<open>
  command.c, one definition per function: the commands of the marketplace, between the text of a
  client and the database. A handler returns its result code; the order it is given is local to the
  caller, which never looks at it again, so its changed fields are not returned. \<open>None\<close> in place of
  an order is the null pointer. \<open>free_order\<close>, \<open>free_user\<close> and \<open>free_order_list\<close>
  only release memory and are in Memory.
\<close>

section \<open>Opening and closing\<close>

definition open_db :: "'w platform \<Rightarrow> 'w sqlite3 \<Rightarrow> int \<times> 'w sqlite3 option" where
  "open_db E file = (case open_database E file of None \<Rightarrow> (- 1, None) | Some c \<Rightarrow> (0, Some c))"

definition init_db :: "'w platform \<Rightarrow> ('w, int) dbprog" where
  "init_db E =
     cbind (drop_all_tables E) (\<lambda>res.
     if res \<noteq> 0 then cbind (close_database E) (\<lambda>_. ret (- 1)) else
     cbind (create_tables E) (\<lambda>res.
     if res \<noteq> 0 then cbind (close_database E) (\<lambda>_. ret (- 1)) else ret 0))"

definition close_db :: "'w platform \<Rightarrow> ('w, int) dbprog" where
  "close_db E = cbind (close_database E) (\<lambda>_. ret 0)"

section \<open>Making orders and users\<close>

definition COIN_of_string :: "string \<Rightarrow> int option" where
  "COIN_of_string s =
     (if strcase_eq s ''omg'' then Some COIN_OMG
      else if strcase_eq s ''doge'' then Some COIN_DOGE
      else if strcase_eq s ''btc'' then Some COIN_BTC
      else if strcase_eq s ''eth'' then Some COIN_ETH
      else None)"

text \<open>
  The order of the command \<open>buy item price quantity\<close>, or of \<open>sell\<close>, and what is printed on standard
  output. The identifier and the time stamp are not set: they hold what the allocated memory held.
\<close>

definition create_order_from_string ::
  "'w platform \<Rightarrow> string_array \<Rightarrow> int \<Rightarrow> ('w, order_t option \<times> string) dbprog" where
  "create_order_from_string E params uid =
     cbind (alloc E sizeof_order) (\<lambda>ok.
     if \<not> ok then ret (None, []) else
     cbind (fresh_order E) (\<lambda>new_order.
     cbind (sa_get params 2) (\<lambda>price.
     case strtod price of (p, endptr) \<Rightarrow>
     let msg = (if endptr = price then ''Conversion failed for unitPrice'' @ [LF] else []) in
     cbind (sa_get params 1) (\<lambda>coin.
     case COIN_of_string coin of
       None \<Rightarrow> ret (None, msg @ ''Invalid item type: '' @ coin @ [LF])
     | Some i \<Rightarrow>
         cbind (sa_get params 0) (\<lambda>verb.
         cbind (sa_get params 3) (\<lambda>amount.
         case strtol amount of (q, endptr) \<Rightarrow>
         let msg = msg @ (if endptr = amount then ''Conversion failed for quantity'' @ [LF] else []) in
         ret (Some (new_order\<lparr>unitPrice := p, item := i, buyOrSell := if strcase_eq verb ''buy'' then 0 else 1,
           quantity := wrap32 q, ord_userID := uid\<rparr>), msg)))))))"

definition create_order ::
  "'w platform \<Rightarrow> int \<Rightarrow> int \<Rightarrow> int \<Rightarrow> double \<Rightarrow> int \<Rightarrow> ('w, order_t option) dbprog" where
  "create_order E i b q p uid =
     cbind (alloc E sizeof_order) (\<lambda>ok.
     if \<not> ok then ret None
     else cbind (fresh_order E) (\<lambda>new_order.
       ret (Some (new_order\<lparr>item := i, buyOrSell := b, quantity := q, unitPrice := p, ord_userID := uid\<rparr>))))"

text \<open>\<open>sizeof(user)\<close>: an \<open>int\<close> and padding, three pointers, four \<open>int\<close>s.\<close>

definition sizeof_user :: nat where
  "sizeof_user = 48"

definition create_user ::
  "'w platform \<Rightarrow> int \<Rightarrow> string \<Rightarrow> string \<Rightarrow> string \<Rightarrow> int \<Rightarrow> int \<Rightarrow> int \<Rightarrow> int \<Rightarrow> ('w, user_t option) dbprog" where
  "create_user E uid un pw nm omg doge btc eth =
     cbind (alloc E sizeof_user) (\<lambda>ok.
     if \<not> ok then ret None else
     cbind (alloc E (length nm + 1)) (\<lambda>ok.
     if \<not> ok then ret None
     else ret (Some \<lparr>userID = uid, username = un, password = pw, name = nm,
       OMG = omg, DOGE = doge, BTC = btc, ETH = eth\<rparr>)))"

section \<open>Buying and selling\<close>

text \<open>\<open>archive_order\<close>, a plain call of db.c like the other wrappers of the file.\<close>

definition archive_order :: "'w platform \<Rightarrow> order_t \<Rightarrow> ('w, int) dbprog" where
  "archive_order E ord = insert_archive E ord"

text \<open>\<open>u.OMG -= cost\<close> and \<open>u.OMG += cost\<close> for a \<open>double\<close> cost: computed as a \<open>double\<close>, truncated.\<close>

definition pay :: "double \<Rightarrow> user_t \<Rightarrow> ('s, user_t) prog" where
  "pay cost u = cbind (of_option Bad_Double_To_Int (to_cint (dsub (of_cint (OMG u)) cost)))
     (\<lambda>v. ret (u\<lparr>OMG := v\<rparr>))"

definition earn :: "double \<Rightarrow> user_t \<Rightarrow> ('s, user_t) prog" where
  "earn cost u = cbind (of_option Bad_Double_To_Int (to_cint (dadd (of_cint (OMG u)) cost)))
     (\<lambda>v. ret (u\<lparr>OMG := v\<rparr>))"

text \<open>The if-chains over the coin types: \<open>q\<close> coins of type \<open>i\<close> received, or handed over.\<close>

definition credit_coin :: "int \<Rightarrow> int \<Rightarrow> user_t \<Rightarrow> ('s, user_t) prog" where
  "credit_coin i q u =
     (if i = COIN_OMG then cbind (cadd (OMG u) q) (\<lambda>v. ret (u\<lparr>OMG := v\<rparr>))
      else if i = COIN_DOGE then cbind (cadd (DOGE u) q) (\<lambda>v. ret (u\<lparr>DOGE := v\<rparr>))
      else if i = COIN_BTC then cbind (cadd (BTC u) q) (\<lambda>v. ret (u\<lparr>BTC := v\<rparr>))
      else if i = COIN_ETH then cbind (cadd (ETH u) q) (\<lambda>v. ret (u\<lparr>ETH := v\<rparr>))
      else ret u)"

definition debit_coin :: "int \<Rightarrow> int \<Rightarrow> user_t \<Rightarrow> ('s, user_t) prog" where
  "debit_coin i q u =
     (if i = COIN_OMG then cbind (csub (OMG u) q) (\<lambda>v. ret (u\<lparr>OMG := v\<rparr>))
      else if i = COIN_DOGE then cbind (csub (DOGE u) q) (\<lambda>v. ret (u\<lparr>DOGE := v\<rparr>))
      else if i = COIN_BTC then cbind (csub (BTC u) q) (\<lambda>v. ret (u\<lparr>BTC := v\<rparr>))
      else if i = COIN_ETH then cbind (csub (ETH u) q) (\<lambda>v. ret (u\<lparr>ETH := v\<rparr>))
      else ret u)"

text \<open>The quantity traded, and what it costs at the price of the order that was there first.\<close>

definition trade_quantity :: "order_t \<Rightarrow> order_t \<Rightarrow> int" where
  "trade_quantity ord m = (if quantity m < quantity ord then quantity m else quantity ord)"

definition trade_cost :: "order_t \<Rightarrow> order_t \<Rightarrow> double" where
  "trade_cost ord m = dmul (of_cint (trade_quantity ord m)) (unitPrice m)"

text \<open>Both handlers end alike: the matched order is deleted or reduced, the rest of the new one inserted.\<close>

definition finish_trade :: "'w platform \<Rightarrow> order_t \<Rightarrow> order_t \<Rightarrow> ('w, int) dbprog" where
  "finish_trade E ord m =
     cbind (if quantity m = 0 then delete_order E (orderID m) else update_order E m) (\<lambda>res.
     if res \<noteq> 0 then ret (- 1) else
     cbind (if 0 < quantity ord then insert_order E ord else ret 0) (\<lambda>res.
     if res \<noteq> 0 then ret (- 1) else ret 0))"

text \<open>
  \<open>buy\<close> from the point where the matching order \<open>m\<close> has been read: \<open>u\<close> is the buyer as read before.
\<close>

definition buy_match :: "'w platform \<Rightarrow> user_t \<Rightarrow> order_t \<Rightarrow> order_t \<Rightarrow> ('w, int) dbprog" where
  "buy_match E u ord m =
     cbind (assign_order_timestamp E ord) (\<lambda>got.
     case got of Inl _ \<Rightarrow> ret (- 1) | Inr ord \<Rightarrow>
     cbind (archive_order E m) (\<lambda>res. if res \<noteq> 0 then ret (- 1) else
     cbind (archive_order E ord) (\<lambda>res. if res \<noteq> 0 then ret (- 1) else
     let tq = trade_quantity ord m; cost = trade_cost ord m in
     cbind (csub (quantity ord) tq) (\<lambda>oq.
     cbind (csub (quantity m) tq) (\<lambda>mq.
     cbind (pay cost u) (\<lambda>u.
     cbind (credit_coin (item ord) tq u) (\<lambda>u.
     cbind (update_user_balance E u) (\<lambda>res. if res \<noteq> 0 then ret (- 1) else
     cbind (get_user E (ord_userID m)) (\<lambda>got.
     case got of Inl _ \<Rightarrow> ret (- 1) | Inr v \<Rightarrow>
     cbind (earn cost v) (\<lambda>v.
     cbind (debit_coin (item m) tq v) (\<lambda>v.
     cbind (update_user_balance E v) (\<lambda>res. if res \<noteq> 0 then ret (- 1) else
     finish_trade E (ord\<lparr>quantity := oq\<rparr>) (m\<lparr>quantity := mq\<rparr>)))))))))))))"

definition buy :: "'w platform \<Rightarrow> order_t option \<Rightarrow> ('w, int) dbprog" where
  "buy E p =
     cbind (of_option Bad_Pointer p) (\<lambda>ord.
     cbind (get_user E (ord_userID ord)) (\<lambda>got.
     case got of Inl _ \<Rightarrow> ret (- 1) | Inr u \<Rightarrow>
     if dlt (of_cint (OMG u)) (dmul (of_cint (quantity ord)) (unitPrice ord)) then ret (- 1) else
     cbind (find_matching_sell E ord) (\<lambda>result.
     if result = - 1 then insert_order E ord else
     cbind (get_order E result) (\<lambda>got.
     case got of Inl _ \<Rightarrow> ret (- 1) | Inr m \<Rightarrow> buy_match E u ord m))))"

text \<open>The mirror image: \<open>u\<close> is the seller.\<close>

definition sell_match :: "'w platform \<Rightarrow> user_t \<Rightarrow> order_t \<Rightarrow> order_t \<Rightarrow> ('w, int) dbprog" where
  "sell_match E u ord m =
     cbind (assign_order_timestamp E ord) (\<lambda>got.
     case got of Inl _ \<Rightarrow> ret (- 1) | Inr ord \<Rightarrow>
     cbind (archive_order E m) (\<lambda>res. if res \<noteq> 0 then ret (- 1) else
     cbind (archive_order E ord) (\<lambda>res. if res \<noteq> 0 then ret (- 1) else
     let tq = trade_quantity ord m; cost = trade_cost ord m in
     cbind (csub (quantity ord) tq) (\<lambda>oq.
     cbind (csub (quantity m) tq) (\<lambda>mq.
     cbind (debit_coin (item ord) tq u) (\<lambda>u.
     cbind (earn cost u) (\<lambda>u.
     cbind (update_user_balance E u) (\<lambda>res. if res \<noteq> 0 then ret (- 1) else
     cbind (get_user E (ord_userID m)) (\<lambda>got.
     case got of Inl _ \<Rightarrow> ret (- 1) | Inr v \<Rightarrow>
     cbind (pay cost v) (\<lambda>v.
     cbind (credit_coin (item m) tq v) (\<lambda>v.
     cbind (update_user_balance E v) (\<lambda>res. if res \<noteq> 0 then ret (- 1) else
     finish_trade E (ord\<lparr>quantity := oq\<rparr>) (m\<lparr>quantity := mq\<rparr>)))))))))))))"

text \<open>The balance check of \<open>sell\<close>: has the seller too little of what is on offer?\<close>

definition lacks_coins :: "user_t \<Rightarrow> order_t \<Rightarrow> bool" where
  "lacks_coins u ord \<longleftrightarrow>
     item ord = COIN_OMG \<and> OMG u < quantity ord \<or>
     item ord = COIN_DOGE \<and> DOGE u < quantity ord \<or>
     item ord = COIN_BTC \<and> BTC u < quantity ord \<or>
     item ord = COIN_ETH \<and> ETH u < quantity ord"

definition sell :: "'w platform \<Rightarrow> order_t option \<Rightarrow> ('w, int) dbprog" where
  "sell E p =
     cbind (of_option Bad_Pointer p) (\<lambda>ord.
     cbind (get_user E (ord_userID ord)) (\<lambda>got.
     case got of Inl _ \<Rightarrow> ret (- 1) | Inr u \<Rightarrow>
     if lacks_coins u ord then ret (- 1) else
     cbind (find_matching_buy E ord) (\<lambda>result.
     if result = - 1 then insert_order E ord else
     cbind (get_order E result) (\<lambda>got.
     case got of Inl _ \<Rightarrow> ret (- 1) | Inr m \<Rightarrow> sell_match E u ord m))))"

section \<open>Looking at orders, and taking them back\<close>

text \<open>The lists that the out parameters hold afterwards; a failure leaves none.\<close>

definition my_orders :: "'w platform \<Rightarrow> int \<Rightarrow> ('w, order_t list) dbprog" where
  "my_orders E uid = cbind (get_user_all_orders E uid)
     (\<lambda>(result, ords). ret (if result \<noteq> SQLITE_OK then [] else ords))"

definition view_item_orders :: "'w platform \<Rightarrow> int \<Rightarrow> ('w, order_t list \<times> order_t list) dbprog" where
  "view_item_orders E i = cbind (get_item_all_orders E i)
     (\<lambda>got. case got of Inl _ \<Rightarrow> ret ([], []) | Inr both \<Rightarrow> ret both)"

definition get_user_inventory :: "'w platform \<Rightarrow> user_t \<Rightarrow> ('w, int + user_t) dbprog" where
  "get_user_inventory E u = get_user_inventories E u"

definition get_user_with_username :: "'w platform \<Rightarrow> string \<Rightarrow> ('w, int + user_t) dbprog" where
  "get_user_with_username E un = get_user_by_username E un"

definition get_archived_orders :: "'w platform \<Rightarrow> int \<Rightarrow> ('w, order_t list) dbprog" where
  "get_archived_orders E uid = cbind (get_user_archived_orders E uid)
     (\<lambda>got. case got of Inl _ \<Rightarrow> ret [] | Inr ords \<Rightarrow> ret ords)"

definition cancel_order :: "'w platform \<Rightarrow> int \<Rightarrow> int \<Rightarrow> ('w, int) dbprog" where
  "cancel_order E k currentUserID =
     cbind (get_order E k) (\<lambda>got.
     case got of Inl _ \<Rightarrow> ret (- 1) | Inr ord \<Rightarrow>
     if ord_userID ord \<noteq> currentUserID then ret (- 1) else
     cbind (get_user E (ord_userID ord)) (\<lambda>got.
     case got of Inl _ \<Rightarrow> ret (- 1) | Inr u \<Rightarrow>
     cbind (if buyOrSell ord = 0
            then earn (dmul (of_cint (quantity ord)) (unitPrice ord)) u
            else credit_coin (item ord) (quantity ord) u) (\<lambda>u.
     cbind (update_user_balance E u) (\<lambda>res. if res \<noteq> 0 then ret (- 1) else
     cbind (delete_order E k) (\<lambda>res. if res \<noteq> 0 then ret (- 1) else ret 0)))))"

section \<open>What every command keeps\<close>

lemma keeps_pay [keeps_intros]: "keeps P (pay cost u)" and keeps_earn [keeps_intros]: "keeps P (earn cost u)"
  unfolding pay_def earn_def by (intro keeps_intros)+

lemma keeps_credit_coin [keeps_intros]: "keeps P (credit_coin i q u)"
  and keeps_debit_coin [keeps_intros]: "keeps P (debit_coin i q u)"
  unfolding credit_coin_def debit_coin_def by (intro keeps_intros)+

lemma pay_ok: "user_ok u \<Longrightarrow> pay cost u c = (Inr v, c') \<Longrightarrow> user_ok v"
  and earn_ok: "user_ok u \<Longrightarrow> earn cost u c = (Inr v, c') \<Longrightarrow> user_ok v"
  by (auto simp: pay_def earn_def run_iffs user_ok_def dest: to_cint_int32)

lemma credit_coin_ok: "user_ok u \<Longrightarrow> credit_coin i q u c = (Inr v, c') \<Longrightarrow> user_ok v"
  and debit_coin_ok: "user_ok u \<Longrightarrow> debit_coin i q u c = (Inr v, c') \<Longrightarrow> user_ok v"
  by (auto simp: credit_coin_def debit_coin_def run_iffs user_ok_def split: if_splits)

lemma assign_order_timestamp_ints:
  "assign_order_timestamp E ord c = (Inr (Inr x), c') \<Longrightarrow> order_ints ord \<Longrightarrow>
   order_ints x \<and> created_at x \<noteq> None"
  unfolding assign_order_timestamp_def Let_def
  by (auto simp: of_option_Inr_iff order_ints_def elim!: cbindE split: if_splits sum.split_asm)

text \<open>The same facts as rules for the rest of the handler, which may rely on them.\<close>

lemma keeps_csub_bind:
  "(\<And>v. in_int32 v \<Longrightarrow> keeps P (f v)) \<Longrightarrow> keeps P (cbind (csub a b) f)"
  by (rule keeps_cbind_post[where Q = in_int32]) (auto simp: csub_Inr_iff)

lemma keeps_user_binds:
  assumes "user_ok u" and "\<And>v. user_ok v \<Longrightarrow> keeps P (f v)"
  shows "keeps P (cbind (pay cost u) f)" and "keeps P (cbind (earn cost u) f)"
    and "keeps P (cbind (credit_coin i q u) f)" and "keeps P (cbind (debit_coin i q u) f)"
  by (rule keeps_cbind_post[where Q = user_ok];
      use assms in \<open>blast intro: keeps_intros pay_ok earn_ok credit_coin_ok debit_coin_ok\<close>)+

context session_invariant
begin

lemma keeps_get_user_bind:
  "sqlite_shared E \<Longrightarrow> (\<And>rc. keeps (\<lambda>c. P (db c)) (f (Inl rc))) \<Longrightarrow>
   (\<And>u. user_ok u \<Longrightarrow> keeps (\<lambda>c. P (db c)) (f (Inr u))) \<Longrightarrow>
   keeps (\<lambda>c. P (db c)) (cbind (get_user E uid) f)"
  by (rule keeps_cbind_post[where Q = "\<lambda>got. \<forall>u. got = Inr u \<longrightarrow> user_ok u"])
    (auto intro: keeps_get_user dest: get_user_ok split: sum.split_asm elim: sumE, metis sum.exhaust)

lemma keeps_get_order_bind:
  "sqlite_shared E \<Longrightarrow> (\<And>rc. keeps (\<lambda>c. P (db c)) (f (Inl rc))) \<Longrightarrow>
   (\<And>m. order_ints m \<Longrightarrow> created_at m \<noteq> None \<Longrightarrow> keeps (\<lambda>c. P (db c)) (f (Inr m))) \<Longrightarrow>
   keeps (\<lambda>c. P (db c)) (cbind (get_order E k) f)"
  by (rule keeps_cbind_post[where Q = "\<lambda>got. \<forall>m. got = Inr m \<longrightarrow> order_ints m \<and> created_at m \<noteq> None"])
    (auto intro: keeps_get_order dest: get_order_ints, metis sum.exhaust not_None_eq)

lemma keeps_timestamp_bind:
  "sqlite_shared E \<Longrightarrow> order_ints ord \<Longrightarrow> (\<And>rc. keeps (\<lambda>c. P (db c)) (f (Inl rc))) \<Longrightarrow>
   (\<And>m. order_ints m \<Longrightarrow> created_at m \<noteq> None \<Longrightarrow> keeps (\<lambda>c. P (db c)) (f (Inr m))) \<Longrightarrow>
   keeps (\<lambda>c. P (db c)) (cbind (assign_order_timestamp E ord) f)"
  by (rule keeps_cbind_post[where Q = "\<lambda>got. \<forall>m. got = Inr m \<longrightarrow> order_ints m \<and> created_at m \<noteq> None"])
    (auto intro: keeps_assign_order_timestamp dest: assign_order_timestamp_ints, metis sum.exhaust not_None_eq)

lemma keeps_archive_order:
  "sqlite_shared E \<Longrightarrow> order_ints ord \<Longrightarrow> created_at ord \<noteq> None \<Longrightarrow>
   keeps (\<lambda>c. P (db c)) (archive_order E ord)"
  unfolding archive_order_def by (rule keeps_insert_archive)

lemma keeps_finish_trade:
  "sqlite_shared E \<Longrightarrow> order_ints ord \<Longrightarrow> order_ints m \<Longrightarrow> keeps (\<lambda>c. P (db c)) (finish_trade E ord m)"
  unfolding finish_trade_def
  by (intro keeps_intros keeps_delete_order keeps_update_order keeps_insert_order) simp_all

lemmas keeps_handler = keeps_csub_bind keeps_user_binds keeps_get_user_bind keeps_get_order_bind
  keeps_timestamp_bind keeps_archive_order keeps_finish_trade keeps_update_user_balance
  keeps_delete_order keeps_insert_order keeps_find_matching_buy keeps_find_matching_sell keeps_intros

lemma keeps_buy_match:
  "sqlite_shared E \<Longrightarrow> user_ok u \<Longrightarrow> order_ints ord \<Longrightarrow> order_ints m \<Longrightarrow> created_at m \<noteq> None \<Longrightarrow>
   keeps (\<lambda>c. P (db c)) (buy_match E u ord m)"
  unfolding buy_match_def Let_def by (intro keeps_handler; simp add: order_ints_def)

lemma keeps_sell_match:
  "sqlite_shared E \<Longrightarrow> user_ok u \<Longrightarrow> order_ints ord \<Longrightarrow> order_ints m \<Longrightarrow> created_at m \<noteq> None \<Longrightarrow>
   keeps (\<lambda>c. P (db c)) (sell_match E u ord m)"
  unfolding sell_match_def Let_def by (intro keeps_handler; simp add: order_ints_def)

lemma keeps_buy:
  "sqlite_shared E \<Longrightarrow> order_ints ord \<Longrightarrow> keeps (\<lambda>c. P (db c)) (buy E (Some ord))"
  unfolding buy_def of_option_simps cbind_ret by (intro keeps_handler keeps_buy_match; simp)

lemma keeps_sell:
  "sqlite_shared E \<Longrightarrow> order_ints ord \<Longrightarrow> keeps (\<lambda>c. P (db c)) (sell E (Some ord))"
  unfolding sell_def of_option_simps cbind_ret by (intro keeps_handler keeps_sell_match; simp)

lemma keeps_cancel_order:
  assumes E: "sqlite_shared E"
  shows "keeps (\<lambda>c. P (db c)) (cancel_order E k uid)"
proof -
  have rest: "keeps (\<lambda>c. P (db c)) (cbind (update_user_balance E u)
      (\<lambda>res. if res \<noteq> 0 then ret (- 1) else cbind (delete_order E k)
      (\<lambda>res. if res \<noteq> 0 then ret (- 1) else ret 0)))" if "user_ok u" for u
    using E that by (intro keeps_handler)
  have refund: "keeps (\<lambda>c. P (db c)) (cbind (if b then earn p u else credit_coin i q u)
      (\<lambda>u. cbind (update_user_balance E u) (\<lambda>res. if res \<noteq> 0 then ret (- 1) else
        cbind (delete_order E k) (\<lambda>res. if res \<noteq> 0 then ret (- 1) else ret 0))))"
    if "user_ok u" for b p u i q
    using keeps_user_binds(2,3)[OF that rest] by (cases b) simp_all
  show ?thesis
    unfolding cancel_order_def
    by (intro keeps_get_order_bind keeps_sum keeps_if keeps_get_user_bind) (simp_all add: E refund)
qed

text \<open>The commands that only look.\<close>

lemma keeps_my_orders: "sqlite_shared E \<Longrightarrow> keeps (\<lambda>c. P (db c)) (my_orders E uid)"
  unfolding my_orders_def by (intro keeps_intros keeps_get_user_all_orders)

lemma keeps_view_item_orders: "sqlite_shared E \<Longrightarrow> keeps (\<lambda>c. P (db c)) (view_item_orders E i)"
  unfolding view_item_orders_def by (intro keeps_intros keeps_get_item_all_orders)

lemma keeps_get_archived_orders: "sqlite_shared E \<Longrightarrow> keeps (\<lambda>c. P (db c)) (get_archived_orders E uid)"
  unfolding get_archived_orders_def by (intro keeps_intros keeps_get_user_archived_orders)

end

end
