(* ===== verification/Market.thy ===== *)
theory Market
  imports Command
begin

text \<open>
  What the marketplace promises, apart from how command.c and db.c do it: accounts and open orders as
  maps from identifiers, the history of archived orders, and one relation \<open>market_step\<close> for the
  orders that rest in the book, those that trade and those that are taken back. The amounts are those
  of the code: a cost is a rounded \<open>double\<close>, truncated where it is stored into an \<open>int\<close>. Below, every
  command that reports success is shown to be a step of this market.
\<close>

section \<open>Coins\<close>

definition coins :: "int \<Rightarrow> user_t \<Rightarrow> int" where
  "coins i u = (if i = COIN_OMG then OMG u else if i = COIN_DOGE then DOGE u
     else if i = COIN_BTC then BTC u else if i = COIN_ETH then ETH u else 0)"

definition gain :: "int \<Rightarrow> int \<Rightarrow> user_t \<Rightarrow> user_t" where
  "gain i n u = (if i = COIN_OMG then u\<lparr>OMG := OMG u + n\<rparr> else if i = COIN_DOGE then u\<lparr>DOGE := DOGE u + n\<rparr>
     else if i = COIN_BTC then u\<lparr>BTC := BTC u + n\<rparr> else if i = COIN_ETH then u\<lparr>ETH := ETH u + n\<rparr> else u)"

definition paid :: "double \<Rightarrow> user_t \<Rightarrow> user_t option" where
  "paid cost u = map_option (\<lambda>v. u\<lparr>OMG := v\<rparr>) (to_cint (dsub (of_cint (OMG u)) cost))"

definition earned :: "double \<Rightarrow> user_t \<Rightarrow> user_t option" where
  "earned cost u = map_option (\<lambda>v. u\<lparr>OMG := v\<rparr>) (to_cint (dadd (of_cint (OMG u)) cost))"

text \<open>The coins an order locks up while it is open, if the amount is an \<open>int\<close>.\<close>

definition order_cost :: "order_t \<Rightarrow> int option" where
  "order_cost r = to_cint (dmul (of_cint (quantity r)) (unitPrice r))"

definition lock :: "order_t \<Rightarrow> (int \<times> int) option" where
  "lock r = (if buyOrSell r = BUY then map_option (Pair COIN_OMG) (order_cost r)
     else if item r \<in> {COIN_DOGE, COIN_BTC, COIN_ETH} then Some (item r, quantity r) else None)"

section \<open>The market\<close>

record market =
  acct :: "int \<Rightarrow> user_t option"
  book :: "int \<Rightarrow> order_t option"
  hist :: "order_t list"

text \<open>The tables seen as a market; the numbers of the archive are hidden.\<close>

definition hide :: "order_t \<Rightarrow> order_t" where
  "hide r = r\<lparr>orderID := 0\<rparr>"

definition market_of :: "tables \<Rightarrow> market" where
  "market_of t = \<lparr>acct = (\<lambda>k. find (\<lambda>u. userID u = k) (users t)),
     book = (\<lambda>k. find (\<lambda>r. orderID r = k) (orders t)), hist = map hide (archives t)\<rparr>"

text \<open>What the owner of an order has to have: its rounded cost in OMG, or the coins that are for sale.\<close>

definition affordable :: "order_t \<Rightarrow> user_t \<Rightarrow> bool" where
  "affordable ord u \<longleftrightarrow> (if buyOrSell ord = BUY
     then \<not> dlt (of_cint (OMG u)) (dmul (of_cint (quantity ord)) (unitPrice ord))
     else item ord \<in> {COIN_OMG, COIN_DOGE, COIN_BTC, COIN_ETH} \<longrightarrow> quantity ord \<le> coins (item ord) u)"

text \<open>What a trade is about: the smaller quantity, at the price of the order that was there first.\<close>

definition deal_quantity :: "order_t \<Rightarrow> order_t \<Rightarrow> int" where
  "deal_quantity ord m = min (quantity ord) (quantity m)"

definition deal_cost :: "order_t \<Rightarrow> order_t \<Rightarrow> double" where
  "deal_cost ord m = dmul (of_cint (deal_quantity ord m)) (unitPrice m)"

text \<open>The open orders that can fill \<open>ord\<close>: other side, same coin, a price both accept, another user.\<close>

definition fills :: "order_t \<Rightarrow> order_t \<Rightarrow> bool" where
  "fills m ord \<longleftrightarrow> item m = item ord \<and> ord_userID m \<noteq> ord_userID ord \<and>
     (if buyOrSell ord = BUY then buyOrSell m = SELL \<and> dle (unitPrice m) (unitPrice ord)
      else buyOrSell m = BUY \<and> dle (unitPrice ord) (unitPrice m))"

definition best_fill :: "market \<Rightarrow> order_t \<Rightarrow> order_t \<Rightarrow> bool" where
  "best_fill M ord m \<longleftrightarrow> book M (orderID m) = Some m \<and> fills m ord \<and>
     (\<forall>x \<in> ran (book M). fills x ord \<longrightarrow> older m x)"

text \<open>An order that rests: its coins are locked, and it enters the book under a new identifier.\<close>

definition place :: "order_t \<Rightarrow> int \<Rightarrow> string \<Rightarrow> market \<Rightarrow> market option" where
  "place ord k ts M = do {
     u \<leftarrow> acct M (ord_userID ord);
     (i, n) \<leftarrow> lock ord;
     if n \<le> coins i u \<and> k \<notin> dom (book M)
     then Some (M\<lparr>acct := (acct M)(ord_userID ord \<mapsto> gain i (- n) u),
       book := (book M)(k \<mapsto> ord\<lparr>orderID := k, created_at := Some ts\<rparr>)\<rparr>)
     else None }"

text \<open>
  The two accounts of a trade. The party that comes with the new order is settled from what it had
  when it came, the other party from what it has.
\<close>

definition buyer_after :: "double \<Rightarrow> int \<Rightarrow> int \<Rightarrow> user_t \<Rightarrow> user_t option" where
  "buyer_after cost i n u = map_option (gain i n) (paid cost u)"

definition seller_after :: "bool \<Rightarrow> double \<Rightarrow> int \<Rightarrow> int \<Rightarrow> user_t \<Rightarrow> user_t option" where
  "seller_after rested cost i n u =
     (if rested then map_option (gain i (- n)) (earned cost u) else earned cost (gain i (- n) u))"

text \<open>A trade of \<open>ord\<close>, new, with \<open>m\<close> from the book.\<close>

definition settle :: "order_t \<Rightarrow> order_t \<Rightarrow> string \<Rightarrow> market \<Rightarrow> market option" where
  "settle ord m ts M = do {
     u \<leftarrow> acct M (ord_userID ord);
     v \<leftarrow> acct M (ord_userID m);
     let n = deal_quantity ord m;
     let cost = deal_cost ord m;
     u' \<leftarrow> (if buyOrSell ord = BUY then buyer_after cost (item ord) n u
           else seller_after False cost (item ord) n u);
     v' \<leftarrow> (if buyOrSell ord = BUY then seller_after True cost (item m) n v
           else buyer_after cost (item m) n v);
     Some (M\<lparr>acct := (acct M)(ord_userID ord \<mapsto> u', ord_userID m \<mapsto> v'),
       book := (book M)(orderID m := (if quantity m = n then None else Some (m\<lparr>quantity := quantity m - n\<rparr>))),
       hist := hist M @ [hide m, hide (ord\<lparr>created_at := Some ts\<rparr>)]\<rparr>) }"

text \<open>What the owner of a cancelled order gets back.\<close>

definition refunded :: "order_t \<Rightarrow> user_t \<Rightarrow> user_t option" where
  "refunded r u = (if buyOrSell r = BUY then earned (dmul (of_cint (quantity r)) (unitPrice r)) u
     else Some (gain (item r) (quantity r) u))"

datatype action = Post order_t | Cancel int int

inductive market_step :: "action \<Rightarrow> market \<Rightarrow> market \<Rightarrow> bool" where
  Rests: "acct M (ord_userID ord) = Some u \<Longrightarrow> affordable ord u \<Longrightarrow>
    (\<forall>m \<in> ran (book M). \<not> fills m ord) \<Longrightarrow> place ord k ts M = Some M' \<Longrightarrow> market_step (Post ord) M M'"
| Fills: "acct M (ord_userID ord) = Some u \<Longrightarrow> affordable ord u \<Longrightarrow> best_fill M ord m \<Longrightarrow>
    settle ord m ts M = Some M' \<Longrightarrow> quantity ord \<le> quantity m \<Longrightarrow> market_step (Post ord) M M'"
| Fills_part: "acct M (ord_userID ord) = Some u \<Longrightarrow> affordable ord u \<Longrightarrow> best_fill M ord m \<Longrightarrow>
    settle ord m ts M = Some M1 \<Longrightarrow> quantity m < quantity ord \<Longrightarrow>
    place (ord\<lparr>quantity := quantity ord - quantity m\<rparr>) k ts' M1 = Some M' \<Longrightarrow> market_step (Post ord) M M'"
| Cancels: "book M k = Some r \<Longrightarrow> ord_userID r = uid \<Longrightarrow> acct M uid = Some u \<Longrightarrow> refunded r u = Some u' \<Longrightarrow>
    M' = M\<lparr>acct := (acct M)(uid \<mapsto> u'), book := (book M)(k := None)\<rparr> \<Longrightarrow>
    market_step (Cancel uid k) M M'"

inductive_cases market_stepE [elim]: "market_step (Post ord) M M'" "market_step (Cancel uid k) M M'"

text \<open>The checks and amounts that command.c computes are those of the market.\<close>

lemma affordable_iff: "affordable ord u \<longleftrightarrow> (if buyOrSell ord = BUY
    then \<not> dlt (of_cint (OMG u)) (dmul (of_cint (quantity ord)) (unitPrice ord)) else \<not> lacks_coins u ord)"
  by (auto simp: affordable_def lacks_coins_def coins_def)

lemma deal_eq: "deal_quantity ord m = trade_quantity ord m" "deal_cost ord m = trade_cost ord m"
  by (auto simp: deal_quantity_def deal_cost_def trade_quantity_def trade_cost_def min_def)

section \<open>The tables as a market\<close>

lemma find_key: "keyed key n xs \<Longrightarrow> x \<in> set xs \<Longrightarrow> key x = k \<Longrightarrow> find (\<lambda>x. key x = k) xs = Some x"
proof -
  assume keyed: "keyed key n xs" and x: "x \<in> set xs" "key x = k"
  then obtain y where "find (\<lambda>x. key x = k) xs = Some y" by (metis (mono_tags) find_None_iff not_Some_eq)
  moreover from this have "y \<in> set xs" "key y = k" by (auto simp: find_Some_iff)
  ultimately show ?thesis using keyed x by (metis distinct_key_unique keyed_def)
qed

lemma find_keyD: "find (\<lambda>x. key x = k) xs = Some x \<Longrightarrow> x \<in> set xs \<and> key x = k"
  by (auto simp: find_Some_iff)

text \<open>Of a well-formed database the market only needs the keys.\<close>

definition keys_ok :: "tables \<Rightarrow> bool" where
  "keys_ok t \<longleftrightarrow> keyed userID (user_seq t) (users t) \<and> keyed orderID (order_seq t) (orders t)"

lemma wf_keys [simp, intro]: "wf_db t \<Longrightarrow> keys_ok t"
  by (simp add: keys_ok_def wf_db_def)

lemma acct_iff: "keys_ok t \<Longrightarrow> acct (market_of t) k = Some u \<longleftrightarrow> u \<in> set (users t) \<and> userID u = k"
  by (auto simp: market_of_def keys_ok_def dest: find_keyD intro: find_key)

lemma book_iff: "keys_ok t \<Longrightarrow> book (market_of t) k = Some r \<longleftrightarrow> r \<in> set (orders t) \<and> orderID r = k"
  by (auto simp: market_of_def keys_ok_def dest: find_keyD intro: find_key)

lemma ran_book: "keys_ok t \<Longrightarrow> ran (book (market_of t)) = set (orders t)"
  by (auto simp: ran_def book_iff)

definition set_user :: "user_t \<Rightarrow> tables \<Rightarrow> tables" where
  "set_user u t = change_balance (OMG u) (DOGE u) (BTC u) (ETH u) (userID u) t"

lemma find_update:
  "(\<And>x. key (f x) = key x) \<Longrightarrow>
   find (\<lambda>x. key x = j) (map (\<lambda>x. if key x = k then f x else x) xs) =
   (if j = k then map_option f (find (\<lambda>x. key x = j) xs) else find (\<lambda>x. key x = j) xs)"
  by (induction xs) auto

lemma find_filter: "find (\<lambda>x. key x = j) (filter (\<lambda>x. key x \<noteq> k) xs) =
   (if j = k then None else find (\<lambda>x. key x = j) xs)"
  by (induction xs) auto

lemma find_append: "find p (xs @ ys) = (case find p xs of None \<Rightarrow> find p ys | Some x \<Rightarrow> Some x)"
  by (induction xs) auto

text \<open>What each effect on the tables is on the market.\<close>

lemma market_of_set_user:
  assumes "acct (market_of t) (userID u) = Some v" and "credentials v = credentials u"
  shows "market_of (set_user u t) = (market_of t)\<lparr>acct := (acct (market_of t))(userID u \<mapsto> u)\<rparr>"
proof -
  have v: "v\<lparr>OMG := OMG u, DOGE := DOGE u, BTC := BTC u, ETH := ETH u\<rparr> = u"
    using assms(2) by (simp add: credentials_def)
  show ?thesis
    using assms(1) v
    by (simp add: market_of_def set_user_def users_change_balance find_update fun_eq_iff)
qed

lemma market_of_add_order:
  assumes "keyed orderID (order_seq t) (orders t)"
  shows "market_of (add_order ts i b q p uid t) = (market_of t)\<lparr>book := (book (market_of t))
    (order_seq t + 1 \<mapsto> \<lparr>orderID = order_seq t + 1, item = i, buyOrSell = b, quantity = q,
       ord_userID = uid, unitPrice = p, created_at = Some ts\<rparr>)\<rparr>"
proof -
  have "find (\<lambda>r. orderID r = order_seq t + 1) (orders t) = None"
    using assms by (fastforce simp: find_None_iff keyed_def)
  then show ?thesis
    by (auto simp: market_of_def add_order_def find_append fun_eq_iff split: option.split)
qed

lemma market_of_remove_order:
  "market_of (remove_order k t) = (market_of t)\<lparr>book := (book (market_of t))(k := None)\<rparr>"
  by (simp add: market_of_def remove_order_def find_filter fun_eq_iff)

lemma market_of_change_order:
  assumes "book (market_of t) (orderID m) = Some m"
  shows "market_of (change_order (item m) (buyOrSell m) q (unitPrice m) (ord_userID m) (orderID m) t) =
    (market_of t)\<lparr>book := (book (market_of t))(orderID m \<mapsto> m\<lparr>quantity := q\<rparr>)\<rparr>"
  using assms by (simp add: market_of_def change_order_def find_update fun_eq_iff)

lemma market_of_add_archive:
  "market_of (add_archive (item r) (buyOrSell r) (quantity r) (unitPrice r) (ord_userID r) (created_at r) t) =
   (market_of t)\<lparr>hist := hist (market_of t) @ [hide r]\<rparr>"
  by (simp add: market_of_def add_archive_def hide_def)

lemma fresh_order_key: "keys_ok t \<Longrightarrow> order_seq t + 1 \<notin> dom (book (market_of t))"
  by (fastforce simp: book_iff keys_ok_def keyed_def)

text \<open>The effects keep the keys.\<close>

lemma keys_ok_set_user [simp, intro]: "keys_ok t \<Longrightarrow> keys_ok (set_user u t)"
  by (simp add: keys_ok_def set_user_def users_change_balance keyed_update)

lemma keys_ok_add_order [simp, intro]: "keys_ok t \<Longrightarrow> keys_ok (add_order ts i b q p uid t)"
  by (simp add: keys_ok_def add_order_def keyed_snoc)

lemma keys_ok_add_archive [simp, intro]: "keys_ok t \<Longrightarrow> keys_ok (add_archive i b q p uid ts t)"
  by (simp add: keys_ok_def add_archive_def)

lemma keys_ok_remove_order [simp, intro]: "keys_ok t \<Longrightarrow> keys_ok (remove_order k t)"
  by (simp add: keys_ok_def remove_order_def keyed_filter)

lemma keys_ok_change_order [simp, intro]: "keys_ok t \<Longrightarrow> keys_ok (change_order i b q p uid k t)"
  by (simp add: keys_ok_def change_order_def keyed_update)

end
