(* ===== verification/Effects.thy ===== *)
theory Effects
  imports Market
begin

text \<open>
  What the commands do to the tables when they come to their end: an order is \<open>placed\<close>, \<open>cancelled\<close> or
  \<open>traded\<close>. Each is shown to be a step of the market, or a part of one; that the code has these effects
  is in Failures and Outcomes, and put together in Refinement.
\<close>

section \<open>Placing an order\<close>

lemma int_cost_order_cost: "int_cost ord = of_option Bad_Double_To_Int (order_cost ord)"
  by (simp add: int_cost_def order_cost_def)

lemma insert_check_0:
  assumes "insert_check u ord c = (Inr 0, c')" and "buyOrSell ord \<in> {BUY, SELL}"
  shows "c' = c \<and> (\<exists>i n. lock ord = Some (i, n) \<and> n \<le> coins i u)"
proof (cases "buyOrSell ord = 0")
  case True
  then obtain n where "order_cost ord = Some n" "(if OMG u < n then SQLITE_ERROR else SQLITE_OK) = 0" "c' = c"
    using assms(1) by (auto simp: insert_check_def int_cost_order_cost run_iffs)
  with True show ?thesis by (auto simp: lock_def coins_def split: if_splits)
next
  case False
  with assms show ?thesis
    by (auto simp: insert_check_def lock_def coins_def split: if_split_asm)
qed

lemma insert_deduct_lock:
  assumes "insert_deduct u ord c = (Inr u', c')" and "buyOrSell ord \<in> {BUY, SELL}"
    and "lock ord = Some (i, n)"
  shows "c' = c \<and> u' = gain i (- n) u"
proof (cases "buyOrSell ord = 0")
  case True
  with assms(3) have "order_cost ord = Some n" "i = 0" by (auto simp: lock_def)
  with True assms(1) show ?thesis
    by (simp add: insert_deduct_def int_cost_order_cost gain_def cbind_Inr_iff csub_Inr_iff)
next
  case False
  with assms have "item ord \<in> {1, 2, 3}" "i = item ord" "n = quantity ord"
    by (auto simp: lock_def split: if_split_asm)
  with False assms(1,2) show ?thesis
    by (auto simp: insert_deduct_def gain_def cbind_Inr_iff csub_Inr_iff)
qed

text \<open>An order has entered the tables: its coins were there, are locked, and it is the newest order.\<close>

definition placed :: "order_t \<Rightarrow> tables \<Rightarrow> tables \<Rightarrow> bool" where
  "placed ord t t' \<longleftrightarrow> (\<exists>u i n ts. u \<in> set (users t) \<and> userID u = ord_userID ord \<and>
     lock ord = Some (i, n) \<and> n \<le> coins i u \<and>
     t' = set_user (gain i (- n) u)
       (add_order ts (item ord) (buyOrSell ord) (quantity ord) (unitPrice ord) (ord_userID ord) t))"

lemma userID_gain [simp]: "userID (gain i n u) = userID u"
  and credentials_gain [simp]: "credentials (gain i n u) = credentials u"
  by (simp_all add: gain_def credentials_def)

lemma placed_place:
  assumes "placed ord t t'" and "keys_ok t"
  shows "\<exists>ts. place ord (order_seq t + 1) ts (market_of t) = Some (market_of t')"
proof -
  from assms(1) obtain u i n ts where u: "u \<in> set (users t)" "userID u = ord_userID ord"
    and lock: "lock ord = Some (i, n)" "n \<le> coins i u"
    and t': "t' = set_user (gain i (- n) u)
       (add_order ts (item ord) (buyOrSell ord) (quantity ord) (unitPrice ord) (ord_userID ord) t)"
    by (auto simp: placed_def)
  have keyed: "keyed orderID (order_seq t) (orders t)" using assms(2) by (simp add: keys_ok_def)
  have acct: "acct (market_of t) (ord_userID ord) = Some u" using u assms(2) by (simp add: acct_iff)
  have new: "ord\<lparr>orderID := k, created_at := Some ts\<rparr> = \<lparr>orderID = k, item = item ord,
      buyOrSell = buyOrSell ord, quantity = quantity ord, ord_userID = ord_userID ord,
      unitPrice = unitPrice ord, created_at = Some ts\<rparr>" for k
    by simp
  have "place ord (order_seq t + 1) ts (market_of t) = Some (market_of t')"
    using acct lock u fresh_order_key[OF assms(2)] unfolding t'
    by (subst market_of_set_user) (auto simp: place_def market_of_add_order[OF keyed] new)
  then show ?thesis by blast
qed

section \<open>Balances\<close>

lemma pay_run: "pay cost u c = (Inr v, c') \<longleftrightarrow> paid cost u = Some v \<and> c' = c"
  by (auto simp: pay_def paid_def run_iffs)

lemma earn_run: "earn cost u c = (Inr v, c') \<longleftrightarrow> earned cost u = Some v \<and> c' = c"
  by (auto simp: earn_def earned_def run_iffs)

lemma credit_coin_run: "credit_coin i n u c = (Inr v, c') \<Longrightarrow> v = gain i n u \<and> c' = c"
  unfolding credit_coin_def gain_def
  by (cases "i = 0"; cases "i = 1"; cases "i = 2"; cases "i = 3"; simp add: cbind_Inr_iff cadd_Inr_iff)

lemma debit_coin_run: "debit_coin i n u c = (Inr v, c') \<Longrightarrow> v = gain i (- n) u \<and> c' = c"
  unfolding debit_coin_def gain_def
  by (cases "i = 0"; cases "i = 1"; cases "i = 2"; cases "i = 3"; simp add: cbind_Inr_iff csub_Inr_iff)

lemma paid_keeps: "paid cost u = Some v \<Longrightarrow> userID v = userID u \<and> credentials v = credentials u"
  and earned_keeps: "earned cost u = Some v \<Longrightarrow> userID v = userID u \<and> credentials v = credentials u"
  by (auto simp: paid_def earned_def credentials_def)

section \<open>Cancelling\<close>

lemma refunded_keeps: "refunded r u = Some v \<Longrightarrow> userID v = userID u \<and> credentials v = credentials u"
  by (auto simp: refunded_def dest: earned_keeps split: if_split_asm)

text \<open>An order has been taken back by its owner.\<close>

definition cancelled :: "int \<Rightarrow> int \<Rightarrow> tables \<Rightarrow> tables \<Rightarrow> bool" where
  "cancelled uid k t t' \<longleftrightarrow> (\<exists>r u u'. r \<in> set (orders t) \<and> orderID r = k \<and> ord_userID r = uid \<and>
     u \<in> set (users t) \<and> userID u = uid \<and> refunded r u = Some u' \<and> t' = remove_order k (set_user u' t))"

lemma cancelled_step:
  assumes "cancelled uid k t t'" and "keys_ok t"
  shows "market_step (Cancel uid k) (market_of t) (market_of t')"
proof -
  obtain r u u' where r: "r \<in> set (orders t)" "orderID r = k" "ord_userID r = uid"
    and u: "u \<in> set (users t)" "userID u = uid" "refunded r u = Some u'" and t': "t' = remove_order k (set_user u' t)"
    using assms(1) by (auto simp: cancelled_def)
  have "acct (market_of t) (userID u') = Some u" "credentials u = credentials u'"
    using refunded_keeps[OF u(3)] u assms(2) by (simp_all add: acct_iff)
  then have "market_of t' = (market_of t)\<lparr>acct := (acct (market_of t))(uid \<mapsto> u'), book := (book (market_of t))(k := None)\<rparr>"
    unfolding t' market_of_remove_order using refunded_keeps[OF u(3)] u(2) by (simp add: market_of_set_user)
  with r u assms(2) show ?thesis by (intro Cancels) (auto simp: acct_iff book_iff)
qed

section \<open>Trading\<close>

text \<open>The two parties of a trade and what they have afterwards; \<open>new_buys\<close> when the new order buys.\<close>

definition parties :: "order_t \<Rightarrow> order_t \<Rightarrow> user_t \<Rightarrow> user_t \<Rightarrow> user_t \<Rightarrow> user_t \<Rightarrow> bool" where
  "parties ord m u v u' v' \<longleftrightarrow>
     (let n = deal_quantity ord m; cost = deal_cost ord m in
      if buyOrSell ord = BUY
      then buyer_after cost (item ord) n u = Some u' \<and> seller_after True cost (item m) n v = Some v'
      else seller_after False cost (item ord) n u = Some u' \<and> buyer_after cost (item m) n v = Some v')"

text \<open>The book after \<open>n\<close> coins of the order \<open>m\<close> have been traded.\<close>

definition book_after :: "order_t \<Rightarrow> int \<Rightarrow> tables \<Rightarrow> tables" where
  "book_after m n t = (if quantity m = n then remove_order (orderID m) t
     else change_order (item m) (buyOrSell m) (quantity m - n) (unitPrice m) (ord_userID m) (orderID m) t)"

definition archived_row :: "order_t \<Rightarrow> tables \<Rightarrow> tables" where
  "archived_row r t = add_archive (item r) (buyOrSell r) (quantity r) (unitPrice r) (ord_userID r) (created_at r) t"

text \<open>Both orders archived as they were, both accounts settled, the book brought up to date.\<close>

definition settled :: "order_t \<Rightarrow> order_t \<Rightarrow> tables \<Rightarrow> tables \<Rightarrow> bool" where
  "settled ord m t t' \<longleftrightarrow> (\<exists>ts u v u' v'. u \<in> set (users t) \<and> userID u = ord_userID ord \<and>
     v \<in> set (users t) \<and> userID v = ord_userID m \<and> parties ord m u v u' v' \<and>
     t' = book_after m (trade_quantity ord m) (set_user v' (set_user u'
       (archived_row (ord\<lparr>created_at := Some ts\<rparr>) (archived_row m t)))))"

definition traded :: "order_t \<Rightarrow> order_t \<Rightarrow> tables \<Rightarrow> tables \<Rightarrow> bool" where
  "traded ord m t t' \<longleftrightarrow> (\<exists>t1 ts. settled ord m t t1 \<and>
     (if quantity ord \<le> quantity m then t' = t1
      else placed (ord\<lparr>quantity := quantity ord - quantity m, created_at := Some ts\<rparr>) t1 t'))"

lemma buyer_after_keeps:
  "buyer_after cost i n u = Some v \<Longrightarrow> userID v = userID u \<and> credentials v = credentials u"
  by (auto simp: buyer_after_def dest: paid_keeps)

lemma seller_after_keeps:
  "seller_after b cost i n u = Some v \<Longrightarrow> userID v = userID u \<and> credentials v = credentials u"
  by (auto simp: seller_after_def dest: earned_keeps split: if_split_asm)

lemma parties_keep:
  "parties ord m u v u' v' \<Longrightarrow> userID u' = userID u \<and> credentials u' = credentials u \<and>
   userID v' = userID v \<and> credentials v' = credentials v"
  by (auto simp: parties_def Let_def dest: buyer_after_keeps seller_after_keeps split: if_split_asm)

lemma market_of_archived_row:
  "market_of (archived_row r t) = (market_of t)\<lparr>hist := hist (market_of t) @ [hide r]\<rparr>"
  unfolding archived_row_def by (rule market_of_add_archive)

lemma market_of_book_after:
  assumes "book (market_of t) (orderID m) = Some m"
  shows "market_of (book_after m n t) = (market_of t)\<lparr>book := (book (market_of t))
    (orderID m := if quantity m = n then None else Some (m\<lparr>quantity := quantity m - n\<rparr>))\<rparr>"
  using assms by (simp add: book_after_def market_of_remove_order market_of_change_order)

lemma settled_settle:
  assumes "settled ord m t t'" and "keys_ok t" and "m \<in> set (orders t)" and "ord_userID m \<noteq> ord_userID ord"
  shows "\<exists>ts. settle ord m ts (market_of t) = Some (market_of t')"
proof -
  obtain ts u v u' v' where u: "u \<in> set (users t)" "userID u = ord_userID ord"
    and v: "v \<in> set (users t)" "userID v = ord_userID m" and par: "parties ord m u v u' v'"
    and t': "t' = book_after m (trade_quantity ord m) (set_user v' (set_user u'
       (archived_row (ord\<lparr>created_at := Some ts\<rparr>) (archived_row m t))))"
    using assms(1) by (auto simp: settled_def)
  have acct: "acct (market_of t) (ord_userID ord) = Some u" "acct (market_of t) (ord_userID m) = Some v"
    using u v assms(2) by (simp_all add: acct_iff)
  have bk: "book (market_of t) (orderID m) = Some m" using assms(2,3) by (simp add: book_iff)
  note keep = parties_keep[OF par]
  let ?t2 = "archived_row (ord\<lparr>created_at := Some ts\<rparr>) (archived_row m t)"
  have m3: "market_of (set_user u' ?t2) = (market_of ?t2)\<lparr>acct := (acct (market_of t))(ord_userID ord \<mapsto> u')\<rparr>"
    using market_of_set_user[of ?t2 u' u] acct(1) keep u(2) by (simp add: market_of_archived_row)
  have m4: "market_of (set_user v' (set_user u' ?t2)) = (market_of ?t2)\<lparr>acct :=
      (acct (market_of t))(ord_userID ord \<mapsto> u', ord_userID m \<mapsto> v')\<rparr>"
    using market_of_set_user[of "set_user u' ?t2" v' v] acct(2) keep v(2) assms(4) by (simp add: m3)
  have "market_of t' = (market_of t)\<lparr>acct := (acct (market_of t))(ord_userID ord \<mapsto> u', ord_userID m \<mapsto> v'),
      book := (book (market_of t))(orderID m := if quantity m = trade_quantity ord m then None
        else Some (m\<lparr>quantity := quantity m - trade_quantity ord m\<rparr>)),
      hist := hist (market_of t) @ [hide m, hide (ord\<lparr>created_at := Some ts\<rparr>)]\<rparr>"
    unfolding t' using bk by (subst market_of_book_after) (simp_all add: m4 market_of_archived_row)
  then have "settle ord m ts (market_of t) = Some (market_of t')"
    using acct par by (auto simp: settle_def parties_def deal_eq Let_def split: if_split_asm)
  then show ?thesis ..
qed

text \<open>
  What \<open>buy_match\<close> and \<open>sell_match\<close> have in common: they differ only in how the party that comes with
  the new order (\<open>g1\<close>) and the party of the matched order (\<open>g2\<close>) are settled.
\<close>

definition match_old ::
  "'w platform \<Rightarrow> (order_t \<Rightarrow> user_t \<Rightarrow> ('w, user_t) dbprog) \<Rightarrow> order_t \<Rightarrow> order_t \<Rightarrow> int \<Rightarrow> int \<Rightarrow> ('w, int) dbprog" where
  "match_old E g2 ord m oq mq =
     cbind (get_user E (ord_userID m)) (\<lambda>got. case got of Inl _ \<Rightarrow> ret (- 1) | Inr v \<Rightarrow>
     cbind (g2 ord v) (\<lambda>v.
     cbind (update_user_balance E v) (\<lambda>res. if res \<noteq> 0 then ret (- 1) else
     finish_trade E (ord\<lparr>quantity := oq\<rparr>) (m\<lparr>quantity := mq\<rparr>))))"

definition match_parties ::
  "'w platform \<Rightarrow> (order_t \<Rightarrow> ('w, user_t) dbprog) \<Rightarrow> (order_t \<Rightarrow> user_t \<Rightarrow> ('w, user_t) dbprog) \<Rightarrow>
    order_t \<Rightarrow> order_t \<Rightarrow> ('w, int) dbprog" where
  "match_parties E g1 g2 ord m =
     cbind (csub (quantity ord) (trade_quantity ord m)) (\<lambda>oq.
     cbind (csub (quantity m) (trade_quantity ord m)) (\<lambda>mq.
     cbind (g1 ord) (\<lambda>u.
     cbind (update_user_balance E u) (\<lambda>res. if res \<noteq> 0 then ret (- 1) else match_old E g2 ord m oq mq))))"

definition match_with ::
  "'w platform \<Rightarrow> order_t \<Rightarrow> order_t \<Rightarrow> (order_t \<Rightarrow> ('w, user_t) dbprog) \<Rightarrow>
    (order_t \<Rightarrow> user_t \<Rightarrow> ('w, user_t) dbprog) \<Rightarrow> ('w, int) dbprog" where
  "match_with E ord m g1 g2 =
     cbind (assign_order_timestamp E ord) (\<lambda>got. case got of Inl _ \<Rightarrow> ret (- 1) | Inr ord \<Rightarrow>
     cbind (archive_order E m) (\<lambda>res. if res \<noteq> 0 then ret (- 1) else
     cbind (archive_order E ord) (\<lambda>res. if res \<noteq> 0 then ret (- 1) else match_parties E g1 g2 ord m)))"

lemma users_set_user_other:
  "v \<in> set (users (set_user u t)) \<Longrightarrow> userID v \<noteq> userID u \<Longrightarrow> v \<in> set (users t)"
  by (auto simp: set_user_def users_change_balance split: if_split_asm)

lemma set_user_frame [simp]: "orders (set_user u t) = orders t" "archives (set_user u t) = archives t"
  "created (set_user u t) = created t" "fk_on (set_user u t) = fk_on t"
  "user_seq (set_user u t) = user_seq t" "order_seq (set_user u t) = order_seq t"
  "archive_seq (set_user u t) = archive_seq t"
  by (simp_all add: set_user_def)

lemma archived_row_frame [simp]: "users (archived_row r t) = users t" "orders (archived_row r t) = orders t"
  "created (archived_row r t) = created t" "fk_on (archived_row r t) = fk_on t"
  "user_seq (archived_row r t) = user_seq t" "order_seq (archived_row r t) = order_seq t"
  "archive_seq (archived_row r t) = archive_seq t + 1"
  by (simp_all add: archived_row_def add_archive_def)


text \<open>The two handlers are instances of it.\<close>

lemma buy_match_with: "buy_match E u ord m = match_with E ord m
    (\<lambda>ord. cbind (pay (trade_cost ord m) u) (credit_coin (item ord) (trade_quantity ord m)))
    (\<lambda>ord v. cbind (earn (trade_cost ord m) v) (debit_coin (item m) (trade_quantity ord m)))"
  unfolding buy_match_def match_with_def match_parties_def match_old_def Let_def cbind_assoc ..

lemma sell_match_with: "sell_match E u ord m = match_with E ord m
    (\<lambda>ord. cbind (debit_coin (item ord) (trade_quantity ord m) u) (earn (trade_cost ord m)))
    (\<lambda>ord v. cbind (pay (trade_cost ord m) v) (credit_coin (item m) (trade_quantity ord m)))"
  unfolding sell_match_def match_with_def match_parties_def match_old_def Let_def cbind_assoc ..

lemma buyer_run:
  assumes "cbind (pay cost u) (credit_coin i n) c = (Inr v, c')" and "user_ok u"
  shows "c' = c \<and> user_ok v \<and> buyer_after cost i n u = Some v"
proof -
  obtain w c1 where "pay cost u c = (Inr w, c1)" "credit_coin i n w c1 = (Inr v, c')"
    using assms(1) by (rule cbindE)
  with assms(2) show ?thesis
    by (auto simp: pay_run buyer_after_def dest: credit_coin_run credit_coin_ok pay_ok[of u cost c w c])
qed

lemma rested_seller_run:
  assumes "cbind (earn cost u) (debit_coin i n) c = (Inr v, c')" and "user_ok u"
  shows "c' = c \<and> user_ok v \<and> seller_after True cost i n u = Some v"
proof -
  obtain w c1 where "earn cost u c = (Inr w, c1)" "debit_coin i n w c1 = (Inr v, c')"
    using assms(1) by (rule cbindE)
  with assms(2) show ?thesis
    by (auto simp: earn_run seller_after_def dest: debit_coin_run debit_coin_ok earn_ok[of u cost c w c])
qed

lemma new_seller_run:
  assumes "cbind (debit_coin i n u) (earn cost) c = (Inr v, c')" and "user_ok u"
  shows "c' = c \<and> user_ok v \<and> seller_after False cost i n u = Some v"
proof -
  obtain w c1 where w: "debit_coin i n u c = (Inr w, c1)" and v: "earn cost w c1 = (Inr v, c')"
    using assms(1) by (rule cbindE)
  have "user_ok w" using debit_coin_ok[OF assms(2) w] .
  from earn_ok[OF this v] w v show ?thesis by (auto simp: earn_run seller_after_def dest: debit_coin_run)
qed

end
