(* ===== verification/Failures.thy ===== *)
theory Failures
  imports Effects
begin

text \<open>
  What the commands leave in the tables when they fail. A trade is a row of statements without a
  transaction: a statement that fails, or a fault of the process between two of them, leaves what the
  statements before have done. \<open>booked\<close>, \<open>trade_stage\<close> and \<open>refund_only\<close> say how far a command has come;
  each theorem covers every result of the command, on every engine that keeps the contract.
\<close>

section \<open>Results and interruptions\<close>

text \<open>
  \<open>outcome Y B m C\<close>: from tables with \<open>B\<close>, the program \<open>m\<close> gives \<open>a\<close> and leaves tables with \<open>C a\<close>, or it is
  interrupted and leaves tables with \<open>Y\<close>.
\<close>

definition outcome :: "(tables \<Rightarrow> bool) \<Rightarrow> (tables \<Rightarrow> bool) \<Rightarrow> ('w, 'a) dbprog \<Rightarrow> ('a \<Rightarrow> tables \<Rightarrow> bool) \<Rightarrow> bool" where
  "outcome Y B m C \<longleftrightarrow> (\<forall>c r c'. B (db c) \<longrightarrow> m c = (r, c') \<longrightarrow>
     (case r of Inl e \<Rightarrow> Y (db c') | Inr a \<Rightarrow> C a (db c')))"

lemma outcomeI: "(\<And>c r c'. B (db c) \<Longrightarrow> m c = (r, c') \<Longrightarrow> case r of Inl e \<Rightarrow> Y (db c') | Inr a \<Rightarrow> C a (db c')) \<Longrightarrow> outcome Y B m C"
  by (simp add: outcome_def)

lemma outcomeD: "outcome Y B m C \<Longrightarrow> B (db c) \<Longrightarrow> m c = (r, c') \<Longrightarrow> case r of Inl e \<Rightarrow> Y (db c') | Inr a \<Rightarrow> C a (db c')"
  by (simp add: outcome_def)

lemma outcome_ret: "(\<And>t. B t \<Longrightarrow> C a t) \<Longrightarrow> outcome Y B (ret a) C"
  by (simp add: outcome_def)

lemma outcome_cbind:
  assumes "outcome Y B m C" and "\<And>a. outcome Y (C a) (f a) D"
  shows "outcome Y B (cbind m f) D"
proof (rule outcomeI)
  fix c r c' assume B: "B (db c)" and run: "cbind m f c = (r, c')"
  obtain x c1 where m: "m c = (x, c1)" by force
  show "case r of Inl e \<Rightarrow> Y (db c') | Inr a \<Rightarrow> D a (db c')"
    using outcomeD[OF assms(1) B m] run m assms(2) by (cases x) (auto simp: cbind_def dest: outcomeD)
qed

lemma outcome_weaken:
  assumes "outcome Y B m C" and "\<And>t. B' t \<Longrightarrow> B t" and "\<And>a t. C a t \<Longrightarrow> C' a t" and "\<And>t. Y t \<Longrightarrow> Y' t"
  shows "outcome Y' B' m C'"
proof (rule outcomeI)
  fix c r c' assume "B' (db c)" and "m c = (r, c')"
  with assms(1,2) have "case r of Inl e \<Rightarrow> Y (db c') | Inr a \<Rightarrow> C a (db c')" by (blast dest: outcomeD)
  with assms(3,4) show "case r of Inl e \<Rightarrow> Y' (db c') | Inr a \<Rightarrow> C' a (db c')" by (cases r) auto
qed

lemma outcome_pointwise: "(\<And>t. B t \<Longrightarrow> outcome Y (\<lambda>x. x = t) m C) \<Longrightarrow> outcome Y B m C"
  by (rule outcomeI) (blast dest: outcomeD)

lemma outcome_fact: "(K \<Longrightarrow> outcome Y B m C) \<Longrightarrow> outcome Y (\<lambda>t. K \<and> B t) m C"
  by (auto simp: outcome_def)

lemma outcome_runs:
  assumes "\<And>c. B (db c) \<Longrightarrow> \<exists>a c'. m c = (Inr a, c') \<and> C a (db c')"
  shows "outcome Y B m C"
  by (rule outcomeI) (use assms in fastforce)

text \<open>The two checks of a handler: a code other than 0, and a row that was not delivered, give \<open>-1\<close>.\<close>

lemma outcome_checked:
  assumes "outcome Y B m (\<lambda>res. if res = 0 then C else Y)" and "outcome Y C f D" and "\<And>t. Y t \<Longrightarrow> D (- 1) t"
  shows "outcome Y B (cbind m (\<lambda>res. if res \<noteq> 0 then ret (- 1) else f)) D"
  by (rule outcome_cbind[OF assms(1)]) (use assms(2,3) in \<open>auto intro: outcome_ret\<close>)

lemma outcome_got:
  assumes "outcome Y B m (\<lambda>got t. case got of Inl _ \<Rightarrow> Y t | Inr x \<Rightarrow> C x t)" and "\<And>x. outcome Y (C x) (f x) D"
    and "\<And>t. Y t \<Longrightarrow> D (- 1) t"
  shows "outcome Y B (cbind m (\<lambda>got. case got of Inl _ \<Rightarrow> ret (- 1) | Inr x \<Rightarrow> f x)) D"
  by (rule outcome_cbind[OF assms(1)]) (use assms(2,3) in \<open>auto intro: outcome_ret split: sum.split\<close>)

text \<open>Programs that do not touch the connection.\<close>

lemma outcome_pure:
  assumes "\<And>c r c'. m c = (r, c') \<Longrightarrow> c' = c" and "\<And>t. B t \<Longrightarrow> Y t" and "\<And>a c c' t. m c = (Inr a, c') \<Longrightarrow> B t \<Longrightarrow> C a t"
  shows "outcome Y B m C"
  by (rule outcomeI) (use assms in \<open>fastforce split: sum.split\<close>)

lemma outcome_write:
  assumes "\<And>c. wrote eff (m c) c"
  shows "outcome Y B m (\<lambda>res t'. if res = 0 then \<exists>t. B t \<and> eff t t' else B t')"
proof (rule outcomeI)
  fix c r c' assume B: "B (db c)" and run: "m c = (r, c')"
  from assms[of c] run consider "r = Inr 0" "eff (db c) (db c')" | rc where "r = Inr rc" "0 < rc" "db c' = db c"
    by (auto simp: wrote_def)
  then show "case r of Inl e \<Rightarrow> Y (db c') | Inr res \<Rightarrow> (if res = 0 then \<exists>t. B t \<and> eff t (db c') else B (db c'))"
    using B by cases auto
qed

lemma outcome_wrote:
  assumes "\<And>c. wrote eff (m c) c" and "\<And>t t'. B t \<Longrightarrow> eff t t' \<Longrightarrow> C t'" and "\<And>t. B t \<Longrightarrow> Y t"
  shows "outcome Y B m (\<lambda>res. if res = 0 then C else Y)"
  by (rule outcome_weaken[where B = B and Y = Y, OF outcome_write[OF assms(1)]]) (use assms(2,3) in \<open>auto split: if_splits\<close>)

lemma outcome_checked_code:
  assumes "outcome Y B m (\<lambda>res. if res = 0 then C else Y)" and "outcome Y C f D" and "\<And>res t. Y t \<Longrightarrow> res \<noteq> 0 \<Longrightarrow> D res t"
  shows "outcome Y B (cbind m (\<lambda>res. if res \<noteq> 0 then ret res else f)) D"
  by (rule outcome_cbind[OF assms(1)]) (use assms(2,3) in \<open>auto intro: outcome_ret\<close>)

section \<open>Placing an order\<close>

text \<open>The order is in the book, and its owner could pay for it, but its coins are not locked.\<close>

definition booked :: "order_t \<Rightarrow> tables \<Rightarrow> tables \<Rightarrow> bool" where
  "booked ord t t' \<longleftrightarrow> (\<exists>u i n ts. u \<in> set (users t) \<and> userID u = ord_userID ord \<and> lock ord = Some (i, n) \<and>
     n \<le> coins i u \<and> t' = add_order ts (item ord) (buyOrSell ord) (quantity ord) (unitPrice ord) (ord_userID ord) t)"

context sqlite_engine
begin

lemma outcome_get_user:
  assumes "in_int32 k" and "\<And>t. B t \<Longrightarrow> wf_db t" and "\<And>t. B t \<Longrightarrow> Y t"
  shows "outcome Y B (get_user E k)
    (\<lambda>got t. case got of Inl rc \<Rightarrow> Y t \<and> 0 < rc \<and> B t | Inr u \<Rightarrow> B t \<and> u \<in> set (users t) \<and> userID u = k)"
proof (rule outcomeI)
  fix c r c' assume B: "B (db c)" and "get_user E k c = (r, c')"
  with get_user_spec[of c k r c'] assms(1,2) have "db c' = db c \<and> ((\<exists>rc. 0 < rc \<and> r = Inr (Inl rc)) \<or>
    (\<exists>u. (u \<in> set (users (db c)) \<and> userID u = k) \<and> r = Inr (Inr u)))" by blast
  with B assms(3) show "case r of Inl e \<Rightarrow> Y (db c') | Inr got \<Rightarrow>
    (case got of Inl rc \<Rightarrow> Y (db c') \<and> 0 < rc \<and> B (db c') | Inr u \<Rightarrow> B (db c') \<and> u \<in> set (users (db c')) \<and> userID u = k)"
    by auto
qed

lemma outcome_prepare: "(\<And>t. B t \<Longrightarrow> Y t) \<Longrightarrow> outcome Y B (sql_prepare E q) (\<lambda>rc t. 0 \<le> rc \<and> B t)"
  by (rule outcomeI) (auto dest!: prepare_run)

lemma outcome_prepared:
  assumes "outcome Y B f D" and "\<And>t. B t \<Longrightarrow> Y t" and "\<And>rc t. 0 < rc \<Longrightarrow> B t \<Longrightarrow> D rc t"
  shows "outcome Y B (cbind (sql_prepare E q) (\<lambda>res. if res \<noteq> SQLITE_OK then ret res else f)) D"
proof (rule outcome_cbind[OF outcome_prepare])
  show "outcome Y (\<lambda>t. 0 \<le> rc \<and> B t) (if rc \<noteq> SQLITE_OK then ret rc else f) D" for rc
  proof (cases "rc = SQLITE_OK")
    case True
    from outcome_weaken[OF assms(1)] True show ?thesis by simp
  next
    case False
    then show ?thesis using assms(3) by (auto intro: outcome_ret)
  qed
qed (rule assms(2))

lemma outcome_run:
  assumes "data_stmt q" and "\<And>t. B t \<Longrightarrow> Y t"
  shows "outcome Y B (sql_run E q) (\<lambda>(rows, rc) t. if rc = SQLITE_DONE then \<exists>t0. B t0 \<and> sql_meaning t0 q rows t else 0 < rc \<and> B t)"
  by (rule outcomeI) (use assms(2) in \<open>fastforce elim!: run_cases[OF _ assms(1)]\<close>)

lemma csub_state: "csub a b c = (r, c') \<Longrightarrow> c' = c"
  by (auto simp: csub_def ret_def stop_def split: if_split_asm)

lemma insert_check_state: "insert_check u ord c = (r, c') \<Longrightarrow> c' = c"
  by (auto simp: insert_check_def int_cost_def cbind_def of_option_def ret_def stop_def
      split: if_split_asm option.split_asm)

lemma insert_deduct_state: "insert_deduct u ord c = (r, c') \<Longrightarrow> c' = c"
  by (auto simp: insert_deduct_def int_cost_def cbind_def of_option_def ret_def stop_def csub_def
      split: if_split_asm option.split_asm)

text \<open>\<open>insert_order\<close> from the point where the order is in the book: the coins of its owner \<open>u\<close> are locked.\<close>

definition affords :: "user_t \<Rightarrow> order_t \<Rightarrow> bool" where
  "affords u ord \<longleftrightarrow> (\<exists>i n. lock ord = Some (i, n) \<and> n \<le> coins i u)"

abbreviation unlocked :: "order_t \<Rightarrow> tables \<Rightarrow> tables \<Rightarrow> bool" where
  "unlocked ord t t' \<equiv> \<exists>ts. t' = add_order ts (item ord) (buyOrSell ord) (quantity ord) (unitPrice ord) (ord_userID ord) t"

lemma unlocked_booked:
  "unlocked ord t t' \<Longrightarrow> affords u ord \<Longrightarrow> u \<in> set (users t) \<Longrightarrow> userID u = ord_userID ord \<Longrightarrow> booked ord t t'"
  unfolding booked_def affords_def by blast

lemma outcome_lock:
  assumes side: "buyOrSell ord \<in> {BUY, SELL}" and u: "u \<in> set (users t)" "userID u = ord_userID ord" "affords u ord"
  shows "outcome (\<lambda>t'. t' = t \<or> booked ord t t') (unlocked ord t)
    (cbind (insert_deduct u ord) (\<lambda>u'. cbind (update_user_balance E u') (\<lambda>res.
     if res \<noteq> SQLITE_OK then ret res else ret SQLITE_OK)))
    (\<lambda>res t'. if res = 0 then placed ord t t' else t' = t \<or> booked ord t t')"
    (is "outcome ?Y _ _ ?D")
proof (rule outcome_cbind)
  let ?B = "\<lambda>u' t'. unlocked ord t t' \<and> (\<forall>i n. lock ord = Some (i, n) \<longrightarrow> u' = gain i (- n) u)"
  note booked = unlocked_booked[OF _ u(3,1,2)]
  show "outcome ?Y (unlocked ord t) (insert_deduct u ord) ?B"
    by (rule outcome_pure) (use booked in \<open>auto dest: insert_deduct_state insert_deduct_lock[OF _ side]\<close>)
  show "outcome ?Y (?B u') (cbind (update_user_balance E u') (\<lambda>res. if res \<noteq> SQLITE_OK then ret res else ret SQLITE_OK)) ?D" for u'
  proof (rule outcome_checked_code)
    show "outcome ?Y (?B u') (update_user_balance E u') (\<lambda>res. if res = 0 then placed ord t else ?Y)"
    proof (rule outcome_wrote[OF update_user_balance_spec])
      fix t1 t2 assume "?B u' t1"
        and "created t1 \<and> t2 = change_balance (OMG u') (DOGE u') (BTC u') (ETH u') (userID u') t1"
      then obtain i n ts where "lock ord = Some (i, n)" "n \<le> coins i u" "t2 = set_user (gain i (- n) u)
          (add_order ts (item ord) (buyOrSell ord) (quantity ord) (unitPrice ord) (ord_userID ord) t)"
        using u(3) by (auto simp: affords_def set_user_def)
      with u show "placed ord t t2" unfolding placed_def by blast
    qed (use booked in blast)
  qed (auto intro: outcome_ret)
qed

text \<open>\<open>insert_order\<close> once the owner \<open>u\<close> has been read.\<close>

lemma outcome_insert_run:
  assumes side: "buyOrSell ord \<in> {BUY, SELL}" and u: "u \<in> set (users t)" "userID u = ord_userID ord"
    and q: "q = Insert_Order (item ord) (buyOrSell ord) (quantity ord) (unitPrice ord) (ord_userID ord)"
  shows "outcome (\<lambda>t'. t' = t \<or> booked ord t t') (\<lambda>t'. t' = t \<and> affords u ord)
    (cbind (sql_run E q) (\<lambda>(rows, res). if res \<noteq> SQLITE_DONE then ret res else
     cbind (insert_deduct u ord) (\<lambda>u'. cbind (update_user_balance E u') (\<lambda>res.
     if res \<noteq> SQLITE_OK then ret res else ret SQLITE_OK))))
    (\<lambda>res t'. if res = 0 then placed ord t t' else t' = t \<or> booked ord t t')"
    (is "outcome ?Y ?B _ ?D")
proof (rule outcome_cbind[OF outcome_run])
  show "outcome ?Y ((\<lambda>(rows, rc) t'. if rc = SQLITE_DONE then \<exists>t0. ?B t0 \<and> sql_meaning t0 q rows t' else 0 < rc \<and> ?B t') x)
      (case x of (rows, res) \<Rightarrow> if res \<noteq> SQLITE_DONE then ret res else cbind (insert_deduct u ord)
        (\<lambda>u'. cbind (update_user_balance E u') (\<lambda>res. if res \<noteq> SQLITE_OK then ret res else ret SQLITE_OK))) ?D" for x
  proof (cases x)
    case (Pair rows res)
    show ?thesis
    proof (cases "res = SQLITE_DONE")
      case True
      have "outcome ?Y (\<lambda>t'. affords u ord \<and> unlocked ord t t') (cbind (insert_deduct u ord)
        (\<lambda>u'. cbind (update_user_balance E u') (\<lambda>res. if res \<noteq> SQLITE_OK then ret res else ret SQLITE_OK))) ?D"
        by (rule outcome_fact, rule outcome_lock[OF side u])
      then have "outcome ?Y (\<lambda>t'. \<exists>t0. ?B t0 \<and> sql_meaning t0 q rows t') (cbind (insert_deduct u ord)
        (\<lambda>u'. cbind (update_user_balance E u') (\<lambda>res. if res \<noteq> SQLITE_OK then ret res else ret SQLITE_OK))) ?D"
        by (rule outcome_weaken) (auto simp: q)
      with True Pair show ?thesis by (simp only: prod.case if_True if_False simp_thms)
    next
      case False
      with Pair show ?thesis by (auto intro: outcome_ret)
    qed
  qed
qed (auto simp: q)

lemma outcome_insert_rest:
  assumes side: "buyOrSell ord \<in> {BUY, SELL}" and u: "u \<in> set (users t)" "userID u = ord_userID ord"
    and q: "q = Insert_Order (item ord) (buyOrSell ord) (quantity ord) (unitPrice ord) (ord_userID ord)"
  shows "outcome (\<lambda>t'. t' = t \<or> booked ord t t') (\<lambda>t'. t' = t)
    (cbind (insert_check u ord) (\<lambda>res. if res \<noteq> SQLITE_OK then ret res else
     cbind (sql_prepare E q) (\<lambda>res. if res \<noteq> SQLITE_OK then ret res else
     cbind (sql_run E q) (\<lambda>(rows, res). if res \<noteq> SQLITE_DONE then ret res else
     cbind (insert_deduct u ord) (\<lambda>u'. cbind (update_user_balance E u') (\<lambda>res.
     if res \<noteq> SQLITE_OK then ret res else ret SQLITE_OK))))))
    (\<lambda>res t'. if res = 0 then placed ord t t' else t' = t \<or> booked ord t t')"
    (is "outcome ?Y _ _ _")
proof (rule outcome_checked_code[OF _ outcome_prepared[OF outcome_insert_run[OF side u q]]])
  show "outcome ?Y (\<lambda>t'. t' = t) (insert_check u ord) (\<lambda>res. if res = 0 then \<lambda>t'. t' = t \<and> affords u ord else ?Y)"
    by (rule outcome_pure) (auto simp: affords_def dest: insert_check_state insert_check_0[OF _ side])
qed auto

lemma outcome_insert_order:
  assumes "wf_db t" and "in_int32 (ord_userID ord)" and "buyOrSell ord \<in> {BUY, SELL}"
  shows "outcome (\<lambda>t'. t' = t \<or> booked ord t t') (\<lambda>t'. t' = t) (insert_order E ord)
    (\<lambda>res t'. if res = 0 then placed ord t t' else t' = t \<or> booked ord t t')"
    (is "outcome ?Y _ _ ?D")
  unfolding insert_order_def Let_def
proof (rule outcome_cbind)
  show "outcome ?Y (\<lambda>t'. t' = t) (get_user E (ord_userID ord)) (\<lambda>got t'. case got of
      Inl rc \<Rightarrow> ?Y t' \<and> 0 < rc \<and> t' = t | Inr u \<Rightarrow> (u \<in> set (users t) \<and> userID u = ord_userID ord) \<and> t' = t)"
    by (rule outcome_weaken[OF outcome_get_user[of _ "\<lambda>t'. t' = t" ?Y]]) (use assms in \<open>auto split: sum.splits\<close>)
  fix got :: "int + user_t"
  let ?q = "Insert_Order (item ord) (buyOrSell ord) (quantity ord) (unitPrice ord) (ord_userID ord)"
  show "outcome ?Y (\<lambda>t'. case got of Inl rc \<Rightarrow> ?Y t' \<and> 0 < rc \<and> t' = t
        | Inr u \<Rightarrow> (u \<in> set (users t) \<and> userID u = ord_userID ord) \<and> t' = t)
     (case got of Inl res \<Rightarrow> ret res | Inr u \<Rightarrow>
        cbind (insert_check u ord) (\<lambda>res. if res \<noteq> SQLITE_OK then ret res else
        cbind (sql_prepare E ?q) (\<lambda>res. if res \<noteq> SQLITE_OK then ret res else
        cbind (sql_run E ?q) (\<lambda>(rows, res). if res \<noteq> SQLITE_DONE then ret res else
        cbind (insert_deduct u ord) (\<lambda>u'. cbind (update_user_balance E u') (\<lambda>res.
        if res \<noteq> SQLITE_OK then ret res else ret SQLITE_OK)))))) ?D"
  proof (cases got)
    case (Inr u)
    show ?thesis unfolding Inr sum.case by (rule outcome_fact) (use outcome_insert_rest[OF assms(3)] in blast)
  qed (auto intro: outcome_ret)
qed

end

section \<open>Trading\<close>

text \<open>The party of the new order and the party of the old one after the trade.\<close>

definition new_party :: "order_t \<Rightarrow> order_t \<Rightarrow> user_t \<Rightarrow> user_t option" where
  "new_party ord m u = (if buyOrSell ord = BUY then buyer_after (deal_cost ord m) (item ord) (deal_quantity ord m) u
     else seller_after False (deal_cost ord m) (item ord) (deal_quantity ord m) u)"

definition old_party :: "order_t \<Rightarrow> order_t \<Rightarrow> user_t \<Rightarrow> user_t option" where
  "old_party ord m v = (if buyOrSell ord = BUY then seller_after True (deal_cost ord m) (item m) (deal_quantity ord m) v
     else buyer_after (deal_cost ord m) (item m) (deal_quantity ord m) v)"

lemma new_party_eq: "new_party ord m u = (if buyOrSell ord = BUY
      then buyer_after (trade_cost ord m) (item ord) (trade_quantity ord m) u
      else seller_after False (trade_cost ord m) (item ord) (trade_quantity ord m) u)"
  and old_party_eq: "old_party ord m v = (if buyOrSell ord = BUY
      then seller_after True (trade_cost ord m) (item m) (trade_quantity ord m) v
      else buyer_after (trade_cost ord m) (item m) (trade_quantity ord m) v)"
  by (simp_all add: new_party_def old_party_def deal_eq)

lemma parties_split: "parties ord m u v u' v' \<longleftrightarrow> new_party ord m u = Some u' \<and> old_party ord m v = Some v'"
  by (simp add: parties_def new_party_def old_party_def Let_def)

text \<open>How far a trade of \<open>ord\<close> with \<open>m\<close> that began in the tables \<open>t\<close> has come, statement by statement.\<close>

inductive trade_stage :: "order_t \<Rightarrow> order_t \<Rightarrow> tables \<Rightarrow> nat \<Rightarrow> tables \<Rightarrow> bool" for ord m t where
  Begun: "trade_stage ord m t 0 t"
| Old_archived: "trade_stage ord m t 0 x \<Longrightarrow> trade_stage ord m t 1 (archived_row m x)"
| New_archived: "trade_stage ord m t 1 x \<Longrightarrow> trade_stage ord m t 2 (archived_row (ord\<lparr>created_at := Some ts\<rparr>) x)"
| New_settled: "trade_stage ord m t 2 x \<Longrightarrow> u \<in> set (users t) \<Longrightarrow> userID u = ord_userID ord \<Longrightarrow>
    new_party ord m u = Some u' \<Longrightarrow> trade_stage ord m t 3 (set_user u' x)"
| Old_settled: "trade_stage ord m t 3 x \<Longrightarrow> v \<in> set (users x) \<Longrightarrow> userID v = ord_userID m \<Longrightarrow>
    old_party ord m v = Some v' \<Longrightarrow> trade_stage ord m t 4 (set_user v' x)"
| Book_updated: "trade_stage ord m t 4 x \<Longrightarrow> trade_stage ord m t 5 (book_after m (trade_quantity ord m) x)"
| Rest_booked: "trade_stage ord m t 5 x \<Longrightarrow> quantity m < quantity ord \<Longrightarrow>
    booked (ord\<lparr>quantity := quantity ord - quantity m\<rparr>) x y \<Longrightarrow> trade_stage ord m t 6 y"
| Rest_placed: "trade_stage ord m t 5 x \<Longrightarrow> quantity m < quantity ord \<Longrightarrow>
    placed (ord\<lparr>quantity := quantity ord - quantity m\<rparr>) x y \<Longrightarrow> trade_stage ord m t 7 y"

inductive_simps trade_stage_simps: "trade_stage ord m t 0 x" "trade_stage ord m t (Suc 0) x" "trade_stage ord m t 2 x"
  "trade_stage ord m t 3 x" "trade_stage ord m t 4 x" "trade_stage ord m t 5 x" "trade_stage ord m t 6 x" "trade_stage ord m t 7 x"

definition last_stage :: "order_t \<Rightarrow> order_t \<Rightarrow> nat" where
  "last_stage ord m = (if quantity m < quantity ord then 7 else 5)"

text \<open>A trade that was given up on the way, and one that has returned: 0 is for the last stage only.\<close>

definition stopped :: "order_t \<Rightarrow> order_t \<Rightarrow> tables \<Rightarrow> tables \<Rightarrow> bool" where
  "stopped ord m t t' \<longleftrightarrow> (\<exists>n. trade_stage ord m t n t' \<and> n \<noteq> last_stage ord m)"

definition ended :: "order_t \<Rightarrow> order_t \<Rightarrow> tables \<Rightarrow> int \<Rightarrow> tables \<Rightarrow> bool" where
  "ended ord m t res t' \<longleftrightarrow> (\<exists>n. trade_stage ord m t n t' \<and> (res = 0 \<longleftrightarrow> n = last_stage ord m))"

abbreviation at_stage :: "order_t \<Rightarrow> order_t \<Rightarrow> tables \<Rightarrow> nat \<Rightarrow> tables \<Rightarrow> bool" where
  "at_stage ord m t k \<equiv> (\<lambda>x. trade_stage ord m t k x \<and> wf_db x)"

lemma stage_stopped: "trade_stage ord m t k x \<Longrightarrow> k < 5 \<Longrightarrow> stopped ord m t x"
  by (auto simp: stopped_def last_stage_def)

lemma stopped_ended: "stopped ord m t x \<Longrightarrow> res \<noteq> 0 \<Longrightarrow> ended ord m t res x"
  by (auto simp: stopped_def ended_def)

lemma parties_created_at [simp]: "new_party (ord\<lparr>created_at := ts\<rparr>) = new_party ord"
  "old_party (ord\<lparr>created_at := ts\<rparr>) = old_party ord"
  by (simp_all add: fun_eq_iff new_party_def old_party_def deal_cost_def deal_quantity_def)

lemma booked_created_at [simp]: "booked (ord\<lparr>created_at := ts\<rparr>) = booked ord"
  and placed_created_at [simp]: "placed (ord\<lparr>created_at := ts\<rparr>) = placed ord"
  by (auto simp: fun_eq_iff booked_def placed_def lock_def order_cost_def)

text \<open>A trade of two users that has come to its last stage is the trade of the market.\<close>

lemma stage_settled:
  assumes "trade_stage ord m t 5 t'" and "ord_userID m \<noteq> ord_userID ord"
  shows "settled ord m t t'"
proof -
  from assms(1) obtain ts u u' v v' where u: "u \<in> set (users t)" "userID u = ord_userID ord" "new_party ord m u = Some u'"
    and v: "v \<in> set (users (set_user u' t))" "userID v = ord_userID m" "old_party ord m v = Some v'"
    and t': "t' = book_after m (trade_quantity ord m) (set_user v' (set_user u'
       (archived_row (ord\<lparr>created_at := Some ts\<rparr>) (archived_row m t))))"
    by (auto simp: trade_stage_simps archived_row_def add_archive_def set_user_def change_balance_def)
  have "userID u' = userID u"
    using u(3) by (auto simp: new_party_def dest: buyer_after_keeps seller_after_keeps split: if_split_asm)
  then have "v \<in> set (users t)" using users_set_user_other[OF v(1)] v(2) u(2) assms(2) by simp
  with u v t' show ?thesis unfolding settled_def parties_split by blast
qed

lemma stage_traded:
  assumes "trade_stage ord m t (last_stage ord m) t'" and "ord_userID m \<noteq> ord_userID ord"
  shows "traded ord m t t'"
proof (cases "quantity m < quantity ord")
  case True
  with assms(1) obtain x where "trade_stage ord m t 5 x" "placed (ord\<lparr>quantity := quantity ord - quantity m\<rparr>) x t'"
    by (auto simp: last_stage_def trade_stage_simps(8))
  with True stage_settled[OF _ assms(2)] show ?thesis
    using placed_created_at[where ord = "ord\<lparr>quantity := quantity ord - quantity m\<rparr>"] unfolding traded_def by auto
next
  case False
  with assms stage_settled show ?thesis by (auto simp: last_stage_def traded_def)
qed

context sqlite_engine
begin

lemma outcome_keeps:
  assumes "keeps (\<lambda>c. P (db c)) m" and "outcome Y B m C"
  shows "outcome Y (\<lambda>t. B t \<and> P t) m (\<lambda>a t. C a t \<and> P t)"
proof (rule outcomeI)
  fix c r c' assume B: "B (db c) \<and> P (db c)" and run: "m c = (r, c')"
  then have "P (db c')" "case r of Inl e \<Rightarrow> Y (db c') | Inr a \<Rightarrow> C a (db c')"
    using assms by (auto dest: keepsD outcomeD)
  then show "case r of Inl e \<Rightarrow> Y (db c') | Inr a \<Rightarrow> C a (db c') \<and> P (db c')" by (cases r) auto
qed

text \<open>A write with its effect, on well-formed tables.\<close>

lemma outcome_step:
  assumes "\<And>c. wrote eff (m c) c" and "keeps wf_conn m" and "\<And>t t'. B t \<Longrightarrow> wf_db t \<Longrightarrow> eff t t' \<Longrightarrow> C t'"
    and "\<And>t. B t \<Longrightarrow> Y t"
  shows "outcome Y (\<lambda>t. B t \<and> wf_db t) m (\<lambda>res. if res = 0 then \<lambda>t. C t \<and> wf_db t else Y)"
proof (rule outcome_weaken[OF outcome_keeps[OF assms(2) outcome_wrote[OF assms(1), where B = "\<lambda>t. B t \<and> wf_db t"]]])
  show "B t \<and> wf_db t \<Longrightarrow> eff t t' \<Longrightarrow> C t'" for t t' using assms(3) by blast
qed (use assms(4) in \<open>auto split: if_splits\<close>)

text \<open>The rest of a new order that was not filled completely goes into the book.\<close>

lemma outcome_rest_placed:
  assumes part: "quantity m < quantity ord" and uid: "in_int32 (ord_userID ord)" and side: "buyOrSell ord \<in> {BUY, SELL}"
  shows "outcome (stopped ord m t) (at_stage ord m t 5)
    (insert_order E (ord\<lparr>created_at := Some ts, quantity := quantity ord - quantity m\<rparr>))
    (\<lambda>res. if res = 0 then trade_stage ord m t 7 else stopped ord m t)"
proof (rule outcome_pointwise)
  let ?rest = "ord\<lparr>quantity := quantity ord - quantity m\<rparr>"
  let ?ord = "ord\<lparr>created_at := Some ts, quantity := quantity ord - quantity m\<rparr>"
  have "?ord = ?rest\<lparr>created_at := Some ts\<rparr>" by simp
  then have same: "booked ?ord = booked ?rest" "placed ?ord = placed ?rest"
    by (simp_all only: booked_created_at placed_created_at)
  fix y assume y: "trade_stage ord m t 5 y \<and> wf_db y"
  have stop: "stopped ord m t x" if "x = y \<or> booked ?ord y x" for x
  proof -
    from that y Rest_booked[of ord m t y x] part same have "trade_stage ord m t 5 x \<or> trade_stage ord m t 6 x" by auto
    then show ?thesis using part by (auto simp: stopped_def last_stage_def)
  qed
  show "outcome (stopped ord m t) (\<lambda>x. x = y) (insert_order E ?ord)
      (\<lambda>res. if res = 0 then trade_stage ord m t 7 else stopped ord m t)"
  proof (rule outcome_weaken[OF outcome_insert_order[of y ?ord]])
    show "(if res = 0 then trade_stage ord m t 7 else stopped ord m t) x"
      if "if res = 0 then placed ?ord y x else x = y \<or> booked ?ord y x" for res x
      using that stop Rest_placed[of ord m t y x] y part same by (auto split: if_splits)
  qed (use y uid side stop in simp_all)
qed

lemma outcome_finish:
  assumes ints: "in_int32 (ord_userID ord)" "order_ints m" and side: "buyOrSell ord \<in> {BUY, SELL}"
    and oq: "oq = quantity ord - trade_quantity ord m" and mq: "mq = quantity m - trade_quantity ord m" "in_int32 mq"
  shows "outcome (stopped ord m t) (at_stage ord m t 4)
    (finish_trade E (ord\<lparr>created_at := Some ts, quantity := oq\<rparr>) (m\<lparr>quantity := mq\<rparr>)) (ended ord m t)"
  unfolding finish_trade_def
proof (rule outcome_checked)
  note E = shared
  let ?ord = "ord\<lparr>created_at := Some ts, quantity := oq\<rparr>" and ?m = "m\<lparr>quantity := mq\<rparr>"
  have mi: "order_ints ?m" using ints(2) mq(2) by (simp add: order_ints_def)
  have "outcome (stopped ord m t) (at_stage ord m t 4) (delete_order E (orderID m))
      (\<lambda>res. if res = 0 then at_stage ord m t 5 else stopped ord m t)" if "mq = 0"
    by (rule outcome_step[OF delete_order_spec wf.keeps_delete_order[OF E]])
      (use that mq(1) Book_updated in \<open>fastforce simp: book_after_def intro: stage_stopped\<close>)+
  moreover have "outcome (stopped ord m t) (at_stage ord m t 4) (update_order E ?m)
      (\<lambda>res. if res = 0 then at_stage ord m t 5 else stopped ord m t)" if "mq \<noteq> 0"
    by (rule outcome_step[OF update_order_spec wf.keeps_update_order[OF E mi]])
      (use that mq(1) Book_updated in \<open>fastforce simp: book_after_def intro: stage_stopped\<close>)+
  ultimately show "outcome (stopped ord m t) (at_stage ord m t 4)
      (if quantity ?m = 0 then delete_order E (orderID ?m) else update_order E ?m)
      (\<lambda>res. if res = 0 then at_stage ord m t 5 else stopped ord m t)"
    by simp
  show "outcome (stopped ord m t) (at_stage ord m t 5)
    (cbind (if 0 < quantity ?ord then insert_order E ?ord else ret 0) (\<lambda>res. if res \<noteq> 0 then ret (- 1) else ret 0))
    (ended ord m t)"
  proof (cases "quantity m < quantity ord")
    case True
    then have pos: "0 < oq" "oq = quantity ord - quantity m" "last_stage ord m = 7"
      by (simp_all add: oq trade_quantity_def last_stage_def)
    then have "outcome (stopped ord m t) (at_stage ord m t 5)
        (cbind (insert_order E ?ord) (\<lambda>res. if res \<noteq> 0 then ret (- 1) else ret 0)) (ended ord m t)"
      by (simp only:, intro outcome_checked[OF outcome_rest_placed[OF True ints(1) side]])
        (auto simp: ended_def stopped_def intro!: outcome_ret)
    with pos(1) show ?thesis by simp
  next
    case False
    then have "\<not> 0 < oq" "last_stage ord m = 5" by (simp_all add: oq trade_quantity_def last_stage_def)
    then show ?thesis by (auto simp: ended_def intro!: outcome_ret)
  qed
qed (simp add: stopped_ended)

end

text \<open>
  What the two handlers rely on when they settle the parties: the new balances are computed without a
  statement, and they are those of the market when the order is on the handler's side of it.
\<close>

locale trade_parties = sqlite_engine E for E :: "'w platform" +
  fixes trade_side :: int
    and new_pays :: "order_t \<Rightarrow> order_t \<Rightarrow> user_t \<Rightarrow> ('w, user_t) dbprog"
    and old_pays :: "order_t \<Rightarrow> order_t \<Rightarrow> user_t \<Rightarrow> ('w, user_t) dbprog"
  assumes trade_side: "trade_side \<in> {BUY, SELL}"
    and new_state: "new_pays ord m u c = (r, c') \<Longrightarrow> c' = c"
    and old_state: "old_pays ord m u c = (r, c') \<Longrightarrow> c' = c"
    and new_pays: "new_pays ord m u c = (Inr u', c') \<Longrightarrow> buyOrSell ord = trade_side \<Longrightarrow> user_ok u \<Longrightarrow>
      user_ok u' \<and> new_party ord m u = Some u'"
    and old_pays: "old_pays ord m u c = (Inr u', c') \<Longrightarrow> buyOrSell ord = trade_side \<Longrightarrow> user_ok u \<Longrightarrow>
      user_ok u' \<and> old_party ord m u = Some u'"
begin

text \<open>The account of the matched order's owner is settled.\<close>

lemma outcome_match_old:
  assumes ints: "in_int32 (ord_userID ord)" "order_ints m" "in_int32 (ord_userID m)" and side: "buyOrSell ord = trade_side"
    and oq: "oq = quantity ord - trade_quantity ord m" and mq: "mq = quantity m - trade_quantity ord m" "in_int32 mq"
  shows "outcome (stopped ord m t) (at_stage ord m t 3)
    (match_old E (\<lambda>ord. old_pays ord m) (ord\<lparr>created_at := Some ts\<rparr>) m oq mq) (ended ord m t)"
  unfolding match_old_def
proof (rule outcome_got)
  note E = shared
  let ?owner = "\<lambda>v x. v \<in> set (users x) \<and> userID v = ord_userID m"
  have stop: "trade_stage ord m t 3 x \<Longrightarrow> stopped ord m t x" for x by (erule stage_stopped) simp
  show "outcome (stopped ord m t) (at_stage ord m t 3) (get_user E (ord_userID m)) (\<lambda>got x. case got of
      Inl _ \<Rightarrow> stopped ord m t x | Inr v \<Rightarrow> at_stage ord m t 3 x \<and> ?owner v x)"
    by (rule outcome_weaken[OF outcome_get_user[OF ints(3), where B = "at_stage ord m t 3" and Y = "stopped ord m t"]])
      (auto intro: stop split: sum.splits)
  fix v
  show "outcome (stopped ord m t) (\<lambda>x. at_stage ord m t 3 x \<and> ?owner v x)
      (cbind (old_pays (ord\<lparr>created_at := Some ts\<rparr>) m v) (\<lambda>v. cbind (update_user_balance E v)
       (\<lambda>res. if res \<noteq> 0 then ret (- 1) else
         finish_trade E (ord\<lparr>created_at := Some ts, quantity := oq\<rparr>) (m\<lparr>quantity := mq\<rparr>)))) (ended ord m t)"
  proof (rule outcome_cbind)
    let ?B = "\<lambda>v' x. trade_stage ord m t 3 x \<and> ?owner v x \<and> old_party ord m v = Some v'"
    show "outcome (stopped ord m t) (\<lambda>x. at_stage ord m t 3 x \<and> ?owner v x)
        (old_pays (ord\<lparr>created_at := Some ts\<rparr>) m v) (\<lambda>v' x. user_ok v' \<and> ?B v' x \<and> wf_db x)"
      by (rule outcome_pure)
        (use side stop wf_user_rowD in \<open>auto dest: old_state old_pays\<close>)
    show "outcome (stopped ord m t) (\<lambda>x. user_ok v' \<and> ?B v' x \<and> wf_db x) (cbind (update_user_balance E v')
        (\<lambda>res. if res \<noteq> 0 then ret (- 1) else
          finish_trade E (ord\<lparr>created_at := Some ts, quantity := oq\<rparr>) (m\<lparr>quantity := mq\<rparr>))) (ended ord m t)" for v'
    proof (rule outcome_fact)
      assume "user_ok v'"
      then have "outcome (stopped ord m t) (\<lambda>x. ?B v' x \<and> wf_db x) (update_user_balance E v')
          (\<lambda>res. if res = 0 then at_stage ord m t 4 else stopped ord m t)"
        by (intro outcome_step[OF update_user_balance_spec wf.keeps_update_user_balance[OF E]])
          (use stop Old_settled in \<open>fastforce simp: set_user_def\<close>)+
      then show "outcome (stopped ord m t) (\<lambda>x. ?B v' x \<and> wf_db x) (cbind (update_user_balance E v')
          (\<lambda>res. if res \<noteq> 0 then ret (- 1) else
            finish_trade E (ord\<lparr>created_at := Some ts, quantity := oq\<rparr>) (m\<lparr>quantity := mq\<rparr>))) (ended ord m t)"
        by (rule outcome_checked[OF _ outcome_finish])
          (use ints side trade_side oq mq in \<open>auto intro: stopped_ended\<close>)
    qed
  qed
qed (simp add: stopped_ended)

text \<open>The quantities are brought down, and the account of the new order's owner is settled.\<close>

lemma outcome_quantity:
  "outcome (stopped ord m t) (at_stage ord m t 2) (csub a b) (\<lambda>d x. (d = a - b \<and> in_int32 d) \<and> at_stage ord m t 2 x)"
  by (rule outcome_pure) (auto simp: csub_Inr_iff dest: csub_state stage_stopped)

lemma outcome_match_parties:
  assumes ints: "in_int32 (ord_userID ord)" "order_ints m" "in_int32 (ord_userID m)" and side: "buyOrSell ord = trade_side"
    and u: "u \<in> set (users t)" "userID u = ord_userID ord" "user_ok u"
  shows "outcome (stopped ord m t) (at_stage ord m t 2)
    (match_parties E (\<lambda>ord. new_pays ord m u) (\<lambda>ord. old_pays ord m) (ord\<lparr>created_at := Some ts\<rparr>) m) (ended ord m t)"
  unfolding match_parties_def
proof (rule outcome_cbind[OF outcome_quantity], rule outcome_fact, rule outcome_cbind[OF outcome_quantity],
    rule outcome_fact, rule outcome_cbind)
  note E = shared
  let ?ord = "ord\<lparr>created_at := Some ts\<rparr>"
  have stop: "trade_stage ord m t 2 x \<Longrightarrow> stopped ord m t x" for x by (erule stage_stopped) simp
  fix oq mq
  assume q: "oq = quantity ?ord - trade_quantity ?ord m \<and> in_int32 oq" "mq = quantity m - trade_quantity ?ord m \<and> in_int32 mq"
  let ?B = "\<lambda>u' x. trade_stage ord m t 2 x \<and> new_party ord m u = Some u'"
  show "outcome (stopped ord m t) (at_stage ord m t 2) (new_pays ?ord m u) (\<lambda>u' x. user_ok u' \<and> ?B u' x \<and> wf_db x)"
    by (rule outcome_pure) (use side stop u(3) in \<open>auto dest: new_state new_pays\<close>)
  show "outcome (stopped ord m t) (\<lambda>x. user_ok u' \<and> ?B u' x \<and> wf_db x) (cbind (update_user_balance E u')
      (\<lambda>res. if res \<noteq> 0 then ret (- 1) else match_old E (\<lambda>ord. old_pays ord m) ?ord m oq mq)) (ended ord m t)" for u'
  proof (rule outcome_fact)
    assume "user_ok u'"
    then have "outcome (stopped ord m t) (\<lambda>x. ?B u' x \<and> wf_db x) (update_user_balance E u')
        (\<lambda>res. if res = 0 then at_stage ord m t 3 else stopped ord m t)"
      by (intro outcome_step[OF update_user_balance_spec wf.keeps_update_user_balance[OF E]])
        (use u stop New_settled in \<open>fastforce simp: set_user_def\<close>)+
    then show "outcome (stopped ord m t) (\<lambda>x. ?B u' x \<and> wf_db x) (cbind (update_user_balance E u')
        (\<lambda>res. if res \<noteq> 0 then ret (- 1) else match_old E (\<lambda>ord. old_pays ord m) ?ord m oq mq)) (ended ord m t)"
      by (rule outcome_checked[OF _ outcome_match_old[OF ints side]])
        (use q in \<open>auto simp: trade_quantity_def intro: stopped_ended\<close>)
  qed
qed

text \<open>Both orders are archived first.\<close>

lemma outcome_match_with:
  assumes wf: "wf_db t" and ids: "ids_small t" and ints: "order_ints ord" "in_int32 (ord_userID ord)"
    and side: "buyOrSell ord = trade_side" and u: "u \<in> set (users t)" "userID u = ord_userID ord"
    and m: "m \<in> set (orders t)"
  shows "outcome (stopped ord m t) (\<lambda>t'. t' = t)
    (match_with E ord m (\<lambda>ord. new_pays ord m u) (\<lambda>ord. old_pays ord m)) (ended ord m t)"
  unfolding match_with_def
proof (rule outcome_got)
  note E = shared
  have mi: "order_ints m" "created_at m \<noteq> None" "in_int32 (ord_userID m)"
    using wf_order_rowD[OF wf m] wf_small_ids(2)[OF wf ids m] by (auto simp: order_ints_def order_ok_def)
  have stop: "stopped ord m t t" using stage_stopped[OF Begun] by simp
  show "outcome (stopped ord m t) (\<lambda>x. x = t) (assign_order_timestamp E ord) (\<lambda>got x. case got of
      Inl _ \<Rightarrow> stopped ord m t x | Inr ord1 \<Rightarrow> (\<exists>ts. ord1 = ord\<lparr>created_at := Some ts\<rparr>) \<and> at_stage ord m t 0 x)"
    by (rule outcomeI) (use wf stop Begun[of ord m t] in \<open>auto dest!: assign_order_timestamp_spec split: sum.split\<close>)
  show "outcome (stopped ord m t) (\<lambda>x. (\<exists>ts. ord1 = ord\<lparr>created_at := Some ts\<rparr>) \<and> at_stage ord m t 0 x)
    (cbind (archive_order E m) (\<lambda>res. if res \<noteq> 0 then ret (- 1) else
     cbind (archive_order E ord1) (\<lambda>res. if res \<noteq> 0 then ret (- 1) else
     match_parties E (\<lambda>ord. new_pays ord m u) (\<lambda>ord. old_pays ord m) ord1 m))) (ended ord m t)" for ord1
  proof (rule outcome_fact, elim exE)
    fix ts assume ord1: "ord1 = ord\<lparr>created_at := Some ts\<rparr>"
    have o1: "order_ints ord1" "created_at ord1 \<noteq> None" using ints(1) by (simp_all add: ord1 order_ints_def)
    have a1: "outcome (stopped ord m t) (at_stage ord m t 0) (archive_order E m)
        (\<lambda>res. if res = 0 then at_stage ord m t 1 else stopped ord m t)"
      unfolding archive_order_def
      by (rule outcome_step[OF insert_archive_spec wf.keeps_insert_archive[OF E mi(1,2)]])
        (use Old_archived in \<open>fastforce simp: archived_row_def intro: stage_stopped\<close>)+
    have a2: "outcome (stopped ord m t) (at_stage ord m t 1) (archive_order E ord1)
        (\<lambda>res. if res = 0 then at_stage ord m t 2 else stopped ord m t)"
      unfolding archive_order_def
      by (rule outcome_step[OF insert_archive_spec wf.keeps_insert_archive[OF E o1]])
        (use New_archived in \<open>fastforce simp: archived_row_def ord1 intro: stage_stopped\<close>)+
    show "outcome (stopped ord m t) (at_stage ord m t 0)
      (cbind (archive_order E m) (\<lambda>res. if res \<noteq> 0 then ret (- 1) else
       cbind (archive_order E ord1) (\<lambda>res. if res \<noteq> 0 then ret (- 1) else
       match_parties E (\<lambda>ord. new_pays ord m u) (\<lambda>ord. old_pays ord m) ord1 m))) (ended ord m t)"
      unfolding ord1
      by (intro outcome_checked[OF a1] outcome_checked[OF a2[unfolded ord1]] outcome_match_parties)
        (use ints(2) mi side u wf_user_rowD[OF wf u(1)] in \<open>auto intro: stopped_ended\<close>)
  qed
qed (simp add: stopped_ended)

end

end
