(* ===== verification/Outcomes.thy ===== *)
theory Outcomes
  imports Failures
begin

text \<open>
  What \<open>buy\<close>, \<open>sell\<close> and \<open>cancel_order\<close> leave in the tables, whatever they return and however they are
  interrupted, on every engine that keeps the contract: the commands are not transactions, and these
  theorems list all the states they can stop in.
\<close>

section \<open>The two trades\<close>

lemma pay_state: "pay cost u c = (r, c') \<Longrightarrow> c' = c" and earn_state: "earn cost u c = (r, c') \<Longrightarrow> c' = c"
  by (auto simp: pay_def earn_def cbind_def of_option_def ret_def stop_def split: option.split_asm)

lemma credit_coin_state: "credit_coin i n u c = (r, c') \<Longrightarrow> c' = c"
  and debit_coin_state: "debit_coin i n u c = (r, c') \<Longrightarrow> c' = c"
  by (auto simp: credit_coin_def debit_coin_def cbind_def cadd_def csub_def ret_def stop_def split: if_split_asm)

lemma cbind_state:
  assumes "cbind m f c = (r, c')" and "\<And>r1 c1. m c = (r1, c1) \<Longrightarrow> c1 = c" and "\<And>a r1 c1. f a c = (r1, c1) \<Longrightarrow> c1 = c"
  shows "c' = c"
  using assms(1) by (auto simp: cbind_def dest: assms(2,3) split: prod.split_asm sum.split_asm)

lemmas balance_state = pay_state earn_state credit_coin_state debit_coin_state

sublocale sqlite_engine \<subseteq> buying: trade_parties E BUY
  "\<lambda>ord m u. cbind (pay (trade_cost ord m) u) (credit_coin (item ord) (trade_quantity ord m))"
  "\<lambda>ord m v. cbind (earn (trade_cost ord m) v) (debit_coin (item m) (trade_quantity ord m))"
  by unfold_locales (auto elim!: cbind_state dest: balance_state dest!: buyer_run rested_seller_run
    simp: new_party_eq old_party_eq)

sublocale sqlite_engine \<subseteq> selling: trade_parties E SELL
  "\<lambda>ord m u. cbind (debit_coin (item ord) (trade_quantity ord m) u) (earn (trade_cost ord m))"
  "\<lambda>ord m v. cbind (pay (trade_cost ord m) v) (credit_coin (item m) (trade_quantity ord m))"
  by unfold_locales (auto elim!: cbind_state dest: balance_state dest!: new_seller_run buyer_run
    simp: new_party_eq old_party_eq)

context sqlite_engine
begin

lemma outcome_buy_match:
  assumes "wf_db t" and "ids_small t" and "order_ints ord" and "in_int32 (ord_userID ord)" and "buyOrSell ord = BUY"
    and "u \<in> set (users t)" and "userID u = ord_userID ord" and "m \<in> set (orders t)"
  shows "outcome (stopped ord m t) (\<lambda>t'. t' = t) (buy_match E u ord m) (ended ord m t)"
  unfolding buy_match_with by (rule buying.outcome_match_with[OF assms])

lemma outcome_sell_match:
  assumes "wf_db t" and "ids_small t" and "order_ints ord" and "in_int32 (ord_userID ord)" and "buyOrSell ord = SELL"
    and "u \<in> set (users t)" and "userID u = ord_userID ord" and "m \<in> set (orders t)"
  shows "outcome (stopped ord m t) (\<lambda>t'. t' = t) (sell_match E u ord m) (ended ord m t)"
  unfolding sell_match_with by (rule selling.outcome_match_with[OF assms])

end

section \<open>New orders\<close>

text \<open>
  The states a new order can leave: nothing done, an order in the book without its coins locked, the
  order resting, or a trade with some open order that has come up to some stage. Any open order: the
  code of a search that could not be prepared is taken for the number of one.
\<close>

definition order_outcome :: "order_t \<Rightarrow> bool \<Rightarrow> tables \<Rightarrow> tables \<Rightarrow> bool" where
  "order_outcome ord ok t t' \<longleftrightarrow> (if ok
     then placed ord t t' \<or> (\<exists>m \<in> set (orders t). trade_stage ord m t (last_stage ord m) t')
     else t' = t \<or> booked ord t t' \<or> (\<exists>m \<in> set (orders t). stopped ord m t t'))"

context sqlite_engine
begin

lemma outcome_reads:
  assumes "\<And>t. keeps (\<lambda>c. db c = t) m" and "\<And>t. B t \<Longrightarrow> Y t"
  shows "outcome Y B m (\<lambda>_. B)"
  by (rule outcomeI) (use assms in \<open>fastforce dest: keepsD split: sum.split\<close>)

lemma keeps_finds: "keeps (\<lambda>c. db c = t) (find_matching_sell E ord)" "keeps (\<lambda>c. db c = t) (find_matching_buy E ord)"
  unfolding find_matching_sell_def find_matching_buy_def Let_def
  by (intro keeps_intros keeps_prepare keeps_step; simp)+

lemma outcome_get_order:
  assumes "wf_db t" and "ids_small t"
  shows "outcome Y (\<lambda>t'. t' = t) (get_order E k)
    (\<lambda>got t'. case got of Inl _ \<Rightarrow> t' = t | Inr m \<Rightarrow> (m \<in> set (orders t) \<and> orderID m = k) \<and> t' = t)"
proof (rule outcomeI)
  fix c r c' assume "db c = t" and run: "get_order E k c = (r, c')"
  then show "case r of Inl e \<Rightarrow> Y (db c') | Inr got \<Rightarrow>
      (case got of Inl _ \<Rightarrow> db c' = t | Inr m \<Rightarrow> (m \<in> set (orders t) \<and> orderID m = k) \<and> db c' = t)"
    using get_order_spec[OF _ _ run] assms by auto
qed

text \<open>Both handlers from the search on; \<open>trade\<close> is what they do with the match.\<close>

lemma outcome_search:
  assumes wf: "wf_db t" "ids_small t" and ints: "in_int32 (ord_userID ord)" and side: "buyOrSell ord \<in> {BUY, SELL}"
    and find: "\<And>t. keeps (\<lambda>c. db c = t) search"
    and trade: "\<And>m. m \<in> set (orders t) \<Longrightarrow> outcome (stopped ord m t) (\<lambda>t'. t' = t) (trade m) (ended ord m t)"
  shows "outcome (order_outcome ord False t) (\<lambda>t'. t' = t)
    (cbind search (\<lambda>result. if result = - 1 then insert_order E ord else
     cbind (get_order E result) (\<lambda>got. case got of Inl _ \<Rightarrow> ret (- 1) | Inr m \<Rightarrow> trade m)))
    (\<lambda>res. order_outcome ord (res = 0) t)"
proof (rule outcome_cbind[OF outcome_reads[OF find]])
  have start: "order_outcome ord False t t" by (simp add: order_outcome_def)
  then show "t' = t \<Longrightarrow> order_outcome ord False t t'" for t' by simp
  have rest: "outcome (order_outcome ord False t) (\<lambda>t'. t' = t) (insert_order E ord) (\<lambda>res. order_outcome ord (res = 0) t)"
    by (rule outcome_weaken[OF outcome_insert_order[OF wf(1) ints side]]) (auto simp: order_outcome_def split: if_splits)
  have match: "outcome (order_outcome ord False t) (\<lambda>t'. t' = t) (trade m) (\<lambda>res. order_outcome ord (res = 0) t)"
    if m: "m \<in> set (orders t)" for m
    by (rule outcome_weaken[OF trade[OF m]]) (use m in \<open>auto simp: order_outcome_def stopped_def ended_def\<close>)
  have "outcome (order_outcome ord False t) (\<lambda>t'. t' = t)
      (cbind (get_order E k) (\<lambda>got. case got of Inl _ \<Rightarrow> ret (- 1) | Inr m \<Rightarrow> trade m)) (\<lambda>res. order_outcome ord (res = 0) t)" for k
  proof (rule outcome_cbind[OF outcome_get_order[OF wf]])
    fix got :: "int + order_t"
    show "outcome (order_outcome ord False t)
        (\<lambda>t'. case got of Inl _ \<Rightarrow> t' = t | Inr m \<Rightarrow> (m \<in> set (orders t) \<and> orderID m = k) \<and> t' = t)
        (case got of Inl _ \<Rightarrow> ret (- 1) | Inr m \<Rightarrow> trade m) (\<lambda>res. order_outcome ord (res = 0) t)"
      by (cases got) (use start match in \<open>auto intro!: outcome_ret outcome_fact\<close>)
  qed
  with rest show "outcome (order_outcome ord False t) (\<lambda>t'. t' = t) (if k = - 1 then insert_order E ord else
     cbind (get_order E k) (\<lambda>got. case got of Inl _ \<Rightarrow> ret (- 1) | Inr m \<Rightarrow> trade m)) (\<lambda>res. order_outcome ord (res = 0) t)" for k
    by simp
qed

lemma outcome_account:
  assumes "wf_db t" and "in_int32 k"
  shows "outcome Y (\<lambda>t'. t' = t) (get_user E k)
    (\<lambda>got t'. case got of Inl _ \<Rightarrow> t' = t | Inr u \<Rightarrow> (u \<in> set (users t) \<and> userID u = k) \<and> t' = t)"
proof (rule outcomeI)
  fix c r c' assume "db c = t" and run: "get_user E k c = (r, c')"
  then show "case r of Inl e \<Rightarrow> Y (db c') | Inr got \<Rightarrow>
      (case got of Inl _ \<Rightarrow> db c' = t | Inr u \<Rightarrow> (u \<in> set (users t) \<and> userID u = k) \<and> db c' = t)"
    using get_user_spec[OF _ assms(2) run] assms(1) by auto
qed

lemma outcome_buy:
  assumes wf: "wf_db t" "ids_small t" and ints: "order_ints ord" "in_int32 (ord_userID ord)" and side: "buyOrSell ord = BUY"
  shows "outcome (order_outcome ord False t) (\<lambda>t'. t' = t) (buy E (Some ord)) (\<lambda>res. order_outcome ord (res = 0) t)"
  unfolding buy_def of_option_simps cbind_ret
proof (rule outcome_cbind[OF outcome_account[OF wf(1) ints(2)]])
  have start: "order_outcome ord False t t" by (simp add: order_outcome_def)
  fix got :: "int + user_t"
  have "outcome (order_outcome ord False t) (\<lambda>t'. t' = t)
      (cbind (find_matching_sell E ord) (\<lambda>result. if result = - 1 then insert_order E ord else
       cbind (get_order E result) (\<lambda>got. case got of Inl _ \<Rightarrow> ret (- 1) | Inr m \<Rightarrow> buy_match E u ord m)))
      (\<lambda>res. order_outcome ord (res = 0) t)" if "u \<in> set (users t)" "userID u = ord_userID ord" for u
    by (rule outcome_search[OF wf ints(2) _ keeps_finds(1) outcome_buy_match[OF wf ints side that]]) (use side in simp)
  then show "outcome (order_outcome ord False t)
      (\<lambda>t'. case got of Inl _ \<Rightarrow> t' = t | Inr u \<Rightarrow> (u \<in> set (users t) \<and> userID u = ord_userID ord) \<and> t' = t)
      (case got of Inl _ \<Rightarrow> ret (- 1) | Inr u \<Rightarrow>
       if dlt (of_cint (OMG u)) (dmul (of_cint (quantity ord)) (unitPrice ord)) then ret (- 1) else
       cbind (find_matching_sell E ord) (\<lambda>result. if result = - 1 then insert_order E ord else
       cbind (get_order E result) (\<lambda>got. case got of Inl _ \<Rightarrow> ret (- 1) | Inr m \<Rightarrow> buy_match E u ord m)))
      (\<lambda>res. order_outcome ord (res = 0) t)"
    using start by (cases got) (auto intro!: outcome_ret outcome_fact)
qed

lemma outcome_sell:
  assumes wf: "wf_db t" "ids_small t" and ints: "order_ints ord" "in_int32 (ord_userID ord)" and side: "buyOrSell ord = SELL"
  shows "outcome (order_outcome ord False t) (\<lambda>t'. t' = t) (sell E (Some ord)) (\<lambda>res. order_outcome ord (res = 0) t)"
  unfolding sell_def of_option_simps cbind_ret
proof (rule outcome_cbind[OF outcome_account[OF wf(1) ints(2)]])
  have start: "order_outcome ord False t t" by (simp add: order_outcome_def)
  fix got :: "int + user_t"
  have "outcome (order_outcome ord False t) (\<lambda>t'. t' = t)
      (cbind (find_matching_buy E ord) (\<lambda>result. if result = - 1 then insert_order E ord else
       cbind (get_order E result) (\<lambda>got. case got of Inl _ \<Rightarrow> ret (- 1) | Inr m \<Rightarrow> sell_match E u ord m)))
      (\<lambda>res. order_outcome ord (res = 0) t)" if "u \<in> set (users t)" "userID u = ord_userID ord" for u
    by (rule outcome_search[OF wf ints(2) _ keeps_finds(2) outcome_sell_match[OF wf ints side that]]) (use side in simp)
  then show "outcome (order_outcome ord False t)
      (\<lambda>t'. case got of Inl _ \<Rightarrow> t' = t | Inr u \<Rightarrow> (u \<in> set (users t) \<and> userID u = ord_userID ord) \<and> t' = t)
      (case got of Inl _ \<Rightarrow> ret (- 1) | Inr u \<Rightarrow> if lacks_coins u ord then ret (- 1) else
       cbind (find_matching_buy E ord) (\<lambda>result. if result = - 1 then insert_order E ord else
       cbind (get_order E result) (\<lambda>got. case got of Inl _ \<Rightarrow> ret (- 1) | Inr m \<Rightarrow> sell_match E u ord m)))
      (\<lambda>res. order_outcome ord (res = 0) t)"
    using start by (cases got) (auto intro!: outcome_ret outcome_fact)
qed

end

section \<open>Taking an order back\<close>

text \<open>The owner has got the coins of the order back, and the order is still open.\<close>

definition refund_only :: "int \<Rightarrow> int \<Rightarrow> tables \<Rightarrow> tables \<Rightarrow> bool" where
  "refund_only uid k t t' \<longleftrightarrow> (\<exists>r u u'. r \<in> set (orders t) \<and> orderID r = k \<and> ord_userID r = uid \<and>
     u \<in> set (users t) \<and> userID u = uid \<and> refunded r u = Some u' \<and> t' = set_user u' t)"

definition own_order :: "int \<Rightarrow> int \<Rightarrow> tables \<Rightarrow> bool" where
  "own_order uid k t \<longleftrightarrow> (\<exists>r \<in> set (orders t). orderID r = k \<and> ord_userID r = uid)"

definition cancel_outcome :: "int \<Rightarrow> int \<Rightarrow> int \<Rightarrow> tables \<Rightarrow> tables \<Rightarrow> bool" where
  "cancel_outcome uid k res t t' \<longleftrightarrow> (res = 0 \<and> cancelled uid k t t') \<or> (res = - 1 \<and> (t' = t \<or> refund_only uid k t t'))"

context sqlite_engine
begin

text \<open>The refund is written, and the order deleted.\<close>

lemma outcome_paid_back:
  assumes r: "r \<in> set (orders t)" "orderID r = k" "ord_userID r = uid"
    and u: "u \<in> set (users t)" "userID u = uid" "refunded r u = Some u'"
  shows "outcome (\<lambda>t'. t' = t \<and> own_order uid k t) (\<lambda>t'. t' = t)
    (cbind (update_user_balance E u') (\<lambda>res. if res \<noteq> 0 then ret (- 1) else
     cbind (delete_order E k) (\<lambda>res. if res \<noteq> 0 then ret (- 1) else ret 0))) (\<lambda>res. cancel_outcome uid k res t)"
proof (rule outcome_checked)
  have paid: "refund_only uid k t (set_user u' t)" and gone: "cancelled uid k t (remove_order k (set_user u' t))"
    unfolding refund_only_def cancelled_def using r u by blast+
  let ?Y = "\<lambda>t'. t' = t \<and> own_order uid k t"
  show "outcome ?Y (\<lambda>t'. t' = t) (update_user_balance E u') (\<lambda>res. if res = 0 then \<lambda>t'. t' = set_user u' t else ?Y)"
    by (rule outcome_wrote[OF update_user_balance_spec]) (use r in \<open>auto simp: set_user_def own_order_def\<close>)
  show "outcome ?Y (\<lambda>t'. t' = set_user u' t) (cbind (delete_order E k) (\<lambda>res. if res \<noteq> 0 then ret (- 1) else ret 0))
      (\<lambda>res. cancel_outcome uid k res t)"
    by (rule outcome_cbind[OF outcome_write[OF delete_order_spec]])
      (use paid gone in \<open>auto simp: cancel_outcome_def intro!: outcome_ret\<close>)
qed (simp add: cancel_outcome_def)

lemma outcome_refund:
  assumes r: "r \<in> set (orders t)" "orderID r = k" "ord_userID r = uid"
  shows "outcome (\<lambda>t'. t' = t \<and> own_order uid k t) (\<lambda>t'. (u \<in> set (users t) \<and> userID u = uid) \<and> t' = t)
    (cbind (if buyOrSell r = 0 then earn (dmul (of_cint (quantity r)) (unitPrice r)) u
            else credit_coin (item r) (quantity r) u) (\<lambda>u.
     cbind (update_user_balance E u) (\<lambda>res. if res \<noteq> 0 then ret (- 1) else
     cbind (delete_order E k) (\<lambda>res. if res \<noteq> 0 then ret (- 1) else ret 0)))) (\<lambda>res. cancel_outcome uid k res t)"
proof (rule outcome_fact, rule outcome_cbind)
  assume u: "u \<in> set (users t) \<and> userID u = uid"
  show "outcome (\<lambda>t'. t' = t \<and> own_order uid k t) (\<lambda>t'. t' = t)
      (if buyOrSell r = 0 then earn (dmul (of_cint (quantity r)) (unitPrice r)) u
       else credit_coin (item r) (quantity r) u) (\<lambda>u' t'. refunded r u = Some u' \<and> t' = t)"
    by (rule outcome_pure)
      (use r in \<open>auto simp: own_order_def refunded_def earn_run dest: balance_state credit_coin_run split: if_split_asm\<close>)
qed (rule outcome_fact, rule outcome_paid_back[OF r]; blast)

lemma outcome_cancel_order:
  assumes wf: "wf_db t" "ids_small t"
  shows "outcome (\<lambda>t'. t' = t \<and> own_order uid k t) (\<lambda>t'. t' = t) (cancel_order E k uid) (\<lambda>res. cancel_outcome uid k res t)"
    (is "outcome ?Y _ _ ?D")
  unfolding cancel_order_def
proof (rule outcome_cbind[OF outcome_get_order[OF wf]])
  have refuse: "outcome ?Y (\<lambda>t'. t' = t) (ret (- 1)) ?D" by (rule outcome_ret) (simp add: cancel_outcome_def)
  have own: "outcome ?Y (\<lambda>t'. t' = t) (cbind (get_user E uid) (\<lambda>got. case got of Inl _ \<Rightarrow> ret (- 1) | Inr u \<Rightarrow>
     cbind (if buyOrSell r = 0 then earn (dmul (of_cint (quantity r)) (unitPrice r)) u
            else credit_coin (item r) (quantity r) u) (\<lambda>u.
     cbind (update_user_balance E u) (\<lambda>res. if res \<noteq> 0 then ret (- 1) else
     cbind (delete_order E k) (\<lambda>res. if res \<noteq> 0 then ret (- 1) else ret 0))))) ?D"
    if r: "r \<in> set (orders t)" "orderID r = k" "ord_userID r = uid" for r
  proof (rule outcome_cbind[OF outcome_account[OF wf(1)]])
    show "in_int32 uid" using wf_small_ids(2)[OF wf r(1)] r(3) by simp
    show "outcome ?Y (\<lambda>t'. case got of Inl _ \<Rightarrow> t' = t | Inr u \<Rightarrow> (u \<in> set (users t) \<and> userID u = uid) \<and> t' = t)
       (case got of Inl _ \<Rightarrow> ret (- 1) | Inr u \<Rightarrow>
        cbind (if buyOrSell r = 0 then earn (dmul (of_cint (quantity r)) (unitPrice r)) u
            else credit_coin (item r) (quantity r) u) (\<lambda>u.
        cbind (update_user_balance E u) (\<lambda>res. if res \<noteq> 0 then ret (- 1) else
        cbind (delete_order E k) (\<lambda>res. if res \<noteq> 0 then ret (- 1) else ret 0)))) ?D" for got :: "int + user_t"
      by (cases got) (use outcome_refund[OF r] refuse in auto)
  qed
  fix got :: "int + order_t"
  show "outcome ?Y (\<lambda>t'. case got of Inl _ \<Rightarrow> t' = t | Inr r \<Rightarrow> (r \<in> set (orders t) \<and> orderID r = k) \<and> t' = t)
    (case got of Inl _ \<Rightarrow> ret (- 1) | Inr r \<Rightarrow> if ord_userID r \<noteq> uid then ret (- 1) else
     cbind (get_user E (ord_userID r)) (\<lambda>got. case got of Inl _ \<Rightarrow> ret (- 1) | Inr u \<Rightarrow>
     cbind (if buyOrSell r = 0 then earn (dmul (of_cint (quantity r)) (unitPrice r)) u
            else credit_coin (item r) (quantity r) u) (\<lambda>u.
     cbind (update_user_balance E u) (\<lambda>res. if res \<noteq> 0 then ret (- 1) else
     cbind (delete_order E k) (\<lambda>res. if res \<noteq> 0 then ret (- 1) else ret 0))))) ?D"
    by (cases got) (use own refuse in \<open>auto intro!: outcome_fact\<close>)
qed

end

end
