(* ===== verification/Refinement.thy ===== *)
theory Refinement
  imports Outcomes
begin

text \<open>
  The commands refine the market: a call of \<open>buy\<close>, \<open>sell\<close> or \<open>cancel_order\<close> that reports success is a
  \<open>market_step\<close> of the tables seen as a market. \<open>insert_order\<close> and \<open>cancel_order\<close> do so on an engine
  that may fail at any statement; for \<open>buy\<close> and \<open>sell\<close> the engine has to be healthy, because a
  failure to prepare the search for a counterparty is taken for the identifier of one.
  On a healthy engine a new order that is not accepted has stopped in that very step (\<open>post_outcome\<close>).
\<close>

section \<open>Calls that report success\<close>

context sqlite_engine
begin

lemma insert_order_done:
  assumes "wf_conn c" and "in_int32 (ord_userID ord)" and "buyOrSell ord \<in> {BUY, SELL}"
    and "insert_order E ord c = (Inr 0, c')"
  shows "placed ord (db c) (db c')"
  using outcomeD[OF outcome_insert_order[OF assms(1-3)] refl assms(4)] by simp

lemma cancel_order_done:
  assumes "wf_conn c" and "ids_small (db c)" and "cancel_order E k uid c = (Inr 0, c')"
  shows "cancelled uid k (db c) (db c')"
  using outcomeD[OF outcome_cancel_order[OF assms(1,2)] refl assms(3)] by (simp add: cancel_outcome_def)

lemma buy_match_done:
  assumes "wf_conn c" and "ids_small (db c)" and "order_ints ord" and "in_int32 (ord_userID ord)"
    and "buyOrSell ord = BUY" and "u \<in> set (users (db c))" and "userID u = ord_userID ord"
    and "m \<in> set (orders (db c))" and "ord_userID m \<noteq> ord_userID ord"
    and run: "buy_match E u ord m c = (Inr 0, c')"
  shows "traded ord m (db c) (db c')"
  using outcomeD[OF outcome_buy_match[OF assms(1-8)] refl run] assms(9) by (auto simp: ended_def intro: stage_traded)

lemma sell_match_done:
  assumes "wf_conn c" and "ids_small (db c)" and "order_ints ord" and "in_int32 (ord_userID ord)"
    and "buyOrSell ord = SELL" and "u \<in> set (users (db c))" and "userID u = ord_userID ord"
    and "m \<in> set (orders (db c))" and "ord_userID m \<noteq> ord_userID ord"
    and run: "sell_match E u ord m c = (Inr 0, c')"
  shows "traded ord m (db c) (db c')"
  using outcomeD[OF outcome_sell_match[OF assms(1-8)] refl run] assms(9) by (auto simp: ended_def intro: stage_traded)

end

section \<open>The handlers are steps of the market\<close>

lemma keys_ok_settled: "settled ord m t t' \<Longrightarrow> keys_ok t \<Longrightarrow> keys_ok t'"
  by (auto simp: settled_def book_after_def archived_row_def simp del: wf_keys)

lemma place_created_at: "place (ord\<lparr>created_at := ts'\<rparr>) k ts M = place ord k ts M"
  by (simp add: place_def lock_def order_cost_def split: Option.bind_split)

lemma traded_step:
  assumes tr: "traded ord m t t'" and keys: "keys_ok t" and m: "m \<in> set (orders t)" "fills m ord"
    and old: "\<forall>x \<in> set (orders t). fills x ord \<longrightarrow> older m x"
    and u: "u \<in> set (users t)" "userID u = ord_userID ord" "affordable ord u"
  shows "market_step (Post ord) (market_of t) (market_of t')"
proof -
  obtain t1 ts where t1: "settled ord m t t1"
    and t': "if quantity ord \<le> quantity m then t' = t1
      else placed (ord\<lparr>quantity := quantity ord - quantity m, created_at := Some ts\<rparr>) t1 t'"
    using tr by (auto simp: traded_def)
  have "ord_userID m \<noteq> ord_userID ord" using m(2) by (simp add: fills_def)
  from settled_settle[OF t1 keys m(1) this]
  obtain ts1 where st: "settle ord m ts1 (market_of t) = Some (market_of t1)" ..
  have acct: "acct (market_of t) (ord_userID ord) = Some u" using u keys by (simp add: acct_iff)
  have best: "best_fill (market_of t) ord m"
    using m old keys by (simp add: best_fill_def book_iff ran_book)
  show ?thesis
  proof (cases "quantity ord \<le> quantity m")
    case True
    with t' st acct best u(3) show ?thesis by (auto intro: Fills)
  next
    case False
    with t' placed_place[OF _ keys_ok_settled[OF t1 keys]] obtain k ts2 where
      "place (ord\<lparr>quantity := quantity ord - quantity m\<rparr>) k ts2 (market_of t1) = Some (market_of t')"
      using place_created_at by metis
    with False st acct best u(3) show ?thesis by (auto intro: Fills_part)
  qed
qed

lemma set_matching_sells:
  "buyOrSell ord = BUY \<Longrightarrow> set (matching_sells t (item ord) (unitPrice ord) (ord_userID ord)) =
   {m \<in> set (orders t). fills m ord}"
  by (auto simp: matching_sells_def fills_def)

lemma set_matching_buys:
  "buyOrSell ord = SELL \<Longrightarrow> set (matching_buys t (item ord) (unitPrice ord) (ord_userID ord)) =
   {m \<in> set (orders t). fills m ord}"
  by (auto simp: matching_buys_def fills_def)

lemma oldest_ofD: "oldest_of ms k \<Longrightarrow> (k = - 1 \<and> ms = []) \<or> (\<exists>m \<in> set ms. orderID m = k \<and> (\<forall>x \<in> set ms. older m x))"
  by (auto simp: oldest_of_def split: if_splits)

text \<open>What a new order that was accepted did: it rests, or it traded with the oldest order that fills it.\<close>

definition posted :: "order_t \<Rightarrow> tables \<Rightarrow> tables \<Rightarrow> bool" where
  "posted ord t t' \<longleftrightarrow> (\<exists>u \<in> set (users t). userID u = ord_userID ord \<and> affordable ord u) \<and>
     ((\<forall>m \<in> set (orders t). \<not> fills m ord) \<and> placed ord t t' \<or>
      (\<exists>m \<in> set (orders t). fills m ord \<and> (\<forall>x \<in> set (orders t). fills x ord \<longrightarrow> older m x) \<and> traded ord m t t'))"

lemma posted_step:
  assumes "posted ord t t'" and "keys_ok t"
  shows "market_step (Post ord) (market_of t) (market_of t')"
proof -
  obtain u where u: "u \<in> set (users t)" "userID u = ord_userID ord" "affordable ord u"
    using assms(1) by (auto simp: posted_def)
  consider (rest) "\<forall>m \<in> set (orders t). \<not> fills m ord" "placed ord t t'"
    | (trade) m where "m \<in> set (orders t)" "fills m ord" "\<forall>x \<in> set (orders t). fills x ord \<longrightarrow> older m x"
        "traded ord m t t'"
    using assms(1) by (auto simp: posted_def)
  then show ?thesis
  proof cases
    case rest
    obtain k ts where "place ord k ts (market_of t) = Some (market_of t')"
      using placed_place[OF rest(2) assms(2)] by blast
    with rest(1) u assms(2) show ?thesis by (auto intro!: Rests simp: acct_iff ran_book)
  next
    case trade
    show ?thesis by (rule traded_step[OF trade(4) assms(2) trade(1,2,3) u])
  qed
qed

text \<open>And one that was not: nothing, the order in the book without its coins locked, or a part of that trade.\<close>

definition post_outcome :: "order_t \<Rightarrow> bool \<Rightarrow> tables \<Rightarrow> tables \<Rightarrow> bool" where
  "post_outcome ord ok t t' \<longleftrightarrow> (if ok then posted ord t t' else t' = t \<or> booked ord t t' \<or>
     (\<exists>m \<in> set (orders t). fills m ord \<and> (\<forall>x \<in> set (orders t). fills x ord \<longrightarrow> older m x) \<and> stopped ord m t t'))"

lemma post_outcome_same [simp, intro]: "post_outcome ord False t t"
  by (simp add: post_outcome_def)

context sqlite_healthy
begin

text \<open>Both handlers from the search on, when the search finds the oldest of the orders that fill the new one.\<close>

lemma outcome_best:
  assumes wf: "wf_db t" "ids_small t" and ints: "in_int32 (ord_userID ord)" and side: "buyOrSell ord \<in> {BUY, SELL}"
    and u: "u \<in> set (users t)" "userID u = ord_userID ord" "affordable ord u"
    and find: "outcome (post_outcome ord False t) (\<lambda>t'. t' = t) search (\<lambda>k t'. oldest_of ms k \<and> t' = t)"
    and ms: "set ms = {m \<in> set (orders t). fills m ord}"
    and trade: "\<And>m. m \<in> set (orders t) \<Longrightarrow> outcome (stopped ord m t) (\<lambda>t'. t' = t) (trade m) (ended ord m t)"
  shows "outcome (post_outcome ord False t) (\<lambda>t'. t' = t)
    (cbind search (\<lambda>result. if result = - 1 then insert_order E ord else
     cbind (get_order E result) (\<lambda>got. case got of Inl _ \<Rightarrow> ret (- 1) | Inr m \<Rightarrow> trade m)))
    (\<lambda>res. post_outcome ord (res = 0) t)"
proof (rule outcome_cbind[OF find], rule outcome_fact)
  fix k assume "oldest_of ms k"
  then consider (none) "k = - 1" "\<forall>m \<in> set (orders t). \<not> fills m ord"
    | (best) m where "m \<in> set (orders t)" "fills m ord" "orderID m = k" "\<forall>x \<in> set (orders t). fills x ord \<longrightarrow> older m x"
    using ms by (auto dest!: oldest_ofD)
  then show "outcome (post_outcome ord False t) (\<lambda>t'. t' = t) (if k = - 1 then insert_order E ord else
     cbind (get_order E k) (\<lambda>got. case got of Inl _ \<Rightarrow> ret (- 1) | Inr m \<Rightarrow> trade m)) (\<lambda>res. post_outcome ord (res = 0) t)"
  proof cases
    case none
    show ?thesis unfolding none(1)
      by (simp, rule outcome_weaken[OF outcome_insert_order[OF wf(1) ints side]])
        (use none u in \<open>auto simp: posted_def post_outcome_def\<close>)
  next
    case (best m)
    have k: "k \<noteq> - 1" using wf_order_rowD(4)[OF wf(1) best(1)] best(3) by simp
    have same: "m' = m" if "m' \<in> set (orders t) \<and> orderID m' = k" for m'
      using that best(1,3) wf(1) by (auto simp: wf_db_def intro: orders.row_unique)
    have "outcome (post_outcome ord False t) (\<lambda>t'. t' = t) (trade m') (\<lambda>res. post_outcome ord (res = 0) t)"
      if "m' \<in> set (orders t) \<and> orderID m' = k" for m' unfolding same[OF that]
      by (rule outcome_weaken[OF trade[OF best(1)]])
        (use best u in \<open>auto simp: posted_def post_outcome_def fills_def ended_def stopped_def dest: stage_traded\<close>)
    then have "outcome (post_outcome ord False t) (\<lambda>t'. t' = t)
        (cbind (get_order E k) (\<lambda>got. case got of Inl _ \<Rightarrow> ret (- 1) | Inr m \<Rightarrow> trade m)) (\<lambda>res. post_outcome ord (res = 0) t)"
      by (intro outcome_cbind[OF outcome_get_order[OF wf]]) (auto intro!: outcome_ret outcome_fact split: sum.split)
    with k show ?thesis by simp
  qed
qed

lemma buy_outcome:
  assumes wf: "wf_conn c" "ids_small (db c)" and made: "created (db c)"
    and ints: "order_ints ord" "in_int32 (ord_userID ord)" and side: "buyOrSell ord = BUY"
    and run: "buy E (Some ord) c = (r, c')"
  shows "post_outcome ord (r = Inr 0) (db c) (db c')"
proof -
  let ?t = "db c"
  have find: "outcome (post_outcome ord False ?t) (\<lambda>t'. t' = ?t) (find_matching_sell E ord)
      (\<lambda>k t'. oldest_of (matching_sells ?t (item ord) (unitPrice ord) (ord_userID ord)) k \<and> t' = ?t)"
    by (rule outcome_runs) (metis find_matching_sell_healthy wf made)
  have "outcome (post_outcome ord False ?t) (\<lambda>t'. t' = ?t) (buy E (Some ord)) (\<lambda>res. post_outcome ord (res = 0) ?t)"
    unfolding buy_def of_option_simps cbind_ret
  proof (rule outcome_cbind[OF outcome_account[OF wf(1) ints(2)]])
    fix got :: "int + user_t"
    show "outcome (post_outcome ord False ?t)
      (\<lambda>t'. case got of Inl _ \<Rightarrow> t' = ?t | Inr u \<Rightarrow> (u \<in> set (users ?t) \<and> userID u = ord_userID ord) \<and> t' = ?t)
      (case got of Inl _ \<Rightarrow> ret (- 1) | Inr u \<Rightarrow> if dlt (of_cint (OMG u)) (dmul (of_cint (quantity ord)) (unitPrice ord)) then ret (- 1) else
       cbind (find_matching_sell E ord) (\<lambda>result. if result = - 1 then insert_order E ord else
       cbind (get_order E result) (\<lambda>got. case got of Inl _ \<Rightarrow> ret (- 1) | Inr m \<Rightarrow> buy_match E u ord m)))
      (\<lambda>res. post_outcome ord (res = 0) ?t)"
      by (cases got) (auto intro!: outcome_ret outcome_fact outcome_best[OF wf ints(2) _ _ _ _ find set_matching_sells[OF side]
          outcome_buy_match[OF wf ints side]] simp: side affordable_iff)
  qed
  from outcomeD[OF this refl run] show ?thesis by (cases r) simp_all
qed

lemma sell_outcome:
  assumes wf: "wf_conn c" "ids_small (db c)" and made: "created (db c)"
    and ints: "order_ints ord" "in_int32 (ord_userID ord)" and side: "buyOrSell ord = SELL"
    and run: "sell E (Some ord) c = (r, c')"
  shows "post_outcome ord (r = Inr 0) (db c) (db c')"
proof -
  let ?t = "db c"
  have find: "outcome (post_outcome ord False ?t) (\<lambda>t'. t' = ?t) (find_matching_buy E ord)
      (\<lambda>k t'. oldest_of (matching_buys ?t (item ord) (unitPrice ord) (ord_userID ord)) k \<and> t' = ?t)"
    by (rule outcome_runs) (metis find_matching_buy_healthy wf made)
  have "outcome (post_outcome ord False ?t) (\<lambda>t'. t' = ?t) (sell E (Some ord)) (\<lambda>res. post_outcome ord (res = 0) ?t)"
    unfolding sell_def of_option_simps cbind_ret
  proof (rule outcome_cbind[OF outcome_account[OF wf(1) ints(2)]])
    fix got :: "int + user_t"
    show "outcome (post_outcome ord False ?t)
      (\<lambda>t'. case got of Inl _ \<Rightarrow> t' = ?t | Inr u \<Rightarrow> (u \<in> set (users ?t) \<and> userID u = ord_userID ord) \<and> t' = ?t)
      (case got of Inl _ \<Rightarrow> ret (- 1) | Inr u \<Rightarrow> if lacks_coins u ord then ret (- 1) else
       cbind (find_matching_buy E ord) (\<lambda>result. if result = - 1 then insert_order E ord else
       cbind (get_order E result) (\<lambda>got. case got of Inl _ \<Rightarrow> ret (- 1) | Inr m \<Rightarrow> sell_match E u ord m)))
      (\<lambda>res. post_outcome ord (res = 0) ?t)"
      by (cases got) (auto intro!: outcome_ret outcome_fact outcome_best[OF wf ints(2) _ _ _ _ find set_matching_buys[OF side]
          outcome_sell_match[OF wf ints side]] simp: side affordable_iff)
  qed
  from outcomeD[OF this refl run] show ?thesis by (cases r) simp_all
qed

lemma buy_done:
  assumes "wf_conn c" and "ids_small (db c)" and "created (db c)"
    and "order_ints ord" and "in_int32 (ord_userID ord)" and "buyOrSell ord = BUY"
    and "buy E (Some ord) c = (Inr 0, c')"
  shows "posted ord (db c) (db c')"
  using buy_outcome[OF assms] by (simp add: post_outcome_def)

lemma sell_done:
  assumes "wf_conn c" and "ids_small (db c)" and "created (db c)"
    and "order_ints ord" and "in_int32 (ord_userID ord)" and "buyOrSell ord = SELL"
    and "sell E (Some ord) c = (Inr 0, c')"
  shows "posted ord (db c) (db c')"
  using sell_outcome[OF assms] by (simp add: post_outcome_def)

end

end
