(* ===== verification/Server.thy ===== *)
theory Server
  imports Refinement
begin

text \<open>
  server.c: one client session, from the login prompt to the end of its input. The state is the
  client's stream, the database connection, and what the process has written on standard output.
  \<open>getline\<close> is taken to find memory for the line it read. The loops of the file (the login loop of
  \<open>accept_client\<close>, \<open>authenticate\<close>, \<open>echo\<close>) are each split into one round and the recursion on it,
  which ends because every round takes a line of the input. A session begins where the
  child process has its stream; what is before is in Listener.
\<close>

section \<open>The session\<close>

record 'w session =
  comm :: stream
  conn :: "'w sqlite3"
  console :: string

type_synonym ('w, 'a) sprog = "('w session, 'a) prog"

abbreviation set_comm :: "stream \<Rightarrow> 'w session \<Rightarrow> 'w session" where "set_comm x s \<equiv> s\<lparr>comm := x\<rparr>"
abbreviation set_conn :: "'w sqlite3 \<Rightarrow> 'w session \<Rightarrow> 'w session" where "set_conn x s \<equiv> s\<lparr>conn := x\<rparr>"

interpretation comm: part comm set_comm
  by unfold_locales simp_all

interpretation conn: part conn set_conn
  by unfold_locales simp_all

abbreviation on_comm :: "(stream, 'a) prog \<Rightarrow> ('w, 'a) sprog" where "on_comm \<equiv> zoom comm set_comm"
abbreviation on_db :: "('w, 'a) dbprog \<Rightarrow> ('w, 'a) sprog" where "on_db \<equiv> zoom conn set_conn"

text \<open>\<open>printf\<close> and \<open>puts\<close>, and \<open>fputs\<close> to the client with its check.\<close>

definition print :: "string \<Rightarrow> ('w, unit) sprog" where
  "print msg s = (Inr (), s\<lparr>console := console s @ msg\<rparr>)"

abbreviation tell :: "string \<Rightarrow> ('w, unit) sprog" where "tell msg \<equiv> on_comm (put_line msg)"

definition dump :: "'w platform \<Rightarrow> ('w, unit) sprog" where
  "dump E = cbind (on_db (dump_database E)) print"

section \<open>Reading answers\<close>

text \<open>
  \<open>len = strlen(line); if (len > 0 && line[len - 1] == '\n') line[len - 2] = '\0'\<close>: the string left
  in the buffer; \<open>None\<close> is the write before the buffer when the line is a newline alone.
\<close>

definition strip_newline :: "string \<Rightarrow> string option" where
  "strip_newline l =
     (let s = c_str l; len = length s
      in if 0 < len \<and> s ! (len - 1) = LF then (if len < 2 then None else Some (take (len - 2) s)) else Some s)"

definition ask :: "string \<Rightarrow> ('w, string) sprog" where
  "ask prompt =
     cbind (tell prompt) (\<lambda>_.
     cbind (on_comm get_line) (\<lambda>l.
     of_option Out_Of_Bounds (strip_newline l)))"

section \<open>Registering and logging in\<close>

definition register_user :: "'w platform \<Rightarrow> ('w, int) sprog" where
  "register_user E =
     cbind (ask (''Please enter a username: '' @ CRLF)) (\<lambda>un.
     cbind (ask (''Please enter your name (for display purposes): '' @ CRLF)) (\<lambda>nm.
     cbind (ask (''Please enter a password: '' @ CRLF)) (\<lambda>pw.
     let new_user = \<lparr>userID = 0, username = un, password = pw, name = nm, OMG = DEFAULT_OMG,
       DOGE = DEFAULT_DOGE, BTC = DEFAULT_BTC, ETH = DEFAULT_ETH\<rparr> in
     cbind (on_db (insert_user E new_user)) (\<lambda>res.
     case res of
       Inl _ \<Rightarrow> cbind (print (''Error inserting user!'' @ [LF])) (\<lambda>_. ret (- 1))
     | Inr uid \<Rightarrow>
         cbind (tell (''Registration successful! You can now log in.'' @ CRLF)) (\<lambda>_. ret uid)))))"

text \<open>One round of \<open>authenticate\<close>: the user who logged in, or \<open>None\<close> to try again.\<close>

definition authenticate_round :: "'w platform \<Rightarrow> ('w, int option) sprog" where
  "authenticate_round E =
     cbind (dump E) (\<lambda>_.
     cbind (ask (''Username: '' @ CRLF)) (\<lambda>un.
     cbind (on_db (get_user_with_username E un)) (\<lambda>got.
     case got of
       Inl _ \<Rightarrow>
         cbind (print (''Name is wrong'' @ [LF])) (\<lambda>_.
         cbind (tell (''Failed to authenticate username!'' @ CRLF @ [LF])) (\<lambda>_. ret None))
     | Inr auth_user \<Rightarrow>
         cbind (ask (''Password: '' @ CRLF)) (\<lambda>pw.
         if pw = password auth_user
         then cbind (on_comm (put_ignored (''Welcome back, '' @ name auth_user @ CRLF)))
                (\<lambda>_. ret (Some (userID auth_user)))
         else cbind (tell (''Password incorrect'' @ CRLF @ [LF])) (\<lambda>_. ret None)))))"

text \<open>A line of the input is gone after each round.\<close>

definition pending :: "'w session \<Rightarrow> nat" where
  "pending s = length (inp (comm s))"

lemma pending_zoom_db: "zoom conn set_conn m s = (r, s') \<Longrightarrow> pending s' = pending s"
  by (auto simp: zoom_def pending_def split: prod.splits)

lemma pending_print: "print msg s = (r, s') \<Longrightarrow> pending s' = pending s"
  by (auto simp: print_def pending_def)

lemma pending_send: "on_comm (send msg) s = (r, s') \<Longrightarrow> pending s' = pending s"
  by (auto simp: zoom_def pending_def dest: send_inp split: prod.splits)

lemma put_line_inp: "put_line msg c = (r, c') \<Longrightarrow> inp c' = inp c"
  using keeps_inp_put_line[of "inp c" msg] by (auto dest: keepsD)

lemma put_ignored_inp: "put_ignored msg c = (r, c') \<Longrightarrow> inp c' = inp c"
  using keeps_inp_put_ignored[of "inp c" msg] by (auto dest: keepsD)

lemma pending_tell: "tell msg s = (r, s') \<Longrightarrow> pending s' = pending s"
  by (auto simp: zoom_def pending_def dest: put_line_inp split: prod.splits)

lemma pending_put_ignored: "on_comm (put_ignored msg) s = (r, s') \<Longrightarrow> pending s' = pending s"
  by (auto simp: zoom_def pending_def dest: put_ignored_inp split: prod.splits)

lemma pending_get_line: "on_comm get_line s = (Inr l, s') \<Longrightarrow> pending s = Suc (pending s')"
  by (auto simp: zoom_def pending_def dest: get_line_inp split: prod.splits)

lemma pending_dump: "dump E s = (Inr x, s') \<Longrightarrow> pending s' = pending s"
  by (auto simp: dump_def cbind_Inr_iff dest!: pending_zoom_db pending_print)

lemma pending_ask: "ask prompt s = (Inr x, s') \<Longrightarrow> pending s = Suc (pending s')"
  by (auto simp: ask_def run_iffs dest!: pending_tell pending_get_line)

lemmas pending_steps = pending_zoom_db pending_print pending_tell pending_put_ignored pending_dump pending_ask

lemma authenticate_round_pending:
  "authenticate_round E s = (Inr x, s') \<Longrightarrow> pending s' < pending s"
  unfolding authenticate_round_def
  by (auto elim!: cbindE split: sum.split_asm if_split_asm dest!: pending_steps)

function authenticate :: "'w platform \<Rightarrow> ('w, int) sprog" where
  "authenticate E s =
     cbind (authenticate_round E) (\<lambda>r s. case r of Some uid \<Rightarrow> ret uid s | None \<Rightarrow> authenticate E s) s"
  by pat_completeness auto
termination
  by (relation "measure (\<lambda>(E, s). pending s)") (auto dest: authenticate_round_pending)

declare authenticate.simps [simp del]

lemma register_user_pending: "register_user E s = (Inr x, s') \<Longrightarrow> pending s' < pending s"
  unfolding register_user_def Let_def
  by (auto elim!: cbindE split: sum.split_asm dest!: pending_steps)

lemma authenticate_pending: "authenticate E s = (Inr x, s') \<Longrightarrow> pending s' < pending s"
proof (induction E s arbitrary: x s' rule: authenticate.induct)
  case (1 E s)
  from 1(2) obtain r s1 where r: "authenticate_round E s = (Inr r, s1)"
    and rest: "(case r of Some uid \<Rightarrow> ret uid s1 | None \<Rightarrow> authenticate E s1) = (Inr x, s')"
    by (subst (asm) authenticate.simps) (erule cbindE)
  have "pending s1 < pending s" using r by (rule authenticate_round_pending)
  with 1(1)[OF r] rest show ?case by (cases r) fastforce+
qed

text \<open>
  The login loop of \<open>accept_client\<close>, with its two variables; it ends with the user logged in.
\<close>

definition login_round :: "'w platform \<Rightarrow> int \<Rightarrow> int \<Rightarrow> ('w, int \<times> int) sprog" where
  "login_round E uid status =
     cbind (tell (''Welcome to OMG. \"r\" to register, and \"u\" for existing users '' @ CRLF)) (\<lambda>_.
     cbind (on_comm get_line) (\<lambda>input.
     case c_str input of
       [] \<Rightarrow> cbind (tell (''Invalid option. Please enter 'r' or 'u'.'' @ CRLF)) (\<lambda>_. ret (uid, status))
     | k # _ \<Rightarrow>
         if k = CHR ''r'' then cbind (register_user E) (\<lambda>uid. ret (uid, status))
         else if k = CHR ''u'' then cbind (authenticate E) (\<lambda>uid. ret (uid, 1))
         else cbind (tell (''Invalid option. Please enter 'r' or 'u'.'' @ CRLF)) (\<lambda>_. ret (uid, status))))"

lemma login_round_pending: "login_round E uid status s = (Inr x, s') \<Longrightarrow> pending s' < pending s"
  unfolding login_round_def
  by (auto elim!: cbindE split: list.split_asm if_split_asm
      dest!: pending_tell pending_get_line register_user_pending authenticate_pending)

function login :: "'w platform \<Rightarrow> int \<Rightarrow> int \<Rightarrow> ('w, int) sprog" where
  "login E uid status s =
     (if uid = - 1 \<or> uid = 0 \<or> status \<noteq> 1
      then cbind (login_round E uid status) (\<lambda>r s. login E (fst r) (snd r) s) s
      else ret uid s)"
  by pat_completeness auto
termination
  by (relation "measure (\<lambda>(E, uid, status, s). pending s)") (auto dest: login_round_pending)

declare login.simps [simp del]

section \<open>The commands of a client\<close>

definition display_welcome_message :: "('w, unit) sprog" where
  "display_welcome_message = tell (concat (map (\<lambda>l. l @ CRLF)
    ['' $$$$$$'' @ [CHR 0x5C] @ ''  $$'' @ [CHR 0x5C] @ ''      $$'' @ [CHR 0x5C] @ ''  $$$$$$'' @ [CHR 0x5C] @ '' '',
     ''$$  __$$'' @ [CHR 0x5C] @ '' $$$'' @ [CHR 0x5C] @ ''    $$$ |$$  __$$'' @ [CHR 0x5C],
     ''$$ /  $$ |$$$$'' @ [CHR 0x5C] @ ''  $$$$ |$$ /  '' @ [CHR 0x5C] @ ''__|'',
     ''$$ |  $$ |$$'' @ [CHR 0x5C] @ ''$$'' @ [CHR 0x5C] @ ''$$ $$ |$$ |$$$$'' @ [CHR 0x5C],
     ''$$ |  $$ |$$ '' @ [CHR 0x5C] @ ''$$$  $$ |$$ |'' @ [CHR 0x5C] @ ''_$$ |'',
     ''$$ |  $$ |$$ |'' @ [CHR 0x5C] @ ''$  /$$ |$$ |  $$ |'',
     '' $$$$$$  |$$ | '' @ [CHR 0x5C] @ ''_/ $$ |'' @ [CHR 0x5C] @ ''$$$$$$  |'',
     '' '' @ [CHR 0x5C] @ ''______/ '' @ [CHR 0x5C] @ ''__|     '' @ [CHR 0x5C] @ ''__| '' @ [CHR 0x5C] @ ''______/ '']))"

definition handle_my_inventory :: "'w platform \<Rightarrow> int \<Rightarrow> ('w, unit) sprog" where
  "handle_my_inventory E uid =
     (let current_user = \<lparr>userID = uid, username = [], password = [], name = [],
        OMG = 0, DOGE = 0, BTC = 0, ETH = 0\<rparr> in
      cbind (on_db (get_user_inventories E current_user)) (\<lambda>got.
      case got of
        Inl _ \<Rightarrow> tell (''Error retrieving inventory!'' @ CRLF)
      | Inr u \<Rightarrow> on_comm (
          cbind (put_ignored (''Your current inventory:'' @ CRLF)) (\<lambda>_.
          cbind (put_ignored (''OMG: '' @ show_int (OMG u) @ CRLF)) (\<lambda>_.
          cbind (put_ignored (''DOGE: '' @ show_int (DOGE u) @ CRLF)) (\<lambda>_.
          cbind (put_ignored (''ETH: '' @ show_int (ETH u) @ CRLF)) (\<lambda>_.
          put_ignored (''BTC: '' @ show_int (BTC u) @ CRLF))))))))"

definition handle_buy :: "'w platform \<Rightarrow> int \<Rightarrow> string_array \<Rightarrow> ('w, unit) sprog" where
  "handle_buy E uid command_tokens =
     cbind (on_comm (validate_command_args command_tokens 4)) (\<lambda>ok.
     if ok \<noteq> 1 then ret () else
     cbind (on_db (create_order_from_string E command_tokens uid)) (\<lambda>(buy_order, msg).
     cbind (print msg) (\<lambda>_.
     cbind (on_db (buy E buy_order)) (\<lambda>res.
     if res = - 1 then tell (''Can't create buy order!'' @ CRLF)
     else tell (''Successfully created buy order!'' @ CRLF)))))"

definition handle_sell :: "'w platform \<Rightarrow> int \<Rightarrow> string_array \<Rightarrow> ('w, unit) sprog" where
  "handle_sell E uid command_tokens =
     cbind (on_comm (validate_command_args command_tokens 4)) (\<lambda>ok.
     if ok \<noteq> 1 then ret () else
     cbind (on_db (create_order_from_string E command_tokens uid)) (\<lambda>(sell_order, msg).
     cbind (print msg) (\<lambda>_.
     cbind (on_db (sell E sell_order)) (\<lambda>res.
     if res = - 1 then tell (''Can't create sell order!'' @ CRLF)
     else tell (''Successfully created sell order!'' @ CRLF)))))"

text \<open>One line of the list of orders, and the loop that sends them; a failure is only printed.\<close>

definition order_line :: "int \<Rightarrow> order_t \<Rightarrow> string" where
  "order_line i r = ''Order '' @ show_int i @ '': Type: '' @ (if buyOrSell r = 0 then ''BUY'' else ''SELL'') @
     '', Item: '' @ coin_type_to_string (item r) @ '', Amount: '' @ show_int (quantity r) @
     '', Price: '' @ fmt_fixed 2 (unitPrice r) @ '', ID: '' @ show_int (orderID r) @ CRLF"

lemma order_line_format:
  "vasprintf (''Order %d: Type: %s, Item: %s, Amount: %d, Price: %.2f, ID: %d'' @ CRLF)
     [Arg_Int i, Arg_Text (if buyOrSell r = 0 then ''BUY'' else ''SELL''), Arg_Text (coin_type_to_string (item r)),
      Arg_Int (quantity r), Arg_Double (unitPrice r), Arg_Int (orderID r)] = Some (order_line i r)"
  by (simp add: order_line_def)

fun send_orders :: "int \<Rightarrow> order_t list \<Rightarrow> ('w, unit) sprog" where
  "send_orders i [] = ret ()"
| "send_orders i (r # rs) =
     cbind (on_comm (send (order_line (i + 1) r))) (\<lambda>ok.
     cbind (if ok then ret () else print (''Error sending order!'' @ [LF])) (\<lambda>_.
     send_orders (i + 1) rs))"

definition dashes :: string where
  "dashes = replicate 36 (CHR ''-'') @ CRLF"

definition handle_my_orders :: "'w platform \<Rightarrow> int \<Rightarrow> ('w, unit) sprog" where
  "handle_my_orders E uid =
     cbind (on_db (my_orders E uid)) (\<lambda>order_list.
     cbind (tell (''Open Orders:'' @ CRLF)) (\<lambda>_.
     cbind (if order_list \<noteq> [] then send_orders 0 order_list
            else cbind (tell (''No open orders.'' @ CRLF)) (\<lambda>_. tell dashes)) (\<lambda>_.
     cbind (tell dashes) (\<lambda>_.
     cbind (on_db (get_archived_orders E uid)) (\<lambda>order_list.
     cbind (tell (''Archived Orders:'' @ CRLF)) (\<lambda>_.
     if order_list \<noteq> [] then send_orders 0 order_list
     else tell (''No archived orders.'' @ CRLF)))))))"

definition handle_cancel_order :: "'w platform \<Rightarrow> int \<Rightarrow> string_array \<Rightarrow> ('w, unit) sprog" where
  "handle_cancel_order E uid command_tokens =
     cbind (on_comm (validate_command_args command_tokens 2)) (\<lambda>ok.
     if ok \<noteq> 1 then ret () else
     cbind (sa_get command_tokens 1) (\<lambda>arg.
     case strtol arg of (n, endptr) \<Rightarrow>
     if endptr \<noteq> [] then tell (''Invalid order ID format!'' @ CRLF) else
     cbind (on_db (cancel_order E (wrap32 n) uid)) (\<lambda>res.
     if res \<noteq> 0 then tell (''Failed to cancel order!'' @ CRLF)
     else tell (''Successfully cancelled order!'' @ CRLF))))"

text \<open>\<open>fprintf_to_string("Price: %.2f, Quantity: %d", ...)\<close>, and the rows of the two columns.\<close>

definition price_quantity :: "order_t \<Rightarrow> string" where
  "price_quantity r = ''Price: '' @ fmt_fixed 2 (unitPrice r) @ '', Quantity: '' @ show_int (quantity r)"

lemma price_quantity_format:
  "fprintf_to_string ''Price: %.2f, Quantity: %d'' [Arg_Double (unitPrice r), Arg_Int (quantity r)] = Some (price_quantity r)"
  by (simp add: fprintf_to_string_def price_quantity_def)

fun view_rows :: "order_t list \<Rightarrow> order_t list \<Rightarrow> (stream, unit) prog" where
  "view_rows [] [] = ret ()"
| "view_rows (b # bs) [] =
     cbind (put_lines [pad_right 30 (price_quantity b), '' | '', CRLF]) (\<lambda>_. view_rows bs [])"
| "view_rows [] (s # ss) =
     cbind (put_lines [pad_right 30 [], '' | '', price_quantity s, CRLF]) (\<lambda>_. view_rows [] ss)"
| "view_rows (b # bs) (s # ss) =
     cbind (put_lines [pad_right 30 (price_quantity b), '' | '', price_quantity s, CRLF]) (\<lambda>_. view_rows bs ss)"

definition handle_view :: "'w platform \<Rightarrow> int \<Rightarrow> string_array \<Rightarrow> ('w, unit) sprog" where
  "handle_view E uid command_tokens =
     cbind (on_comm (validate_command_args command_tokens 2)) (\<lambda>ok.
     if ok \<noteq> 1 then ret () else
     if sa_size command_tokens \<noteq> 2 then tell (''Invalid command syntax! Usage: view <coin>'' @ CRLF) else
     cbind (sa_get command_tokens 1) (\<lambda>coin.
     case COIN_of_string coin of
       None \<Rightarrow> tell (''Invalid item type'' @ CRLF)
     | Some i \<Rightarrow>
         cbind (on_db (view_item_orders E i)) (\<lambda>(buys, sells).
         cbind (tell (replicate 52 (CHR ''-'') @ CRLF)) (\<lambda>_.
         cbind (tell (pad_right 30 ''Buy Orders'' @ '' | Sell Orders'' @ CRLF)) (\<lambda>_.
         on_comm (view_rows buys sells))))))"

definition help_texts :: "string list" where
  "help_texts =
    [''Available commands:'' @ CRLF,
     ''myInventory'' @ CRLF @ ''Lists the inventory for the current user.'' @ CRLF @ CRLF,
     ''buy <item> <price> <quantity>'' @ CRLF @ ''Posts a buy order.'' @ CRLF @
       ''item: The name of the commodity to buy.'' @ CRLF @
       ''price: The unit price the client is willing to buy at.'' @ CRLF @
       ''quantity: The number of commodities to buy.'' @ CRLF @ CRLF,
     ''sell <item> <price> <quantity>'' @ CRLF @ ''Posts a sell order.'' @ CRLF @
       ''item: The name of the commodity to sell.'' @ CRLF @
       ''price: The unit price the client is willing to sell at.'' @ CRLF @
       ''quantity: The number of commodities to sell.'' @ CRLF @ CRLF,
     ''myOrders'' @ CRLF @ ''Lists all active buy/sell orders submitted by the current user.'' @ CRLF @
       ''Returns the IDs of all active orders.'' @ CRLF @ CRLF,
     ''cancelOrder <orderID>'' @ CRLF @ ''Cancels a buy/sell order.'' @ CRLF @
       ''orderID: The ID of the order to cancel.'' @ CRLF @ CRLF,
     ''view <item>'' @ CRLF @ ''Views the top 5 buy/sell orders for a specific item.'' @ CRLF @
       ''item: The name of the item to check.'' @ CRLF @ CRLF]"

definition handle_help :: "('w, unit) sprog" where
  "handle_help = on_comm (put_lines help_texts)"

section \<open>The command loop\<close>

text \<open>One line of input: the body of the loop of \<open>echo\<close>.\<close>

definition run_command :: "'w platform \<Rightarrow> int \<Rightarrow> string \<Rightarrow> ('w, unit) sprog" where
  "run_command E uid buffer =
     cbind (tokenize_line buffer) (\<lambda>command_tokens.
     if sa_size command_tokens = 0 then tell (''Invalid syntax!'' @ CRLF) else
     cbind (sa_get command_tokens 0) (\<lambda>command.
     if strcase_eq command ''myinventory'' then handle_my_inventory E uid
     else if strcase_eq command ''buy'' then handle_buy E uid command_tokens
     else if strcase_eq command ''sell'' then handle_sell E uid command_tokens
     else if strcase_eq command ''myorders'' then handle_my_orders E uid
     else if strcase_eq command ''cancelorder'' then handle_cancel_order E uid command_tokens
     else if strcase_eq command ''view'' then handle_view E uid command_tokens
     else if strcase_eq command ''help'' then handle_help
     else tell (''Invalid syntax! Try help. '' @ CRLF)))"

text \<open>The loop: it ends after a line that the end of the input cut short; \<open>getline\<close> at the end is fatal.\<close>

definition echo_round :: "'w platform \<Rightarrow> int \<Rightarrow> ('w, unit) sprog" where
  "echo_round E uid =
     cbind (dump E) (\<lambda>_. cbind (on_comm get_line) (\<lambda>buffer. run_command E uid buffer))"

text \<open>No command reads from the client: only the loops take lines of the input.\<close>

lemma keeps_input_zoom_db [keeps_intros]: "keeps (\<lambda>s. inp (comm s) = ls) (on_db m)"
  by (rule conn.keeps_zoom_frame) simp

lemma keeps_input_print [keeps_intros]: "keeps (\<lambda>s. inp (comm s) = ls) (print msg)"
  by (simp add: keeps_def print_def)

lemma keeps_input_comm:
  "keeps (\<lambda>c. inp c = ls) m \<Longrightarrow> keeps (\<lambda>s. inp (comm s) = ls) (on_comm m)"
  by (rule comm.keeps_zoom)

lemma keeps_inp_put_lines: "keeps (\<lambda>c. inp c = ls) (put_lines ms)"
  by (induction ms) (auto intro!: keeps_intros)

lemma keeps_inp_view_rows: "keeps (\<lambda>c. inp c = ls) (view_rows bs ss)"
  by (induction bs ss rule: view_rows.induct) (simp_all del: put_lines.simps add: keeps_cbind keeps_inp_put_lines)

lemma keeps_inp_validate: "keeps (\<lambda>c. inp c = ls) (validate_command_args toks n)"
  unfolding validate_command_args_def by (intro keeps_intros)

lemma keeps_input_tell [keeps_intros]: "keeps (\<lambda>s. inp (comm s) = ls) (tell msg)"
  by (rule keeps_input_comm) (rule keeps_inp_put_line)

lemma keeps_input_validate [keeps_intros]:
  "keeps (\<lambda>s. inp (comm s) = ls) (on_comm (validate_command_args toks k))"
  by (rule keeps_input_comm) (rule keeps_inp_validate)

lemma keeps_input_send_orders [keeps_intros]: "keeps (\<lambda>s. inp (comm s) = ls) (send_orders i rs)"
  by (induction i rs rule: send_orders.induct)
    (auto intro!: keeps_intros intro: keeps_input_comm keeps_inp_send)

lemma keeps_sa_get [keeps_intros]: "keeps P (sa_get a i)"
  by (auto simp: sa_get_def split: slot.split)

lemma keeps_write_slot [keeps_intros]: "keeps P (write_slot a i v)"
  by (simp add: write_slot_def)

lemma keeps_add_string [keeps_intros]: "keeps P (add_string a str n)"
  unfolding add_string_def resize_def Let_def by (intro keeps_intros)

lemma keeps_tok_loop [keeps_intros]: "keeps P (tok_loop toks start n cs)"
  by (induction toks start n cs rule: tok_loop.induct) (auto intro!: keeps_intros)

lemma keeps_tokenize_line [keeps_intros]: "keeps P (tokenize_line l)"
  unfolding tokenize_line_def make_string_array_def by (intro keeps_intros)

lemma keeps_input_run_command: "keeps (\<lambda>s. inp (comm s) = ls) (run_command E uid buffer)"
  unfolding run_command_def handle_my_inventory_def handle_buy_def handle_sell_def handle_my_orders_def
    handle_cancel_order_def handle_view_def handle_help_def Let_def
  by (intro keeps_intros keeps_input_comm keeps_inp_view_rows keeps_inp_put_lines keeps_inp_put_ignored)

lemma keeps_pending_run_command: "keeps (\<lambda>s. pending s = n) (run_command E uid buffer)"
  using keeps_input_run_command[of _ E uid buffer] unfolding keeps_def pending_def by metis

lemma echo_round_pending: "echo_round E uid s = (Inr x, s') \<Longrightarrow> pending s' < pending s"
  unfolding echo_round_def
  by (auto elim!: cbindE dest!: pending_dump pending_get_line keepsD[OF keeps_pending_run_command[where n = "pending _"]])

function echo_loop :: "'w platform \<Rightarrow> int \<Rightarrow> ('w, unit) sprog" where
  "echo_loop E uid s =
     (if eof (comm s) then print (''EXITED'' @ [LF]) s
      else cbind (echo_round E uid) (\<lambda>_ s. echo_loop E uid s) s)"
  by pat_completeness auto
termination
  by (relation "measure (\<lambda>(E, uid, s). pending s)") (auto dest: echo_round_pending)

declare echo_loop.simps [simp del]

definition echo :: "'w platform \<Rightarrow> int \<Rightarrow> ('w, unit) sprog" where
  "echo E uid = cbind display_welcome_message (\<lambda>_. echo_loop E uid)"

text \<open>The child process of \<open>accept_client\<close>: log in, then serve commands; it returns \<open>-1\<close>.\<close>

definition accept_client :: "'w platform \<Rightarrow> ('w, int) sprog" where
  "accept_client E = cbind (login E (- 1) 0) (\<lambda>uid. cbind (echo E uid) (\<lambda>_. ret (- 1)))"

text \<open>
  \<open>main\<close> of run_server.c up to the loop that accepts clients: the database is opened and emptied. The
  result is the connection that every session starts from.
\<close>

definition start_server :: "'w platform \<Rightarrow> 'w sqlite3 \<Rightarrow> fault + 'w sqlite3" where
  "start_server E file =
     (case open_db E file of
        (rc, None) \<Rightarrow> Inl Exit_Failure
      | (rc, Some c) \<Rightarrow>
          if rc = - 1 then Inl Exit_Failure
          else (case init_db E c of
                  (Inl e, _) \<Rightarrow> Inl e
                | (Inr res, c') \<Rightarrow> if res = - 1 then Inl Exit_Failure else Inr c'))"

end
