(* ===== verification/Sessions.thy ===== *)
theory Sessions
  imports Server
begin

text \<open>
  Whole sessions: every invariant of the tables (\<open>session_invariant\<close>) survives a session from its
  first prompt to its end, whatever the client types, whenever the engine fails, and even when the
  process dies in the middle; and a session always comes to an end. The locales \<open>session_reader\<close>,
  \<open>session_login\<close> and \<open>session_commands\<close> are the interface between a session and the database.
\<close>

section \<open>Orders made from commands\<close>

lemma COIN_of_string_range: "COIN_of_string s = Some i \<Longrightarrow> i \<in> {COIN_OMG, COIN_DOGE, COIN_BTC, COIN_ETH}"
  by (auto simp: COIN_of_string_def split: if_split_asm)

text \<open>What a client can order: its words are stored as \<open>int\<close>s, the coin is one of the four, and the order is the client's.\<close>

definition typed_order :: "int \<Rightarrow> int \<Rightarrow> order_t \<Rightarrow> bool" where
  "typed_order uid side ord \<longleftrightarrow> order_ints ord \<and> ord_userID ord = uid \<and>
     item ord \<in> {COIN_OMG, COIN_DOGE, COIN_BTC, COIN_ETH} \<and> buyOrSell ord = side"

lemma sa_get_Inr: "sa_get a i c = (Inr w, c') \<Longrightarrow> c' = c \<and> strings a ! i = Str w"
  by (simp add: sa_get_def split: if_split_asm slot.split_asm)

lemma create_order_from_string_ok:
  assumes "create_order_from_string E params uid c = (Inr (Some ord, msg), c')" and "strings params ! 0 = Str w"
  shows "typed_order uid (if strcase_eq w ''buy'' then BUY else SELL) ord"
  using assms unfolding create_order_from_string_def Let_def
  by (auto elim!: cbindE split: prod.split_asm option.split_asm if_split_asm
      simp: typed_order_def order_ints_def alloc_def fresh_order_def in_int32_def[of 2] in_int32_def[of 3]
      dest!: COIN_of_string_range sa_get_Inr)

lemma keeps_create_order_from_string [keeps_intros]: "keeps P (create_order_from_string E params uid)"
proof -
  have "keeps P (fresh_order E)" by (simp add: keeps_def fresh_order_def)
  then show ?thesis
    unfolding create_order_from_string_def Let_def by (intro keeps_intros)
qed

text \<open>
  A session touches the tables only through eight functions of db.c and command.c. What these keep, every
  command, the two loops and the whole session keep; the locales name what each phase needs.
\<close>

locale session_reader =
  fixes P :: "tables \<Rightarrow> bool" and E :: "'w platform"
  assumes reads_dump: "keeps (\<lambda>c. P (db c)) (dump_database E)"
    and reads_username: "keeps (\<lambda>c. P (db c)) (get_user_by_username E un)"
    and reads_inventory: "keeps (\<lambda>c. P (db c)) (get_user_inventories E u)"
    and reads_my_orders: "keeps (\<lambda>c. P (db c)) (my_orders E k)"
    and reads_archived: "keeps (\<lambda>c. P (db c)) (get_archived_orders E k)"
    and reads_item: "keeps (\<lambda>c. P (db c)) (view_item_orders E i)"
begin

abbreviation Ps :: "'w session \<Rightarrow> bool" where "Ps s \<equiv> P (db (conn s))"

lemma on_db_keeps: "keeps (\<lambda>c. P (db c)) m \<Longrightarrow> keeps Ps (on_db m)"
  by (rule conn.keeps_zoom)

lemma on_comm_keeps: "keeps Ps (on_comm m)"
  by (rule comm.keeps_zoom_frame) simp

lemma print_keeps: "keeps Ps (print msg)"
  by (simp add: keeps_def print_def)

lemma dump_keeps: "keeps Ps (dump E)"
  unfolding dump_def by (intro keeps_cbind on_db_keeps reads_dump print_keeps)

lemma ask_keeps: "keeps Ps (ask prompt)"
  unfolding ask_def by (intro keeps_intros on_comm_keeps)

lemmas session_intros = on_comm_keeps print_keeps dump_keeps ask_keeps on_db_keeps keeps_intros

lemma round_keeps:
  assumes "keeps Ps m" and "Ps s" and "cbind m f s = (r, s')"
    and "\<And>a s1. m s = (Inr a, s1) \<Longrightarrow> Ps s1 \<Longrightarrow> f a s1 = (r, s') \<Longrightarrow> Ps s'"
  shows "Ps s'"
proof -
  obtain x s1 where m: "m s = (x, s1)" by force
  with assms(1,2) have "Ps s1" by (auto dest: keepsD)
  with assms(3,4) m show ?thesis by (cases x) (auto simp: cbind_def)
qed

lemma keeps_authenticate_round: "keeps Ps (authenticate_round E)"
  unfolding authenticate_round_def get_user_with_username_def
  by (intro session_intros reads_username)

end

text \<open>Logging in: the new user has the balances to start with.\<close>

definition newcomer :: "user_t \<Rightarrow> bool" where
  "newcomer u \<longleftrightarrow> OMG u = DEFAULT_OMG \<and> DOGE u = DEFAULT_DOGE \<and> BTC u = DEFAULT_BTC \<and> ETH u = DEFAULT_ETH"

lemma newcomer_ok: "newcomer u \<Longrightarrow> user_ok u"
  by (simp add: newcomer_def user_ok_def in_int32_def)

locale session_login = session_reader +
  assumes adds_user: "newcomer u \<Longrightarrow> keeps (\<lambda>c. P (db c)) (insert_user E u)"
begin

lemma keeps_register_user: "keeps Ps (register_user E)"
  unfolding register_user_def Let_def
  by (intro session_intros adds_user) (simp_all add: newcomer_def)

lemma keeps_authenticate: "keeps Ps (authenticate E)"
proof (rule keepsI)
  have "Ps s \<Longrightarrow> authenticate E' s = (r, s') \<Longrightarrow> E' = E \<Longrightarrow> Ps s'" for E' s r s'
  proof (induction E' s arbitrary: r s' rule: authenticate.induct)
    case (1 E' s)
    show ?case
    proof (rule round_keeps[OF keeps_authenticate_round 1(2)])
      show "cbind (authenticate_round E)
          (\<lambda>r s. case r of Some uid \<Rightarrow> ret uid s | None \<Rightarrow> authenticate E s) s = (r, s')"
        using 1(3,4) by (simp only: authenticate.simps[of E s])
      show "Ps s'" if "authenticate_round E s = (Inr a, s1)" "Ps s1"
        "(case a of Some uid \<Rightarrow> ret uid s1 | None \<Rightarrow> authenticate E s1) = (r, s')" for a s1
        using 1(1)[of a s1 r s'] 1(4) that by (cases a) auto
    qed
  qed
  then show "Ps s \<Longrightarrow> authenticate E s = (r, s') \<Longrightarrow> Ps s'" for s r s' by blast
qed

lemma keeps_login_round: "keeps Ps (login_round E uid status)"
  unfolding login_round_def
  by (auto intro!: session_intros keeps_register_user keeps_authenticate split: list.split)

lemma keeps_login: "keeps Ps (login E uid status)"
proof (rule keepsI)
  have "Ps s \<Longrightarrow> login E' uid status s = (r, s') \<Longrightarrow> E' = E \<Longrightarrow> Ps s'" for E' uid status s r s'
  proof (induction E' uid status s arbitrary: r s' rule: login.induct)
    case (1 E' uid status s)
    show ?case
    proof (cases "uid = - 1 \<or> uid = 0 \<or> status \<noteq> 1")
      case True
      show ?thesis
      proof (rule round_keeps[OF keeps_login_round 1(2)])
        show "cbind (login_round E uid status) (\<lambda>r s. login E (fst r) (snd r) s) s = (r, s')"
          using 1(3,4) True by (simp only: login.simps[of E uid status s] if_True)
      qed (use 1(1)[OF True] 1(4) in blast)
    next
      case False
      with 1(2,3) show ?thesis by (simp add: login.simps[of E' uid status s])
    qed
  qed
  then show "Ps s \<Longrightarrow> login E uid status s = (r, s') \<Longrightarrow> Ps s'" for s r s' by blast
qed

end

text \<open>Commands of the user \<open>uid\<close>.\<close>

locale session_commands = session_reader P E for P and E :: "'w platform" +
  fixes uid :: int
  assumes does_buy: "typed_order uid BUY ord \<Longrightarrow> keeps (\<lambda>c. P (db c)) (buy E (Some ord))"
    and does_sell: "typed_order uid SELL ord \<Longrightarrow> keeps (\<lambda>c. P (db c)) (sell E (Some ord))"
    and does_cancel: "keeps (\<lambda>c. P (db c)) (cancel_order E k uid)"
begin

lemma keeps_order_handler:
  assumes "strings toks ! 0 = Str w"
    and "\<And>ord. typed_order uid (if strcase_eq w ''buy'' then BUY else SELL) ord \<Longrightarrow> keeps (\<lambda>c. P (db c)) (trade (Some ord))"
    and "keeps (\<lambda>c. P (db c)) (trade None)"
  shows "keeps Ps (cbind (on_db (create_order_from_string E toks uid)) (\<lambda>(p, msg).
    cbind (print msg) (\<lambda>_. cbind (on_db (trade p)) (\<lambda>res. if res = - 1 then tell no else tell yes))))"
proof (rule keeps_cbind_post[where Q = "\<lambda>(p, msg). \<forall>ord. p = Some ord \<longrightarrow>
    typed_order uid (if strcase_eq w ''buy'' then BUY else SELL) ord"])
  show "keeps Ps (on_db (create_order_from_string E toks uid))"
    by (intro session_intros)
  show "case got of (p, msg) \<Rightarrow> \<forall>ord. p = Some ord \<longrightarrow> typed_order uid (if strcase_eq w ''buy'' then BUY else SELL) ord"
    if "on_db (create_order_from_string E toks uid) s = (Inr got, s')" for s got s'
    using that create_order_from_string_ok[OF _ assms(1)] by (auto simp: conn.zoom_Inr_iff)
  show "keeps Ps (case got of (p, msg) \<Rightarrow>
      cbind (print msg) (\<lambda>_. cbind (on_db (trade p)) (\<lambda>res. if res = - 1 then tell no else tell yes)))"
    if "case got of (p, msg) \<Rightarrow> \<forall>ord. p = Some ord \<longrightarrow> typed_order uid (if strcase_eq w ''buy'' then BUY else SELL) ord" for got
  proof (cases got)
    case (Pair p msg)
    have "keeps (\<lambda>c. P (db c)) (trade p)" using that assms(2,3) Pair by (cases p) auto
    then show ?thesis using Pair by (auto intro!: session_intros)
  qed
qed

lemma keeps_handle_buy: "strings toks ! 0 = Str w \<Longrightarrow> strcase_eq w ''buy'' \<Longrightarrow> keeps Ps (handle_buy E uid toks)"
  unfolding handle_buy_def
  by (rule keeps_cbind[OF on_comm_keeps], intro keeps_if keeps_ret keeps_order_handler)
    (auto simp: buy_def[of E None] intro: does_buy)

lemma keeps_handle_sell: "strings toks ! 0 = Str w \<Longrightarrow> \<not> strcase_eq w ''buy'' \<Longrightarrow> keeps Ps (handle_sell E uid toks)"
  unfolding handle_sell_def
  by (rule keeps_cbind[OF on_comm_keeps], intro keeps_if keeps_ret keeps_order_handler)
    (auto simp: sell_def[of E None] intro: does_sell)

lemma keeps_send_orders: "keeps Ps (send_orders i rs)"
  by (induction i rs rule: send_orders.induct) (auto intro!: session_intros)

lemma keeps_run_command: "keeps Ps (run_command E uid buffer)"
proof -
  have "keeps Ps (cbind (sa_get toks 0) (\<lambda>command.
     if strcase_eq command ''myinventory'' then handle_my_inventory E uid
     else if strcase_eq command ''buy'' then handle_buy E uid toks
     else if strcase_eq command ''sell'' then handle_sell E uid toks
     else if strcase_eq command ''myorders'' then handle_my_orders E uid
     else if strcase_eq command ''cancelorder'' then handle_cancel_order E uid toks
     else if strcase_eq command ''view'' then handle_view E uid toks
     else if strcase_eq command ''help'' then handle_help
     else tell (''Invalid syntax! Try help. '' @ CRLF)))" for toks
  proof (rule keeps_cbind_post[where Q = "\<lambda>w. strings toks ! 0 = Str w"])
    have quiet: "keeps Ps (handle_my_inventory E uid)" "keeps Ps (handle_my_orders E uid)"
      "keeps Ps (handle_cancel_order E uid toks)" "keeps Ps (handle_view E uid toks)" "keeps Ps handle_help"
      unfolding handle_my_inventory_def handle_my_orders_def handle_cancel_order_def handle_view_def handle_help_def Let_def
      by (intro reads_inventory reads_my_orders reads_archived does_cancel reads_item keeps_send_orders session_intros)+
    show "keeps Ps (if strcase_eq w ''myinventory'' then handle_my_inventory E uid
       else if strcase_eq w ''buy'' then handle_buy E uid toks
       else if strcase_eq w ''sell'' then handle_sell E uid toks
       else if strcase_eq w ''myorders'' then handle_my_orders E uid
       else if strcase_eq w ''cancelorder'' then handle_cancel_order E uid toks
       else if strcase_eq w ''view'' then handle_view E uid toks
       else if strcase_eq w ''help'' then handle_help
       else tell (''Invalid syntax! Try help. '' @ CRLF))" if "strings toks ! 0 = Str w" for w
      using quiet keeps_handle_buy[OF that] keeps_handle_sell[OF that] by (simp add: on_comm_keeps)
  qed (auto intro: keeps_intros dest: sa_get_Inr)
  then show ?thesis
    unfolding run_command_def
    by (intro keeps_cbind[OF keeps_tokenize_line] keeps_if on_comm_keeps) simp_all
qed

lemma keeps_echo_round: "keeps Ps (echo_round E uid)"
  unfolding echo_round_def by (intro session_intros keeps_run_command)

lemma keeps_echo_loop: "keeps Ps (echo_loop E uid)"
proof (rule keepsI)
  have "Ps s \<Longrightarrow> echo_loop E' k s = (r, s') \<Longrightarrow> E' = E \<and> k = uid \<Longrightarrow> Ps s'" for E' k s r s'
  proof (induction E' k s arbitrary: r s' rule: echo_loop.induct)
    case (1 E' k s)
    show ?case
    proof (cases "eof (comm s)")
      case True
      with 1(2,3) show ?thesis by (auto simp: echo_loop.simps[of E' k s] print_def)
    next
      case False
      show ?thesis
      proof (rule round_keeps[OF keeps_echo_round 1(2)])
        show "cbind (echo_round E uid) (\<lambda>_ s. echo_loop E uid s) s = (r, s')"
          using 1(3,4) False by (simp only: echo_loop.simps[of E uid s] if_False)
      qed (use 1(1)[OF False] 1(4) in blast)
    qed
  qed
  then show "Ps s \<Longrightarrow> echo_loop E uid s = (r, s') \<Longrightarrow> Ps s'" for s r s' by blast
qed

lemma keeps_echo: "keeps Ps (echo E uid)"
  unfolding echo_def display_welcome_message_def by (intro session_intros keeps_echo_loop)

end

text \<open>An invariant of the statements is kept by all of them, hence by the session.\<close>

context session_invariant
begin

lemma keeps_reader: "sqlite_shared E \<Longrightarrow> session_reader P E"
  by (unfold_locales; intro keeps_dump_database keeps_get_user_by_username keeps_get_user_inventories keeps_my_orders
      keeps_get_archived_orders keeps_view_item_orders)

lemma login_phase: "sqlite_shared E \<Longrightarrow> session_login P E"
  by (intro session_login.intro session_login_axioms.intro keeps_reader keeps_insert_user newcomer_ok)

lemma command_phase: "sqlite_shared E \<Longrightarrow> session_commands P E uid"
  by (intro session_commands.intro session_commands_axioms.intro keeps_reader keeps_buy keeps_sell keeps_cancel_order)
    (simp_all add: typed_order_def)

lemmas dump_keeps = session_reader.dump_keeps[OF keeps_reader]
lemmas keeps_authenticate_round = session_reader.keeps_authenticate_round[OF keeps_reader]
lemmas keeps_register_user = session_login.keeps_register_user[OF login_phase]
lemmas keeps_login_round = session_login.keeps_login_round[OF login_phase]
lemmas keeps_login = session_login.keeps_login[OF login_phase]
lemmas keeps_echo = session_commands.keeps_echo[OF command_phase]

lemma keeps_accept_client: "sqlite_shared E \<Longrightarrow> keeps (\<lambda>s. P (db (conn s))) (accept_client E)"
  unfolding accept_client_def by (intro keeps_cbind keeps_login keeps_echo keeps_ret)

end

section \<open>Every session ends\<close>

text \<open>
  The loop of \<open>echo\<close> written with an explicit budget of rounds, \<open>None\<close> when the budget is spent: one
  round more than there are lines of input is always enough.
\<close>

fun echo_rounds :: "nat \<Rightarrow> 'w platform \<Rightarrow> int \<Rightarrow> 'w session \<Rightarrow> ((fault + unit) \<times> 'w session) option" where
  "echo_rounds 0 E uid s = None"
| "echo_rounds (Suc n) E uid s =
     (if eof (comm s) then Some (print (''EXITED'' @ [LF]) s)
      else case echo_round E uid s of
             (Inl e, s') \<Rightarrow> Some (Inl e, s')
           | (Inr _, s') \<Rightarrow> echo_rounds n E uid s')"

lemma echo_rounds_enough: "pending s < n \<Longrightarrow> echo_rounds n E uid s = Some (echo_loop E uid s)"
proof (induction n arbitrary: s)
  case (Suc n)
  show ?case
  proof (cases "eof (comm s)")
    case True
    then show ?thesis by (simp add: echo_loop.simps)
  next
    case False
    obtain r s' where run: "echo_round E uid s = (r, s')" by force
    have "pending s' < n" if "r = Inr ()"
      using echo_round_pending[of E uid s "()" s'] run that Suc.prems by simp
    with Suc.IH[of s'] run False show ?thesis
      by (cases r) (simp_all add: echo_loop.simps[of E uid s] cbind_def)
  qed
qed simp

end
