(* ===== verification/Logins.thy ===== *)
theory Logins
  imports Sessions
begin

text \<open>
  Who is on the other side: what \<open>strip_newline\<close> leaves of an answer, what a registration stores, and
  that commands are only ever run for a user whose name and password were typed in.
\<close>

section \<open>Answers\<close>

text \<open>The last character before the newline is dropped too: the carriage return, if there is one.\<close>

lemma strip_newline_line: "NUL \<notin> set w \<Longrightarrow> k \<noteq> NUL \<Longrightarrow> strip_newline (w @ [k, LF]) = Some w"
  by (simp add: strip_newline_def c_str_id Let_def nth_append)

lemma strip_newline_empty: "strip_newline [LF] = None"
  by (simp add: strip_newline_def)

lemma strip_newline_open: "NUL \<notin> set w \<Longrightarrow> LF \<notin> set w \<Longrightarrow> strip_newline w = Some w"
  by (cases w rule: rev_cases) (auto simp: strip_newline_def c_str_id Let_def)

lemma ask_done:
  assumes "ask prompt s = (Inr x, s')"
  shows "conn s' = conn s \<and> (\<exists>l. inp (comm s) = l # inp (comm s') \<and> strip_newline l = Some x)"
  using assms unfolding ask_def
  by (auto elim!: cbindE simp: of_option_Inr_iff comm.zoom_Inr_iff dest!: put_line_inp get_line_inp)

section \<open>Parts of the session\<close>

lemma tell_frame: "tell msg s = (r, s') \<Longrightarrow> conn s' = conn s \<and> inp (comm s') = inp (comm s)"
  by (auto simp: zoom_def dest: put_line_inp split: prod.splits)

lemma put_ignored_frame: "on_comm (put_ignored msg) s = (r, s') \<Longrightarrow> conn s' = conn s \<and> inp (comm s') = inp (comm s)"
  by (auto simp: zoom_def dest: put_ignored_inp split: prod.splits)

lemma print_frame: "print msg s = (r, s') \<Longrightarrow> conn s' = conn s \<and> comm s' = comm s"
  by (auto simp: print_def)

lemma get_line_frame: "on_comm get_line s = (Inr l, s') \<Longrightarrow> conn s' = conn s \<and> inp (comm s) = l # inp (comm s')"
  by (auto simp: comm.zoom_Inr_iff dest!: get_line_inp)

lemmas session_frames = tell_frame put_ignored_frame print_frame ask_done get_line_frame

text \<open>Somebody is logged in as \<open>uid\<close> once the lines of that user have been read, one after the other.\<close>

definition credentials_typed :: "int \<Rightarrow> tables \<Rightarrow> string list \<Rightarrow> string list \<Rightarrow> bool" where
  "credentials_typed uid t before after \<longleftrightarrow> (\<exists>u pre l1 l2. u \<in> set (users t) \<and> userID u = uid \<and>
     before = pre @ l1 # l2 # after \<and> strip_newline l1 = Some (username u) \<and> strip_newline l2 = Some (password u))"

lemma credentials_typed_append:
  "credentials_typed uid t ls after \<Longrightarrow> credentials_typed uid t (pre @ ls) after"
  unfolding credentials_typed_def by (metis append_assoc)

text \<open>Accounts are for good, so this stays true whatever other sessions do.\<close>

lemma credentials_typed_flow:
  assumes "credentials_typed uid t ls after" and "traffic t t'"
  shows "credentials_typed uid t' ls after"
proof -
  obtain u pre l1 l2 where u: "u \<in> set (users t)" "userID u = uid" "ls = pre @ l1 # l2 # after"
    "strip_newline l1 = Some (username u)" "strip_newline l2 = Some (password u)"
    using assms(1) by (auto simp: credentials_typed_def)
  obtain v where "v \<in> set (users t')" "credentials v = credentials u"
    using flow_account[OF assms(2) u(1)] by blast
  with u show ?thesis unfolding credentials_typed_def credentials_def by (metis Pair_inject)
qed

lemma conn_frame_inp: "on_db m s = (r, s') \<Longrightarrow> inp (comm s') = inp (comm s)"
  by (auto simp: zoom_def split: prod.splits)

lemma dump_inp: "dump E s = (Inr x, s') \<Longrightarrow> inp (comm s') = inp (comm s)"
  by (auto simp: dump_def elim!: cbindE dest!: conn_frame_inp print_frame)

lemma authenticate_round_inp: "authenticate_round E s = (Inr r, s') \<Longrightarrow> \<exists>pre. inp (comm s) = pre @ inp (comm s')"
  unfolding authenticate_round_def
  by (auto elim!: cbindE split: sum.split_asm if_split_asm dest!: session_frames conn_frame_inp dump_inp)
    (metis append_Cons append_Nil)+

lemma register_user_inp: "register_user E s = (Inr r, s') \<Longrightarrow> \<exists>pre. inp (comm s) = pre @ inp (comm s')"
  unfolding register_user_def Let_def
  by (auto elim!: cbindE split: sum.split_asm dest!: session_frames conn_frame_inp)

lemma binds_state: "sql_binds E q i n c = (r, c') \<Longrightarrow> c' = c"
  by (induction n arbitrary: i) (auto split: if_split_asm simp: ret_def)

context sqlite_engine
begin

lemma keeps_db_dump: "keeps (\<lambda>c. db c = t) (dump_database E)"
  unfolding dump_database_def dump_table_def Let_def
  by (intro keeps_intros keeps_prepare[where P = "\<lambda>d. d = t"] keeps_run[where P = "\<lambda>d. d = t"]) auto

lemma dump_frame:
  assumes "dump E s = (Inr x, s')"
  shows "db (conn s') = db (conn s) \<and> comm s' = comm s"
proof -
  obtain out s1 where d: "on_db (dump_database E) s = (Inr out, s1)" and p: "print out s1 = (Inr x, s')"
    using assms unfolding dump_def by (rule cbindE)
  then obtain c1 where "dump_database E (conn s) = (Inr out, c1)" "s1 = s\<lparr>conn := c1\<rparr>"
    by (auto simp: conn.zoom_Inr_iff)
  with keepsD[OF keeps_db_dump[of "db (conn s)"]] print_frame[OF p] show ?thesis by auto
qed

section \<open>Registering\<close>

lemma insert_user_done:
  assumes "insert_user E u c = (Inr r, c')"
  shows "(\<exists>rc. r = Inl rc) \<and> db c' = db c \<or>
    username u \<notin> username ` set (users (db c)) \<and> r = Inr (wrap32 (user_seq (db c'))) \<and>
    db c' = add_user (username u) (password u) (name u) (OMG u) (DOGE u) (BTC u) (ETH u) (db c)"
proof -
  define q where "q = Insert_User (username u) (password u) (name u) (OMG u) (DOGE u) (BTC u) (ETH u)"
  obtain rc c1 where p: "sql_prepare E q c = (Inr rc, c1)"
    and r1: "(if rc \<noteq> SQLITE_OK then ret (Inl rc) else
      cbind (sql_run E q) (\<lambda>(rows, res). if res \<noteq> SQLITE_DONE then ret (Inl res) else
      cbind (sql_last_rowid E) (\<lambda>k. ret (Inr (wrap32 k))))) c1 = (Inr r, c')"
    using assms unfolding insert_user_def Let_def q_def[symmetric] binds_ret cbind_ret
    by (simp cong del: if_weak_cong) (erule cbindE)
  have c1: "db c1 = db c" using prepare_run[OF p] by simp
  show ?thesis
  proof (cases "rc = 0")
    case True
    then obtain x c2 where run: "sql_run E q c1 = (Inr x, c2)"
      and r2: "(case x of (rows, res) \<Rightarrow> if res \<noteq> SQLITE_DONE then ret (Inl res) else
        cbind (sql_last_rowid E) (\<lambda>k. ret (Inr (wrap32 k)))) c2 = (Inr r, c')"
      using r1 by (simp cong del: if_weak_cong) (erule cbindE)
    show ?thesis
    proof (rule run_cases[OF run])
      fix rows assume x: "Inr x = Inr (rows, SQLITE_DONE)" and m: "sql_meaning (db c1) q rows (db c2)"
      have "last_rowid E c2 = user_seq (db c2)"
        using run x rowid by (auto simp: sql_run_def q_def split: prod.split_asm)
      with x m r2 c1 show ?thesis by (auto simp: q_def sql_last_rowid_def cbind_def)
    qed (use r2 c1 in \<open>auto simp: q_def\<close>)
  next
    case False
    with r1 c1 show ?thesis by simp
  qed
qed

text \<open>A registration that is answered stored the three answers and the starting balances, or nothing.\<close>

lemma register_user_done:
  assumes "register_user E s = (Inr uid, s')"
  shows "\<exists>l1 l2 l3 un nm pw. inp (comm s) = l1 # l2 # l3 # inp (comm s') \<and>
    strip_newline l1 = Some un \<and> strip_newline l2 = Some nm \<and> strip_newline l3 = Some pw \<and>
    (uid = - 1 \<and> db (conn s') = db (conn s) \<or>
     un \<notin> username ` set (users (db (conn s))) \<and> uid = wrap32 (user_seq (db (conn s'))) \<and>
     db (conn s') = add_user un pw nm DEFAULT_OMG DEFAULT_DOGE DEFAULT_BTC DEFAULT_ETH (db (conn s)))"
proof -
  obtain un s1 nm s2 pw s3 res s4 where a1: "ask (''Please enter a username: '' @ CRLF) s = (Inr un, s1)"
    and a2: "ask (''Please enter your name (for display purposes): '' @ CRLF) s1 = (Inr nm, s2)"
    and a3: "ask (''Please enter a password: '' @ CRLF) s2 = (Inr pw, s3)"
    and i: "on_db (insert_user E \<lparr>userID = 0, username = un, password = pw, name = nm, OMG = DEFAULT_OMG,
       DOGE = DEFAULT_DOGE, BTC = DEFAULT_BTC, ETH = DEFAULT_ETH\<rparr>) s3 = (Inr res, s4)"
    and rest: "(case res of
       Inl _ \<Rightarrow> cbind (print (''Error inserting user!'' @ [LF])) (\<lambda>_. ret (- 1))
     | Inr uid \<Rightarrow>
         cbind (tell (''Registration successful! You can now log in.'' @ CRLF)) (\<lambda>_. ret uid)) s4 = (Inr uid, s')"
    using assms unfolding register_user_def Let_def by (elim cbindE) auto
  obtain c4 where c4: "insert_user E \<lparr>userID = 0, username = un, password = pw, name = nm, OMG = DEFAULT_OMG,
       DOGE = DEFAULT_DOGE, BTC = DEFAULT_BTC, ETH = DEFAULT_ETH\<rparr> (conn s3) = (Inr res, c4)" "s4 = s3\<lparr>conn := c4\<rparr>"
    using i by (auto simp: conn.zoom_Inr_iff)
  have f: "conn s' = conn s4" "inp (comm s') = inp (comm s4)"
    and u: "\<And>rc. res = Inl rc \<Longrightarrow> uid = - 1" "\<And>k. res = Inr k \<Longrightarrow> uid = k"
    using rest by (auto elim!: cbindE split: sum.split_asm dest!: session_frames)
  obtain l1 l2 l3 where l: "inp (comm s) = l1 # inp (comm s1)" "strip_newline l1 = Some un"
    "inp (comm s1) = l2 # inp (comm s2)" "strip_newline l2 = Some nm"
    "inp (comm s2) = l3 # inp (comm s3)" "strip_newline l3 = Some pw" "conn s3 = conn s"
    using ask_done[OF a1] ask_done[OF a2] ask_done[OF a3] by auto
  have "inp (comm s) = l1 # l2 # l3 # inp (comm s')" using l f c4(2) by simp
  moreover have "uid = - 1 \<and> db (conn s') = db (conn s) \<or>
     un \<notin> username ` set (users (db (conn s))) \<and> uid = wrap32 (user_seq (db (conn s'))) \<and>
     db (conn s') = add_user un pw nm DEFAULT_OMG DEFAULT_DOGE DEFAULT_BTC DEFAULT_ETH (db (conn s))"
    using insert_user_done[OF c4(1)] u f(1) c4(2) l(7) by auto
  ultimately show ?thesis using l by blast
qed

end

section \<open>The login loop\<close>

context sqlite_shared
begin

lemma flow_on_db:
  assumes "keeps (\<lambda>c. traffic (db (conn s)) (db c)) m" and "on_db m s = (r, s')"
  shows "traffic (db (conn s)) (db (conn s'))"
  using conn.keeps_zoom[OF assms(1)] assms(2) quiet by (blast dest: keepsD)

lemma flow_dump: "dump E s = (r, s') \<Longrightarrow> traffic (db (conn s)) (db (conn s'))"
  using flow.dump_keeps[OF sqlite_shared_axioms] quiet by (blast dest: keepsD)

lemma flow_get_user_by_username:
  "get_user_by_username E un c = (r, c') \<Longrightarrow> traffic (db c) (db c')"
  using flow.keeps_get_user_by_username[OF sqlite_shared_axioms] quiet by (blast dest: keepsD)

text \<open>A row that a query delivers was in the tables at some moment since it was prepared.\<close>

lemma step_row:
  assumes "sql_step E q c = (Inr (Inr row), c')" and "data_stmt q"
  obtains t1 rest t' where "traffic (db c) t1" and "sql_meaning t1 q (row # rest) t'"
    and "traffic t1 (db c') \<or> (\<exists>all t2. sql_meaning t1 q all t2 \<and> traffic t2 (db c'))"
proof -
  obtain rows rc where run: "run_stmt E c q = ((rows, rc), c')" and rows: "rows = row # tl rows"
    using assms(1) by (auto simp: sql_step_def sql_run_def cbind_def ret_def split: prod.split_asm list.split_asm)
  from shared_run[OF run assms(2)] obtain t1 t2 where
    t: "traffic (db c) t1" "t2 = t1 \<or> (\<exists>all. sql_meaning t1 q all t2)" "traffic t2 (db c')"
    and "rows \<noteq> [] \<longrightarrow> (\<exists>all t'. sql_meaning t1 q all t' \<and> prefix rows all)" by blast
  then obtain all t' where "sql_meaning t1 q all t'" "prefix rows all" using rows by auto
  moreover from this obtain rest where "all = row # rest" using rows by (metis append_Cons prefix_def)
  ultimately have "sql_meaning t1 q (row # rest) t'" by simp
  with t that show thesis by blast
qed

lemma get_user_by_username_flow:
  assumes wf: "wf_db (db c)" and small: "ids_small (db c')"
    and run: "get_user_by_username E un c = (Inr (Inr u), c')"
  shows "username u = un \<and> (\<exists>v \<in> set (users (db c')). credentials v = credentials u)"
proof -
  obtain rc c1 row where p: "sql_prepare E (Select_User_By_Name un) c = (Inr rc, c1)"
    and st: "sql_step E (Select_User_By_Name un) c1 = (Inr (Inr row), c')" and u: "read_user row = Some u"
    using run unfolding get_user_by_username_def Let_def
    by (auto elim!: cbindE split: if_split_asm sum.split_asm simp: of_option_Inr_iff dest: binds_state)
  have f1: "traffic (db c) (db c1)"
    using keepsD[OF flow.prep[OF sqlite_shared_axioms] p] quiet by blast
  from st obtain t1 rest t' where t: "traffic (db c1) t1"
    "sql_meaning t1 (Select_User_By_Name un) (row # rest) t'" and "traffic t1 (db c')"
    by (rule step_row) auto
  have wf1: "wf_db t1" using wf f1 t(1) by (blast intro: wf.traffic_keeps)
  have "ids_small t1" using flow_counted[OF \<open>traffic t1 (db c')\<close>] small by (rule ids_small_before)
  moreover obtain v where v: "v \<in> set (users t1)" "username v = un" "row = user_row v"
    using t(2) by (simp only: sql_meaning.simps) (blast dest: mset_rows_in)
  ultimately have "u = v" using u wf1 by (simp add: wf_user_rowD wf_small_ids)
  with v flow_account[OF \<open>traffic t1 (db c')\<close>] show ?thesis by blast
qed

text \<open>A round of \<open>authenticate\<close> that lets somebody in read the user's name and password.\<close>

lemma authenticate_round_done:
  assumes wf: "wf_db (db (conn s))" and small: "ids_small (db (conn s'))"
    and run: "authenticate_round E s = (Inr (Some uid), s')"
  shows "credentials_typed uid (db (conn s')) (inp (comm s)) (inp (comm s'))"
proof -
  obtain s1 un s2 u s3 pw s4 where d: "dump E s = (Inr (), s1)" and a1: "ask (''Username: '' @ CRLF) s1 = (Inr un, s2)"
    and g: "on_db (get_user_with_username E un) s2 = (Inr (Inr u), s3)"
    and a2: "ask (''Password: '' @ CRLF) s3 = (Inr pw, s4)"
    and fin: "pw = password u" "uid = userID u" "conn s' = conn s4" "inp (comm s') = inp (comm s4)"
    using run unfolding authenticate_round_def
    by (auto elim!: cbindE split: sum.split_asm if_split_asm dest!: put_ignored_frame)
  obtain l1 l2 where l: "conn s2 = conn s1" "inp (comm s1) = l1 # inp (comm s2)" "strip_newline l1 = Some un"
    "conn s4 = conn s3" "inp (comm s3) = l2 # inp (comm s4)" "strip_newline l2 = Some pw"
    using ask_done[OF a1] ask_done[OF a2] by auto
  have "inp (comm s1) = inp (comm s)" "inp (comm s3) = inp (comm s2)"
    using dump_inp[OF d] conn_frame_inp[OF g] by simp_all
  then have lines: "inp (comm s) = [] @ l1 # l2 # inp (comm s')" using l fin(4) by simp
  have "wf_db (db (conn s2))" using wf flow_dump[OF d] l(1) by (auto intro: wf.traffic_keeps)
  moreover obtain c3 where "get_user_by_username E un (conn s2) = (Inr (Inr u), c3)" "conn s3 = c3"
    using g by (auto simp: conn.zoom_Inr_iff get_user_with_username_def)
  ultimately obtain v where "username u = un" "v \<in> set (users (db (conn s')))" "credentials v = credentials u"
    using get_user_by_username_flow[of "conn s2" c3 un u] small l(4) fin(3) by auto
  then show ?thesis
    unfolding credentials_typed_def credentials_def using lines l fin by (metis Pair_inject)
qed

lemma authenticate_done:
  assumes "wf_db (db (conn s))" and "ids_small (db (conn s'))" and "authenticate E s = (Inr uid, s')"
  shows "credentials_typed uid (db (conn s')) (inp (comm s)) (inp (comm s'))"
  using assms
proof (induction "pending s" arbitrary: s rule: less_induct)
  case less
  obtain r s1 where r: "authenticate_round E s = (Inr r, s1)"
    and rest: "(case r of Some uid \<Rightarrow> ret uid s1 | None \<Rightarrow> authenticate E s1) = (Inr uid, s')"
    using less.prems(3) by (subst (asm) authenticate.simps) (erule cbindE)
  show ?case
  proof (cases r)
    case None
    have "pending s1 < pending s" using r by (rule authenticate_round_pending)
    moreover have "wf_db (db (conn s1))"
      using keepsD[OF wf.keeps_authenticate_round[OF sqlite_shared_axioms] r] less.prems(1) by simp
    ultimately have "credentials_typed uid (db (conn s')) (inp (comm s1)) (inp (comm s'))"
      using less.hyps[of s1] less.prems(2) None rest by simp
    moreover obtain pre where "inp (comm s) = pre @ inp (comm s1)" using authenticate_round_inp[OF r] by auto
    ultimately show ?thesis by (auto intro: credentials_typed_append)
  next
    case (Some k)
    with rest have "k = uid" "s' = s1" by auto
    with authenticate_round_done[OF less.prems(1,2)] r Some show ?thesis by simp
  qed
qed

lemma login_round_done:
  assumes "login_round E uid status s = (Inr (uid', status'), s')"
  shows "status' = status \<and> (\<exists>pre. inp (comm s) = pre @ inp (comm s')) \<or> status' = 1 \<and> (\<exists>s1 l. conn s1 = conn s \<and> inp (comm s) = l # inp (comm s1) \<and>
    authenticate E s1 = (Inr uid', s'))"
proof -
  obtain s1 l s2 where t: "on_comm get_line s1 = (Inr l, s2)" "conn s1 = conn s" "inp (comm s1) = inp (comm s)"
    and rest: "(case c_str l of
       [] \<Rightarrow> cbind (tell (''Invalid option. Please enter 'r' or 'u'.'' @ CRLF)) (\<lambda>_. ret (uid, status))
     | k # _ \<Rightarrow>
         if k = CHR ''r'' then cbind (register_user E) (\<lambda>uid. ret (uid, status))
         else if k = CHR ''u'' then cbind (authenticate E) (\<lambda>uid. ret (uid, 1))
         else cbind (tell (''Invalid option. Please enter 'r' or 'u'.'' @ CRLF)) (\<lambda>_. ret (uid, status)))
       s2 = (Inr (uid', status'), s')"
    using assms unfolding login_round_def by (elim cbindE) (auto dest!: tell_frame)
  have s2: "conn s2 = conn s" "inp (comm s) = l # inp (comm s2)" using get_line_frame[OF t(1)] t(2,3) by auto
  show ?thesis
  proof (cases "c_str l = CHR ''u'' # tl (c_str l) \<and> c_str l \<noteq> []")
    case True
    with rest have "cbind (authenticate E) (\<lambda>uid. ret (uid, 1)) s2 = (Inr (uid', status'), s')"
      by (cases "c_str l") auto
    then have "authenticate E s2 = (Inr uid', s')" "status' = 1" by (auto elim!: cbindE)
    with s2 show ?thesis by blast
  next
    case False
    with rest have "status' = status \<and> ((\<exists>k. register_user E s2 = (Inr k, s')) \<or> inp (comm s') = inp (comm s2))"
      by (cases "c_str l") (auto elim!: cbindE split: if_split_asm dest!: tell_frame)
    then have "status' = status" "\<exists>pre. inp (comm s2) = pre @ inp (comm s')"
      using register_user_inp by auto
    then show ?thesis using s2(2) by (metis append_Cons)
  qed
qed

lemma login_done:
  assumes "wf_db (db (conn s))" and "ids_small (db (conn s'))" and "status \<noteq> 1"
    and "login E uid0 status s = (Inr uid, s')"
  shows "credentials_typed uid (db (conn s')) (inp (comm s)) (inp (comm s'))"
  using assms
proof (induction "pending s" arbitrary: s uid0 status rule: less_induct)
  case less
  note E = sqlite_shared_axioms
  obtain r s1 where r: "login_round E uid0 status s = (Inr r, s1)"
    and rest: "login E (fst r) (snd r) s1 = (Inr uid, s')"
    using less.prems(3,4) by (subst (asm) login.simps) (auto elim!: cbindE)
  obtain uid1 st1 where u1: "r = (uid1, st1)" by force
  have wf1: "wf_db (db (conn s1))" using keepsD[OF wf.keeps_login_round[OF E] r] less.prems(1) by simp
  from login_round_done[OF r[unfolded u1]] show ?case
  proof
    assume a: "st1 = status \<and> (\<exists>pre. inp (comm s) = pre @ inp (comm s1))"
    have "pending s1 < pending s" using r by (rule login_round_pending)
    from less.hyps[OF this wf1 less.prems(2), of st1 uid1] less.prems(3) a rest u1
    have "credentials_typed uid (db (conn s')) (inp (comm s1)) (inp (comm s'))" by simp
    with a show ?thesis by (auto intro: credentials_typed_append)
  next
    assume "st1 = 1 \<and> (\<exists>s0 l. conn s0 = conn s \<and> inp (comm s) = l # inp (comm s0) \<and> authenticate E s0 = (Inr uid1, s1))"
    then obtain s0 l where s0: "st1 = 1" "conn s0 = conn s" "inp (comm s) = l # inp (comm s0)"
      "authenticate E s0 = (Inr uid1, s1)" by auto
    have fl: "traffic (db (conn s1)) (db (conn s'))"
      using keepsD[OF flow.keeps_login[OF E] rest] quiet by blast
    have small: "ids_small (db (conn s1))" using flow_counted[OF fl] less.prems(2) by (rule ids_small_before)
    have "wf_db (db (conn s0))" using less.prems(1) s0(2) by simp
    note d = authenticate_done[OF this small s0(4)]
    then have "0 < uid1" using wf1 by (auto simp: credentials_typed_def wf_db_def keyed_def)
    then have "uid = uid1" "s' = s1" using rest u1 s0(1) by (simp_all add: login.simps)
    with d have "credentials_typed uid (db (conn s')) (inp (comm s0)) (inp (comm s'))" by simp
    with credentials_typed_append[of uid _ _ _ "[l]"] s0(3) show ?thesis by simp
  qed
qed

end

end
