(* ===== verification/Runs.thy ===== *)
theory Runs
  imports Logins Outcomes
begin

text \<open>
  A session as a run: on an engine that it has for itself, everything a session does to the tables,
  whatever the client types and whatever fails on the way, is a number of registrations followed by
  outcomes of orders and cancellations of the one user who logged in.
\<close>

section \<open>The steps\<close>

definition arrival :: "tables \<Rightarrow> tables \<Rightarrow> bool" where
  "arrival t t' \<longleftrightarrow> (\<exists>un pw nm. un \<notin> username ` set (users t) \<and>
     t' = add_user un pw nm DEFAULT_OMG DEFAULT_DOGE DEFAULT_BTC DEFAULT_ETH t)"

inductive command_step :: "int \<Rightarrow> tables \<Rightarrow> tables \<Rightarrow> bool" for uid where
  Ordered: "typed_order uid side ord \<Longrightarrow> side \<in> {BUY, SELL} \<Longrightarrow> order_outcome ord ok t t' \<Longrightarrow> command_step uid t t'"
| Cancelled: "cancel_outcome uid k res t t' \<Longrightarrow> command_step uid t t'"

definition arrived :: "tables \<Rightarrow> tables \<Rightarrow> bool" where
  "arrived t0 t \<longleftrightarrow> wf_db t \<and> arrival\<^sup>*\<^sup>* t0 t"

definition commanded :: "int \<Rightarrow> tables \<Rightarrow> tables \<Rightarrow> bool" where
  "commanded uid t0 t \<longleftrightarrow> wf_db t \<and> (ids_small t \<and> in_int32 uid \<longrightarrow> (command_step uid)\<^sup>*\<^sup>* t0 t)"

text \<open>Among the lines \<open>ls\<close>, the user name and the password of \<open>u\<close>, one after the other.\<close>

definition typed_login :: "user_t \<Rightarrow> string list \<Rightarrow> bool" where
  "typed_login u ls \<longleftrightarrow> (\<exists>pre l1 l2 post. ls = pre @ l1 # l2 # post \<and>
     strip_newline l1 = Some (username u) \<and> strip_newline l2 = Some (password u))"

lemma command_step_refl: "command_step uid t t"
  by (rule Cancelled[of uid undefined "- 1"]) (simp add: cancel_outcome_def)

context sqlite_engine
begin

section \<open>The phases of a session\<close>

text \<open>Reading keeps whatever is true of the tables.\<close>

lemma keeps_reads: "session_reader P E"
proof unfold_locales
  show "keeps (\<lambda>c. P (db c)) (dump_database E)"
    unfolding dump_database_def dump_table_def Let_def by (intro keeps_intros keeps_prepare keeps_run) auto
  show "keeps (\<lambda>c. P (db c)) (get_user_by_username E un)" for un
    unfolding get_user_by_username_def Let_def by (intro keeps_intros keeps_prepare keeps_step; simp)
  show "keeps (\<lambda>c. P (db c)) (get_user_inventories E u)" for u
    unfolding get_user_inventories_def Let_def by (intro keeps_intros keeps_prepare keeps_step; simp)
  show "keeps (\<lambda>c. P (db c)) (my_orders E k)" for k
    unfolding my_orders_def get_user_all_orders_def Let_def by (intro keeps_intros keeps_prepare keeps_run; simp)
  show "keeps (\<lambda>c. P (db c)) (get_archived_orders E k)" for k
    unfolding get_archived_orders_def get_user_archived_orders_def Let_def
    by (intro keeps_intros keeps_prepare keeps_run; simp)
  show "keeps (\<lambda>c. P (db c)) (view_item_orders E i)" for i
    unfolding view_item_orders_def get_item_all_orders_def fetch_top_def
    by (intro keeps_intros keeps_prepare keeps_run; simp)
qed

lemma arrived_add:
  assumes "arrived t0 t" and "un \<notin> username ` set (users t)"
  shows "arrived t0 (add_user un pw nm DEFAULT_OMG DEFAULT_DOGE DEFAULT_BTC DEFAULT_ETH t)"
proof -
  have "arrival t (add_user un pw nm DEFAULT_OMG DEFAULT_DOGE DEFAULT_BTC DEFAULT_ETH t)"
    unfolding arrival_def using assms(2) by blast
  moreover have "wf_db (add_user un pw nm DEFAULT_OMG DEFAULT_DOGE DEFAULT_BTC DEFAULT_ETH t)"
    using assms by (intro wf_add_user) (simp_all add: arrived_def in_int32_def)
  ultimately show ?thesis
    using assms(1) unfolding arrived_def by (blast intro: rtranclp.rtrancl_into_rtrancl)
qed

lemma arrived_login: "session_login (arrived t0) E"
proof (intro session_login.intro session_login_axioms.intro keeps_reads)
  fix u assume "newcomer u"
  then have "sql_meaning t (Insert_User (username u) (password u) (name u) (OMG u) (DOGE u) (BTC u) (ETH u)) rows t' \<Longrightarrow>
      arrived t0 t \<Longrightarrow> arrived t0 t'" for t rows t'
    by (simp add: newcomer_def) (blast intro: arrived_add)
  then show "keeps (\<lambda>c. arrived t0 (db c)) (insert_user E u)"
    unfolding insert_user_def Let_def by (intro keeps_intros keeps_prepare keeps_run) simp_all
qed

lemma keeps_commanded:
  assumes step: "\<And>t. wf_db t \<Longrightarrow> ids_small t \<Longrightarrow> in_int32 uid \<Longrightarrow>
      outcome (command_step uid t) (\<lambda>t'. t' = t) m (\<lambda>_. command_step uid t)"
    and wf: "keeps wf_conn m" and counted: "\<And>t. keeps (\<lambda>c. counted_since t (db c)) m"
  shows "keeps (\<lambda>c. commanded uid t0 (db c)) m"
proof (rule keepsI)
  fix c r c' assume c: "commanded uid t0 (db c)" and run: "m c = (r, c')"
  have "(command_step uid)\<^sup>*\<^sup>* t0 (db c')" if small: "ids_small (db c')" "in_int32 uid"
  proof -
    have before: "ids_small (db c)"
      by (rule ids_small_before[OF _ small(1)]) (use keepsD[OF counted run, of "db c"] in simp)
    have "command_step uid (db c) (db c')"
      using outcomeD[OF step _ run] c before small(2) by (cases r) (auto simp: commanded_def)
    with c before small(2) show ?thesis by (auto simp: commanded_def)
  qed
  moreover have "wf_conn c'" using keepsD[OF wf run] c by (simp add: commanded_def)
  ultimately show "commanded uid t0 (db c')" by (simp add: commanded_def)
qed

lemma commanded_commands: "session_commands (commanded uid t0) E uid"
proof (intro session_commands.intro session_commands_axioms.intro keeps_reads)
  note E = shared
  fix ord
  show "keeps (\<lambda>c. commanded uid t0 (db c)) (buy E (Some ord))" if typed: "typed_order uid BUY ord"
  proof (rule keeps_commanded)
    fix t assume t: "wf_db t" "ids_small t" "in_int32 uid"
    have o: "order_ints ord" "in_int32 (ord_userID ord)" "buyOrSell ord = BUY" using typed t(3) by (auto simp: typed_order_def)
    show "outcome (command_step uid t) (\<lambda>t'. t' = t) (buy E (Some ord)) (\<lambda>_. command_step uid t)"
      by (rule outcome_weaken[OF outcome_buy[OF t(1,2) o]]) (auto intro: Ordered[OF typed])
  qed (use typed in \<open>auto intro!: wf.keeps_buy[OF E] counted.keeps_buy[OF E] simp: typed_order_def\<close>)
  show "keeps (\<lambda>c. commanded uid t0 (db c)) (sell E (Some ord))" if typed: "typed_order uid SELL ord"
  proof (rule keeps_commanded)
    fix t assume t: "wf_db t" "ids_small t" "in_int32 uid"
    have o: "order_ints ord" "in_int32 (ord_userID ord)" "buyOrSell ord = SELL" using typed t(3) by (auto simp: typed_order_def)
    show "outcome (command_step uid t) (\<lambda>t'. t' = t) (sell E (Some ord)) (\<lambda>_. command_step uid t)"
      by (rule outcome_weaken[OF outcome_sell[OF t(1,2) o]]) (auto intro: Ordered[OF typed])
  qed (use typed in \<open>auto intro!: wf.keeps_sell[OF E] counted.keeps_sell[OF E] simp: typed_order_def\<close>)
  show "keeps (\<lambda>c. commanded uid t0 (db c)) (cancel_order E k uid)" for k
  proof (rule keeps_commanded)
    fix t assume t: "wf_db t" "ids_small t"
    show "outcome (command_step uid t) (\<lambda>t'. t' = t) (cancel_order E k uid) (\<lambda>_. command_step uid t)"
      by (rule outcome_weaken[OF outcome_cancel_order[OF t]]) (auto intro: Cancelled command_step_refl)
  qed (intro wf.keeps_cancel_order[OF E] counted.keeps_cancel_order[OF E])+
qed

end

text \<open>The interfaces of the session, provided by the engine for the two phases.\<close>

sublocale sqlite_engine \<subseteq> arrivals: session_login "arrived t0" E for t0
  by (rule arrived_login)

sublocale sqlite_engine \<subseteq> run: session_commands "commanded uid t0" E uid for uid t0
  by (rule commanded_commands)

section \<open>The whole session\<close>

context sqlite_engine
begin

lemma accept_client_run:
  assumes wf: "wf_db (db (conn s))" and small: "ids_small (db (conn s'))" and run: "accept_client E s = (r, s')"
  shows "\<exists>t1. arrival\<^sup>*\<^sup>* (db (conn s)) t1 \<and> (db (conn s') = t1 \<or>
    (\<exists>u \<in> set (users t1). typed_login u (inp (comm s)) \<and> (command_step (userID u))\<^sup>*\<^sup>* t1 (db (conn s'))))"
proof -
  obtain x s1 where log: "login E (- 1) 0 s = (x, s1)" by force
  have arr: "arrived (db (conn s)) (db (conn s1))"
    using keepsD[OF arrivals.keeps_login log, of "db (conn s)"] wf by (simp add: arrived_def)
  show ?thesis
  proof (cases x)
    case (Inl e)
    with run log have "s' = s1" by (simp add: accept_client_def cbind_def)
    with arr show ?thesis by (auto simp: arrived_def)
  next
    case (Inr uid)
    then obtain y where echo: "echo E uid s1 = (y, s')"
      using run log by (cases "echo E uid s1") (auto simp: accept_client_def cbind_def ret_def split: sum.split_asm)
    have wf1: "wf_db (db (conn s1))" using arr by (simp add: arrived_def)
    have small1: "ids_small (db (conn s1))"
      by (rule ids_small_before[OF _ small]) (use keepsD[OF counted.keeps_echo[OF shared] echo, of "db (conn s1)"] in simp)
    have "credentials_typed uid (db (conn s1)) (inp (comm s)) (inp (comm s1))"
      using login_done[OF wf small1 _ log[unfolded Inr]] by simp
    then obtain u where u: "u \<in> set (users (db (conn s1)))" "userID u = uid" "typed_login u (inp (comm s))"
      unfolding credentials_typed_def typed_login_def by blast
    have "commanded uid (db (conn s1)) (db (conn s1))" using wf1 by (simp add: commanded_def)
    then have "commanded uid (db (conn s1)) (db (conn s'))"
      using keepsD[OF run.keeps_echo echo] by blast
    moreover have "in_int32 uid" using wf_small_ids(1)[OF wf1 small1 u(1)] u(2) by simp
    ultimately have "(command_step uid)\<^sup>*\<^sup>* (db (conn s1)) (db (conn s'))" using small by (simp add: commanded_def)
    with u arr show ?thesis unfolding arrived_def by blast
  qed
qed

end

end
