(* ===== verification/Departures.thy ===== *)
theory Departures
  imports Runs
begin

text \<open>
  How orders leave the book: an order of somebody who did not log in stays open, with the quantity that
  is left of it, or has been written into the archive first, whatever the commands did and wherever they stopped.
\<close>

section \<open>The keys\<close>

lemma keys_ok_book_after: "keys_ok t \<Longrightarrow> keys_ok (book_after m n t)"
  and keys_ok_archived_row: "keys_ok t \<Longrightarrow> keys_ok (archived_row m t)"
  by (simp_all add: book_after_def archived_row_def)

lemma keys_ok_booked: "booked ord t t' \<Longrightarrow> keys_ok t \<Longrightarrow> keys_ok t'"
  and keys_ok_placed: "placed ord t t' \<Longrightarrow> keys_ok t \<Longrightarrow> keys_ok t'"
  by (auto simp: booked_def placed_def simp del: wf_keys)

lemma keys_ok_stage: "trade_stage ord m t n x \<Longrightarrow> keys_ok t \<Longrightarrow> keys_ok x"
  by (induction rule: trade_stage.induct)
    (blast intro: keys_ok_book_after keys_ok_archived_row keys_ok_set_user keys_ok_booked keys_ok_placed)+

lemma keys_ok_step: "command_step uid t t' \<Longrightarrow> keys_ok t \<Longrightarrow> keys_ok t'"
proof (induction rule: command_step.induct)
  case (Ordered side ord ok t t')
  then show ?case
    by (auto simp: order_outcome_def stopped_def split: if_split_asm intro: keys_ok_stage keys_ok_booked keys_ok_placed)
next
  case (Cancelled k res t t')
  then show ?case
    by (auto simp: cancel_outcome_def cancelled_def refund_only_def)
qed

text \<open>The five things that a step of a user can have done.\<close>

lemma command_step_cases [consumes 1, case_names Same Added Traded Refunded Removed]:
  assumes "command_step uid t t'"
  obtains "t' = t" | ord where "ord_userID ord = uid" "booked ord t t' \<or> placed ord t t'"
    | ord m n where "ord_userID ord = uid" "m \<in> set (orders t)" "trade_stage ord m t n t'"
    | u where "userID u = uid" "t' = set_user u t"
    | r u where "r \<in> set (orders t)" "ord_userID r = uid" "userID u = uid" "t' = remove_order (orderID r) (set_user u t)"
  using assms
proof cases
  case (Ordered side ord ok)
  then have "ord_userID ord = uid" by (simp add: typed_order_def)
  with Ordered(3) show thesis
    by (auto simp: order_outcome_def stopped_def split: if_split_asm intro: that(1-3))
next
  case (Cancelled k res)
  then consider "t' = t" | u where "userID u = uid" "t' = set_user u t"
    | r u where "r \<in> set (orders t)" "ord_userID r = uid" "userID u = uid" "t' = remove_order (orderID r) (set_user u t)"
    by (auto simp: cancel_outcome_def cancelled_def refund_only_def dest: refunded_keeps)
  then show thesis using that(1,4,5) by cases
qed

section \<open>Orders and archive after each step\<close>

lemma orders_archived_row [simp]: "orders (archived_row r t) = orders t"
  and archives_archived_row [simp]: "archives (archived_row r t) = archives t @ [r\<lparr>orderID := archive_seq t + 1\<rparr>]"
  by (simp_all add: archived_row_def add_archive_def)

lemma archives_book_after [simp]: "archives (book_after m n t) = archives t"
  by (simp add: book_after_def remove_order_def change_order_def)

lemma orders_book_after: "r \<in> set (orders t) \<Longrightarrow> orderID r \<noteq> orderID m \<Longrightarrow> r \<in> set (orders (book_after m n t))"
  by (force simp: book_after_def remove_order_def change_order_def)

lemma booked_tables: "booked ord t t' \<Longrightarrow> archives t' = archives t \<and> set (orders t) \<subseteq> set (orders t')"
  and placed_tables: "placed ord t t' \<Longrightarrow> archives t' = archives t \<and> set (orders t) \<subseteq> set (orders t')"
  by (auto simp: booked_def placed_def add_order_def)

lemma added_archives: "booked ord t t' \<or> placed ord t t' \<Longrightarrow> archives t' = archives t"
  and added_order: "booked ord t t' \<or> placed ord t t' \<Longrightarrow> r \<in> set (orders t') \<Longrightarrow> ord_userID r \<noteq> ord_userID ord \<Longrightarrow>
    r \<in> set (orders t)"
  and added_keeps: "booked ord t t' \<or> placed ord t t' \<Longrightarrow> r \<in> set (orders t) \<Longrightarrow> r \<in> set (orders t')"
  by (auto simp: booked_def placed_def add_order_def)

lemma archives_remove_order [simp]: "archives (remove_order j t) = archives t"
  and removed_order: "r \<in> set (orders (remove_order j t)) \<Longrightarrow> r \<in> set (orders t)"
  and remaining_order: "r \<in> set (orders t) \<Longrightarrow> orderID r \<noteq> j \<Longrightarrow> r \<in> set (orders (remove_order j t))"
  by (auto simp: remove_order_def)

lemma stage_archives:
  "trade_stage ord m t n x \<Longrightarrow>
   \<exists>zs. archives x = archives t @ zs \<and> (0 < n \<longrightarrow> (\<exists>k. m\<lparr>orderID := k\<rparr> \<in> set zs))"
  by (induction rule: trade_stage.induct) (auto dest!: booked_tables placed_tables)

lemma stage_orders:
  "trade_stage ord m t n x \<Longrightarrow> (n < 5 \<longrightarrow> orders x = orders t) \<and> (\<forall>r \<in> set (orders t). orderID r \<noteq> orderID m \<longrightarrow> r \<in> set (orders x))"
  by (induction rule: trade_stage.induct) (auto intro: orders_book_after dest!: booked_tables placed_tables)

section \<open>Traces\<close>

text \<open>The order \<open>r\<close> is still open, up to its quantity, or is among the rows archived after the first \<open>n\<close>.\<close>

definition traced :: "order_t \<Rightarrow> nat \<Rightarrow> tables \<Rightarrow> bool" where
  "traced r n t \<longleftrightarrow> n \<le> length (archives t) \<and> ((\<exists>q. r\<lparr>quantity := q\<rparr> \<in> set (orders t)) \<or>
     (\<exists>k q. r\<lparr>orderID := k, quantity := q\<rparr> \<in> set (drop n (archives t))))"

lemma traced_start: "r \<in> set (orders t) \<Longrightarrow> traced r (length (archives t)) t"
  unfolding traced_def by (metis order_refl order_t.update_convs(4) order_t.surjective)

lemma traced_more:
  assumes "traced r n t" and "archives t' = archives t @ zs"
    and "\<And>q. r\<lparr>quantity := q\<rparr> \<in> set (orders t) \<Longrightarrow> r\<lparr>quantity := q\<rparr> \<in> set (orders t') \<or> (\<exists>k. r\<lparr>orderID := k, quantity := q\<rparr> \<in> set zs)"
  shows "traced r n t'"
  using assms unfolding traced_def by auto

lemma traced_arrival: "traced r n t \<Longrightarrow> arrival t t' \<Longrightarrow> traced r n t'"
  by (auto simp: traced_def arrival_def add_user_def)

lemma traced_stage:
  assumes "traced r n t" and "trade_stage ord m t k x" and "keys_ok t" and "m \<in> set (orders t)"
  shows "traced r n x"
proof -
  obtain zs where zs: "archives x = archives t @ zs" "0 < k \<longrightarrow> (\<exists>j. m\<lparr>orderID := j\<rparr> \<in> set zs)"
    using stage_archives[OF assms(2)] by blast
  note ords = stage_orders[OF assms(2)]
  show ?thesis
  proof (rule traced_more[OF assms(1) zs(1)])
    fix q assume q: "r\<lparr>quantity := q\<rparr> \<in> set (orders t)"
    show "r\<lparr>quantity := q\<rparr> \<in> set (orders x) \<or> (\<exists>j. r\<lparr>orderID := j, quantity := q\<rparr> \<in> set zs)"
    proof (cases "orderID r = orderID m")
      case True
      then have "m = r\<lparr>quantity := q\<rparr>"
        using q assms(3,4) by (auto simp: keys_ok_def keyed_def intro: distinct_key_unique[of orderID])
      then have "m\<lparr>orderID := j\<rparr> = r\<lparr>orderID := j, quantity := q\<rparr>" for j by simp
      with ords zs(2) q show ?thesis by (cases "k = 0") auto
    next
      case False
      with ords q show ?thesis by auto
    qed
  qed
qed

lemma traced_step:
  assumes "traced r n t" and "command_step uid t t'" and "keys_ok t" and "ord_userID r \<noteq> uid"
  shows "traced r n t'"
  using assms(2)
proof (cases rule: command_step_cases)
  case Same with assms(1) show ?thesis by simp
next
  case (Added ord)
  then show ?thesis by (intro traced_more[OF assms(1), where zs = "[]"]) (simp_all add: added_archives added_keeps)
next
  case (Traded ord m k) with assms(1,3) show ?thesis by (blast intro: traced_stage)
next
  case (Refunded u) then show ?thesis by (intro traced_more[OF assms(1), where zs = "[]"]) auto
next
  case (Removed r' u)
  have "orderID (r\<lparr>quantity := q\<rparr>) \<noteq> orderID r'" if "r\<lparr>quantity := q\<rparr> \<in> set (orders t)" for q
  proof
    assume "orderID (r\<lparr>quantity := q\<rparr>) = orderID r'"
    then have "r' = r\<lparr>quantity := q\<rparr>"
      using Removed(1) that assms(3) by (auto simp: keys_ok_def keyed_def intro: distinct_key_unique[of orderID])
    with Removed(2) assms(4) show False by simp
  qed
  with Removed(4) show ?thesis
    by (intro traced_more[OF assms(1), where zs = "[]"]) (auto intro!: remaining_order)
qed

lemma traced_steps:
  assumes "(command_step uid)\<^sup>*\<^sup>* t t'" and "traced r n t" and "keys_ok t" and "ord_userID r \<noteq> uid"
  shows "traced r n t'"
proof -
  from assms(1) have "traced r n t' \<and> keys_ok t'"
    by induction (use assms(2-4) in \<open>auto intro: traced_step keys_ok_step\<close>)
  then show ?thesis ..
qed

lemma traced_arrivals: "arrival\<^sup>*\<^sup>* t t' \<Longrightarrow> traced r n t \<Longrightarrow> traced r n t'"
  by (induction rule: rtranclp_induct) (auto intro: traced_arrival)

section \<open>A whole session\<close>

lemma arrivals_frame:
  "arrival\<^sup>*\<^sup>* t t' \<Longrightarrow> wf_db t \<Longrightarrow> wf_db t' \<and> set (users t) \<subseteq> set (users t')"
proof (induction rule: rtranclp_induct)
  case (step x y)
  from step(2) obtain un pw nm where "un \<notin> username ` set (users x)"
    "y = add_user un pw nm DEFAULT_OMG DEFAULT_DOGE DEFAULT_BTC DEFAULT_ETH x" by (auto simp: arrival_def)
  moreover from this step(3,4) have "wf_db y" by (simp add: wf_add_user in_int32_def)
  ultimately show ?case using step(3,4) by (auto simp: add_user_def)
qed simp

text \<open>What a session is to a user who does not log in: arrivals, then steps of somebody else.\<close>

context sqlite_engine
begin

lemma others_session:
  assumes wf: "wf_db (db (conn s))" and "ids_small (db (conn s'))" and "accept_client E s = (r, s')"
    and u: "u \<in> set (users (db (conn s)))" "\<not> typed_login u (inp (comm s))"
  obtains t1 where "arrival\<^sup>*\<^sup>* (db (conn s)) t1" and "u \<in> set (users t1)" and "keys_ok t1" and "db (conn s') = t1"
  | t1 uid where "arrival\<^sup>*\<^sup>* (db (conn s)) t1" and "u \<in> set (users t1)" and "keys_ok t1" and "userID u \<noteq> uid"
    and "(command_step uid)\<^sup>*\<^sup>* t1 (db (conn s'))"
proof -
  obtain t1 where t1: "arrival\<^sup>*\<^sup>* (db (conn s)) t1" and rest: "db (conn s') = t1 \<or>
      (\<exists>u \<in> set (users t1). typed_login u (inp (comm s)) \<and> (command_step (userID u))\<^sup>*\<^sup>* t1 (db (conn s')))"
    using accept_client_run[OF assms(1-3)] by blast
  have wf1: "wf_db t1" and u1: "u \<in> set (users t1)" using arrivals_frame[OF t1 wf] u(1) by auto
  have "userID u \<noteq> userID v" if "v \<in> set (users t1)" "typed_login v (inp (comm s))" for v
    using that u1 u(2) wf1 by (auto simp: wf_db_def keyed_def dest: distinct_key_unique[of userID])
  with t1 u1 wf1 rest that show thesis by fastforce
qed

lemma order_leaves:
  assumes "wf_db (db (conn s))" and "ids_small (db (conn s'))" and "accept_client E s = (r, s')"
    and ord: "ord \<in> set (orders (db (conn s)))"
    and "u \<in> set (users (db (conn s)))" and own: "userID u = ord_userID ord" and "\<not> typed_login u (inp (comm s))"
  shows "traced ord (length (archives (db (conn s)))) (db (conn s'))"
  using assms(1-3,5,7)
proof (cases rule: others_session)
  case (1 t1) with traced_arrivals traced_start[OF ord] show ?thesis by blast
next
  case (2 t1 uid) with traced_arrivals traced_start[OF ord] own show ?thesis by (metis traced_steps)
qed

end

end
