(* ===== verification/Accounts.thy ===== *)
theory Accounts
  imports Refinement
begin

text \<open>
  Where the coins are. \<open>coin_supply i t\<close> counts the coins of type \<open>i\<close> in the accounts and those locked up by
  open orders. Placing an order moves coins from one to the other and cancelling moves them back; a
  trade takes the coins of the order that was in the book a second time from its owner, so it
  destroys as many as that order had locked for the traded part.
\<close>

definition locked :: "int \<Rightarrow> order_t \<Rightarrow> int" where
  "locked i r = (case lock r of None \<Rightarrow> 0 | Some (j, n) \<Rightarrow> if j = i then n else 0)"

definition coin_supply :: "int \<Rightarrow> tables \<Rightarrow> int" where
  "coin_supply i t = sum_list (map (coins i) (users t)) + sum_list (map (locked i) (orders t))"

section \<open>Balances and totals\<close>

lemma coins_gain: "coins i (gain j n u) = coins i u + (if i = j \<and> j \<in> {0, 1, 2, 3} then n else 0)"
  by (auto simp: coins_def gain_def)

lemma coins_OMG_update: "coins i (u\<lparr>OMG := v\<rparr>) = (if i = COIN_OMG then v else coins i u)"
  by (simp add: coins_def)

lemma coins_0: "coins 0 u = OMG u"
  by (simp add: coins_def)

lemma lock_coin: "lock r = Some (j, n) \<Longrightarrow> j \<in> {0, 1, 2, 3}"
  by (auto simp: lock_def split: if_split_asm)

lemma lock_same:
  "item r = item s \<Longrightarrow> buyOrSell r = buyOrSell s \<Longrightarrow> quantity r = quantity s \<Longrightarrow> unitPrice r = unitPrice s \<Longrightarrow>
   lock r = lock s"
  by (simp add: lock_def order_cost_def)

lemma total_set_user:
  assumes "keys_ok t" and "u \<in> set (users t)" and "userID u' = userID u"
  shows "sum_list (map (coins i) (users (set_user u' t))) =
    sum_list (map (coins i) (users t)) + coins i u' - coins i u"
proof -
  let ?f = "\<lambda>x. x\<lparr>OMG := OMG u', DOGE := DOGE u', BTC := BTC u', ETH := ETH u'\<rparr>"
  have "coins i (?f u) = coins i u'" by (simp add: coins_def)
  with users.total_update[of t u "userID u'" "coins i" ?f] assms show ?thesis
    by (simp add: keys_ok_def set_user_def change_balance_def)
qed

lemma supply_set_user:
  "keys_ok t \<Longrightarrow> u \<in> set (users t) \<Longrightarrow> userID u' = userID u \<Longrightarrow>
   coin_supply i (set_user u' t) = coin_supply i t + coins i u' - coins i u"
  by (simp add: coin_supply_def total_set_user)

lemma supply_add_order:
  "coin_supply i (add_order ts it b q p uid t) = coin_supply i t +
     locked i \<lparr>orderID = order_seq t + 1, item = it, buyOrSell = b, quantity = q, ord_userID = uid,
       unitPrice = p, created_at = Some ts\<rparr>"
  by (simp add: coin_supply_def add_order_def)

lemma supply_remove_order:
  "keys_ok t \<Longrightarrow> r \<in> set (orders t) \<Longrightarrow> orderID r = k \<Longrightarrow>
   coin_supply i (remove_order k t) = coin_supply i t - locked i r"
  using orders.total_delete[of t r k "locked i"] by (simp add: keys_ok_def coin_supply_def remove_order_def)

lemma supply_change_order:
  assumes "keys_ok t" and "m \<in> set (orders t)"
  shows "coin_supply i (change_order (item m) (buyOrSell m) q (unitPrice m) (ord_userID m) (orderID m) t) =
    coin_supply i t + locked i (m\<lparr>quantity := q\<rparr>) - locked i m"
  using orders.total_update[of t m "orderID m" "locked i" "\<lambda>r. r\<lparr>item := item m, buyOrSell := buyOrSell m,
      quantity := q, ord_userID := ord_userID m, unitPrice := unitPrice m\<rparr>"] assms
  by (simp add: keys_ok_def coin_supply_def change_order_def)

lemma supply_archived_row [simp]: "coin_supply i (archived_row r t) = coin_supply i t"
  by (simp add: coin_supply_def)

section \<open>Placing and cancelling\<close>

lemma placed_supply:
  assumes "placed ord t t'" and "keys_ok t"
  shows "coin_supply i t' = coin_supply i t"
proof -
  obtain u j n ts where u: "u \<in> set (users t)" and lock: "lock ord = Some (j, n)"
    and t': "t' = set_user (gain j (- n) u)
       (add_order ts (item ord) (buyOrSell ord) (quantity ord) (unitPrice ord) (ord_userID ord) t)"
    using assms(1) by (auto simp: placed_def)
  let ?t1 = "add_order ts (item ord) (buyOrSell ord) (quantity ord) (unitPrice ord) (ord_userID ord) t"
  have "coin_supply i t' = coin_supply i ?t1 + coins i (gain j (- n) u) - coins i u"
    unfolding t' using u keys_ok_add_order[OF assms(2)] by (intro supply_set_user) (simp_all add: add_order_def)
  also have "coin_supply i ?t1 = coin_supply i t + locked i ord"
    unfolding supply_add_order locked_def by (subst lock_same[of _ ord]) simp_all
  also have "locked i ord = (if j = i then n else 0)" using lock by (simp add: locked_def)
  finally show ?thesis using lock_coin[OF lock] by (auto simp: coins_gain)
qed

text \<open>Rounding stays between whole numbers, so a whole result that fits into an \<open>int\<close> is exact.\<close>

lemma fl_between:
  assumes "of_int a \<le> x" and "x \<le> of_int b" and "\<bar>a\<bar> < 2 ^ 53" and "\<bar>b\<bar> < 2 ^ 53"
  obtains y where "fl x = Fin y" and "of_int a \<le> y" and "y \<le> of_int b"
proof -
  have "Fin (of_int a) \<le> fl x" "fl x \<le> Fin (of_int b)"
    using fl_mono[OF assms(1)] fl_mono[OF assms(2)] fl_int[OF assms(3)] fl_int[OF assms(4)] by simp_all
  then show thesis using that by (cases "fl x") auto
qed

lemma to_cint_fl_int: "to_cint (fl (of_int k)) = Some v \<Longrightarrow> v = k"
proof -
  assume v: "to_cint (fl (of_int k)) = Some v"
  then obtain q where q: "fl (of_int k) = Fin q" "in_int32 (trunc q)" "v = trunc q"
    by (cases "fl (of_int k :: rat)") (auto split: if_split_asm)
  have "\<bar>k\<bar> < 2 ^ 53"
  proof (rule ccontr)
    assume "\<not> \<bar>k\<bar> < 2 ^ 53"
    then have "2 ^ 52 \<le> k \<or> k \<le> - (2 ^ 52)" by auto
    then consider "2 ^ 52 \<le> k" | "k \<le> - (2 ^ 52)" by blast
    then show False
    proof cases
      case 1
      have "fl (of_int (2 ^ 52)) \<le> fl (of_int k)" using 1 by (intro fl_mono) (simp only: of_int_le_iff)
      then have "of_int (2 ^ 52) \<le> q" using fl_int[of "2 ^ 52"] q(1) by simp
      then have "trunc (of_int (2 ^ 52)) \<le> trunc q" by (rule trunc_mono)
      with q(2) show False unfolding trunc_int in_int32_def by simp
    next
      case 2
      have "fl (of_int k) \<le> fl (of_int (- (2 ^ 52)))" using 2 by (intro fl_mono) (simp only: of_int_le_iff)
      then have "q \<le> of_int (- (2 ^ 52))" using fl_int[of "- (2 ^ 52)"] q(1) by simp
      then have "trunc q \<le> trunc (of_int (- (2 ^ 52)))" by (rule trunc_mono)
      with q(2) show False unfolding trunc_int in_int32_def by simp
    qed
  qed
  with fl_int[of k] q show "v = k" by simp
qed

text \<open>Prices that are whole numbers of OMG.\<close>

definition whole_price :: "order_t \<Rightarrow> int \<Rightarrow> bool" where
  "whole_price r p \<longleftrightarrow> unitPrice r = Fin (of_int p)"

lemma order_cost_whole: "whole_price r p \<Longrightarrow> order_cost r = Some n \<Longrightarrow> n = quantity r * p"
  by (auto simp: whole_price_def order_cost_def of_cint_def simp flip: of_int_mult dest: to_cint_fl_int)

lemma whole_cost: "whole_price r p \<Longrightarrow> \<bar>n * p\<bar> < 2 ^ 53 \<Longrightarrow> dmul (of_cint n) (unitPrice r) = Fin (of_int (n * p))"
  by (simp add: whole_price_def of_cint_def fl_int flip: of_int_mult)

lemma paid_whole: "paid (Fin (of_int k)) u = Some v \<Longrightarrow> v = u\<lparr>OMG := OMG u - k\<rparr>"
  by (auto simp: paid_def dsub_def of_cint_def simp flip: of_int_diff dest!: to_cint_fl_int)

lemma earned_whole: "earned (Fin (of_int k)) u = Some v \<Longrightarrow> v = u\<lparr>OMG := OMG u + k\<rparr>"
  by (auto simp: earned_def of_cint_def simp flip: of_int_add dest!: to_cint_fl_int)

lemma whole_order_cost:
  "whole_price r p \<Longrightarrow> in_int32 (quantity r * p) \<Longrightarrow> order_cost r = Some (quantity r * p)"
proof -
  assume p: "whole_price r p" and q: "in_int32 (quantity r * p)"
  then have "\<bar>quantity r * p\<bar> < 2 ^ 53" by (auto simp: in_int32_def)
  with p q show ?thesis by (simp add: order_cost_def whole_cost del: of_int_mult)
qed

lemma order_cost_int32: "order_cost r = Some n \<Longrightarrow> in_int32 n"
  by (auto simp: order_cost_def dest: to_cint_int32)

lemma cancelled_supply:
  assumes c: "cancelled uid k t t'" and keys: "keys_ok t" and r: "r \<in> set (orders t)" "orderID r = k"
    and lock: "lock r = Some (j, n)" and whole: "buyOrSell r = BUY \<Longrightarrow> whole_price r p"
  shows "coin_supply i t' = coin_supply i t"
proof -
  obtain r' u u' where r': "r' \<in> set (orders t)" "orderID r' = k"
    and u: "u \<in> set (users t)" "userID u = uid" "refunded r' u = Some u'"
    and t': "t' = remove_order k (set_user u' t)"
    using c by (auto simp: cancelled_def)
  have "r' = r" using orders.row_unique[of t] keys r r' by (auto simp: keys_ok_def)
  then have ref: "refunded r u = Some u'" using u(3) by simp
  have "coins i u' = coins i u + (if j = i then n else 0)"
  proof (cases "buyOrSell r = BUY")
    case True
    with lock have "j = 0" "order_cost r = Some n" by (auto simp: lock_def)
    with whole[OF True] have n: "n = quantity r * p" using order_cost_whole by auto
    with order_cost_int32[OF \<open>order_cost r = Some n\<close>] have "\<bar>quantity r * p\<bar> < 2 ^ 53" by (auto simp: in_int32_def)
    with ref True whole[OF True] n have "u' = u\<lparr>OMG := OMG u + n\<rparr>"
      by (auto simp: refunded_def whole_cost simp del: of_int_mult dest!: earned_whole)
    then show ?thesis using \<open>j = 0\<close> by (simp add: coins_def)
  next
    case False
    with lock have "j = item r" "n = quantity r" "j \<in> {1, 2, 3}" by (auto simp: lock_def split: if_split_asm)
    with ref False show ?thesis by (auto simp: refunded_def coins_gain)
  qed
  moreover have "coin_supply i t' = coin_supply i t + coins i u' - coins i u - locked i r"
    using supply_remove_order[of "set_user u' t" r k i] keys r u refunded_keeps[OF ref]
    by (simp add: t' supply_set_user)
  ultimately show ?thesis using lock by (simp add: locked_def)
qed

text \<open>
  With a price that is not a whole number the sum \<open>u.OMG + refund\<close> is rounded once more: a refund may
  give one OMG more than was locked, or one less when the cost is negative.
\<close>

definition slips :: "order_t \<Rightarrow> int set" where
  "slips r = (if dle (Fin 0) (dmul (of_cint (quantity r)) (unitPrice r)) then {0, 1} else {- 1, 0})"

lemma refund_slips:
  assumes cost: "order_cost r = Some n" and ref: "earned (dmul (of_cint (quantity r)) (unitPrice r)) u = Some u'"
    and small: "\<bar>OMG u\<bar> < 2 ^ 52"
  obtains d where "u' = u\<lparr>OMG := OMG u + n + d\<rparr>" and "d \<in> slips r"
proof -
  obtain y where y: "dmul (of_cint (quantity r)) (unitPrice r) = Fin y" "n = trunc y" "in_int32 n"
    using cost by (cases "dmul (of_cint (quantity r)) (unitPrice r)") (auto simp: order_cost_def split: if_split_asm)
  obtain v where v: "to_cint (fl (of_int (OMG u) + y)) = Some v" "u' = u\<lparr>OMG := v\<rparr>"
    using ref[unfolded y(1)] by (auto simp: earned_def of_cint_def)
  define k where "k = (if 0 \<le> y then OMG u + n else OMG u + n - 1)"
  have k: "of_int k \<le> of_int (OMG u) + y" "of_int (OMG u) + y \<le> of_int (k + 1)"
    using y(2) by (auto simp: k_def trunc_def) linarith+
  moreover have "\<bar>k\<bar> < 2 ^ 53" "\<bar>k + 1\<bar> < 2 ^ 53" using small y(3) by (auto simp: k_def in_int32_def)
  ultimately obtain z where z: "fl (of_int (OMG u) + y) = Fin z" "of_int k \<le> z" "z \<le> of_int (k + 1)"
    using fl_between by metis
  have "v = trunc z" using v(1) z(1) by (auto split: if_split_asm)
  then have "k \<le> v" "v \<le> k + 1" using trunc_mono[OF z(2)] trunc_mono[OF z(3)] by (simp_all only: trunc_int)
  then have "v - (OMG u + n) \<in> slips r" using y(1) by (auto simp: slips_def k_def dle_def split: if_split_asm)
  moreover have "u' = u\<lparr>OMG := OMG u + n + (v - (OMG u + n))\<rparr>" by (simp add: v(2))
  ultimately show thesis using that by blast
qed

lemma cancelled_supply_OMG:
  assumes c: "cancelled uid k t t'" and keys: "keys_ok t" and r: "r \<in> set (orders t)" "orderID r = k"
    and lock: "lock r = Some (COIN_OMG, n)" and ints: "\<forall>u \<in> set (users t). in_int32 (OMG u)"
  shows "coin_supply COIN_OMG t' - coin_supply COIN_OMG t \<in> slips r"
proof -
  obtain r' u u' where r': "r' \<in> set (orders t)" "orderID r' = k"
    and u: "u \<in> set (users t)" "userID u = uid" "refunded r' u = Some u'"
    and t': "t' = remove_order k (set_user u' t)"
    using c by (auto simp: cancelled_def)
  have "r' = r" using orders.row_unique[of t] keys r r' by (auto simp: keys_ok_def)
  moreover have side: "buyOrSell r = BUY" "order_cost r = Some n" using lock by (auto simp: lock_def split: if_split_asm)
  ultimately have "earned (dmul (of_cint (quantity r)) (unitPrice r)) u = Some u'"
    using u(3) by (simp add: refunded_def)
  moreover have "\<bar>OMG u\<bar> < 2 ^ 52" using ints u(1) by (auto simp: in_int32_def)
  ultimately obtain d where d: "u' = u\<lparr>OMG := OMG u + n + d\<rparr>" "d \<in> slips r" using refund_slips[OF side(2)] by blast
  moreover have "coin_supply 0 t' = coin_supply 0 t + coins 0 u' - coins 0 u - n"
    using supply_remove_order[of "set_user u' t" r k 0] keys r u d(1) lock
    by (simp add: t' supply_set_user locked_def)
  ultimately show ?thesis by (simp add: coins_0)
qed

section \<open>Trading\<close>

lemma coins_paid_whole:
  "paid (Fin (of_int k)) u = Some v \<Longrightarrow> coins i v = coins i u - (if i = 0 then k else 0)"
  by (auto dest!: paid_whole simp: coins_def)

lemma coins_earned_whole:
  "earned (Fin (of_int k)) u = Some v \<Longrightarrow> coins i v = coins i u + (if i = 0 then k else 0)"
  by (auto dest!: earned_whole simp: coins_def)

lemma coins_buyer_after:
  assumes "buyer_after (Fin (of_int k)) it n u = Some v"
  shows "coins i v = coins i u - (if i = 0 then k else 0) + (if i = it \<and> it \<in> {0, 1, 2, 3} then n else 0)"
proof -
  obtain w where "paid (Fin (of_int k)) u = Some w" "v = gain it n w"
    using assms by (auto simp: buyer_after_def)
  with coins_paid_whole[of k u w i] show ?thesis by (simp add: coins_gain)
qed

lemma coins_seller_after:
  assumes "seller_after b (Fin (of_int k)) it n u = Some v"
  shows "coins i v = coins i u + (if i = 0 then k else 0) - (if i = it \<and> it \<in> {0, 1, 2, 3} then n else 0)"
proof (cases b)
  case True
  then obtain w where "earned (Fin (of_int k)) u = Some w" "v = gain it (- n) w"
    using assms by (auto simp: seller_after_def)
  with coins_earned_whole[of k u w i] show ?thesis by (auto simp: coins_gain)
next
  case False
  then have "earned (Fin (of_int k)) (gain it (- n) u) = Some v" using assms by (simp add: seller_after_def)
  from coins_earned_whole[OF this, of i] show ?thesis by (auto simp: coins_gain)
qed

text \<open>Between them the two parties keep what they have.\<close>

lemma parties_supply:
  assumes "parties ord m u v u' v'" and "item m = item ord" and "trade_cost ord m = Fin (of_int k)"
  shows "coins i u' + coins i v' = coins i u + coins i v"
proof (cases "buyOrSell ord = BUY")
  case True
  with assms have "buyer_after (Fin (of_int k)) (item ord) (trade_quantity ord m) u = Some u'"
    "seller_after True (Fin (of_int k)) (item ord) (trade_quantity ord m) v = Some v'"
    by (simp_all add: parties_def deal_eq Let_def)
  from coins_buyer_after[OF this(1), of i] coins_seller_after[OF this(2), of i] show ?thesis by simp
next
  case False
  with assms have "seller_after False (Fin (of_int k)) (item ord) (trade_quantity ord m) u = Some u'"
    "buyer_after (Fin (of_int k)) (item ord) (trade_quantity ord m) v = Some v'"
    by (simp_all add: parties_def deal_eq Let_def)
  from coins_seller_after[OF this(1), of i] coins_buyer_after[OF this(2), of i] show ?thesis by simp
qed

text \<open>What the book loses: the coins that the matched order had locked for the traded part.\<close>

lemma locked_quantity:
  assumes "whole_price m p" and "in_int32 (q * p)" and "item m \<in> {1, 2, 3} \<or> buyOrSell m = BUY"
  shows "locked i (m\<lparr>quantity := q\<rparr>) =
    (if buyOrSell m = BUY then if i = 0 then q * p else 0 else if i = item m then q else 0)"
proof -
  have "order_cost (m\<lparr>quantity := q\<rparr>) = Some (q * p)"
    using whole_order_cost[of "m\<lparr>quantity := q\<rparr>" p] assms(1,2) by (simp add: whole_price_def)
  with assms(3) show ?thesis by (auto simp: locked_def lock_def)
qed

text \<open>At a whole price, the coins that an order locks are in proportion to its quantity.\<close>

lemma locked_part:
  assumes p: "whole_price m p" and lock: "lock m \<noteq> None" and n: "0 \<le> n" "n \<le> quantity m"
  shows "locked i (m\<lparr>quantity := quantity m - n\<rparr>) = locked i m - locked i (m\<lparr>quantity := n\<rparr>)"
proof (cases "buyOrSell m = BUY")
  case True
  then have "order_cost m \<noteq> None" using lock by (simp add: lock_def)
  then have q: "in_int32 (quantity m * p)" using order_cost_whole[OF p] order_cost_int32 by fastforce
  have b: "in_int32 (k * p)" if "0 \<le> k" "k \<le> quantity m" for k
  proof (cases "0 \<le> p")
    case True
    then have "0 \<le> k * p" "k * p \<le> quantity m * p" using that by (simp_all add: mult_right_mono)
    with q show ?thesis by (simp add: in_int32_def)
  next
    case False
    then have "k * p \<le> 0" "quantity m * p \<le> k * p"
      using that by (simp_all add: mult_nonneg_nonpos mult_right_mono_neg)
    with q show ?thesis by (simp add: in_int32_def)
  qed
  have "locked i (m\<lparr>quantity := k\<rparr>) = (if i = 0 then k * p else 0)" if "0 \<le> k" "k \<le> quantity m" for k
    using locked_quantity[OF p b[OF that], of i] True by simp
  from this[of n] this[of "quantity m - n"] this[of "quantity m"] n show ?thesis
    by (simp add: left_diff_distrib)
next
  case False
  then have "item m \<in> {1, 2, 3}" using lock by (auto simp: lock_def split: if_split_asm)
  with False have "locked i (m\<lparr>quantity := q\<rparr>) = (if i = item m then q else 0)" for q
    by (auto simp: locked_def lock_def)
  from this[of n] this[of "quantity m - n"] this[of "quantity m"] show ?thesis by simp
qed

lemma supply_book_after:
  assumes keys: "keys_ok t" and m: "m \<in> set (orders t)" and p: "whole_price m p"
    and lock: "lock m \<noteq> None" and n: "0 \<le> n" "n \<le> quantity m"
  shows "coin_supply i (book_after m n t) = coin_supply i t - locked i (m\<lparr>quantity := n\<rparr>)"
proof (cases "quantity m = n")
  case True
  then have same: "m\<lparr>quantity := n\<rparr> = m" by (cases m) simp
  show ?thesis
    unfolding same using True supply_remove_order[OF keys m refl, of i] by (simp add: book_after_def)
next
  case False
  with supply_change_order[OF keys m, of i "quantity m - n"] locked_part[OF p lock n, of i]
  show ?thesis by (simp add: book_after_def)
qed

lemma settled_supply:
  assumes st: "settled ord m t t'" and keys: "keys_ok t" and m: "m \<in> set (orders t)" "fills m ord"
    and lock: "lock m \<noteq> None" and p: "whole_price m p" and q: "0 \<le> quantity ord" "0 \<le> quantity m"
    and small: "\<bar>trade_quantity ord m * p\<bar> < 2 ^ 53"
  shows "coin_supply i t' = coin_supply i t - locked i (m\<lparr>quantity := trade_quantity ord m\<rparr>)"
proof -
  obtain ts u v u' v' where u: "u \<in> set (users t)" "userID u = ord_userID ord"
    and v: "v \<in> set (users t)" "userID v = ord_userID m" and par: "parties ord m u v u' v'"
    and t': "t' = book_after m (trade_quantity ord m) (set_user v' (set_user u'
       (archived_row (ord\<lparr>created_at := Some ts\<rparr>) (archived_row m t))))"
    using st by (auto simp: settled_def)
  let ?t2 = "archived_row (ord\<lparr>created_at := Some ts\<rparr>) (archived_row m t)"
  have k2: "keys_ok ?t2" unfolding archived_row_def by (intro keys_ok_add_archive keys)
  note keep = parties_keep[OF par]
  have "ord_userID m \<noteq> ord_userID ord" using m(2) by (simp add: fills_def)
  then have vin: "v \<in> set (users (set_user u' ?t2))"
    using u v keep by (force simp: set_user_def users_change_balance)
  have "coin_supply i (set_user v' (set_user u' ?t2)) = coin_supply i t + coins i u' - coins i u + coins i v' - coins i v"
    using supply_set_user[OF keys_ok_set_user[OF k2] vin, of v' i] supply_set_user[OF k2, of u u' i] keep u by simp
  moreover have "item m = item ord" using m(2) by (simp add: fills_def)
  with parties_supply[OF par this, of "trade_quantity ord m * p" i] p small
  have "coins i u' + coins i v' = coins i u + coins i v" by (simp add: trade_cost_def whole_cost del: of_int_mult)
  moreover have "coin_supply i t' = coin_supply i (set_user v' (set_user u' ?t2))
      - locked i (m\<lparr>quantity := trade_quantity ord m\<rparr>)"
    unfolding t' using k2 m(1) p lock q
    by (intro supply_book_after keys_ok_set_user) (auto simp: trade_quantity_def)
  ultimately show ?thesis by simp
qed

section \<open>A new order\<close>

text \<open>What a whole accepted order does to the coins: nothing when it rests, and the loss of one trade else.\<close>

definition sound_fill :: "order_t \<Rightarrow> order_t \<Rightarrow> bool" where
  "sound_fill ord m \<longleftrightarrow> lock m \<noteq> None \<and> 0 \<le> quantity m \<and>
     (\<exists>p. whole_price m p \<and> \<bar>trade_quantity ord m * p\<bar> < 2 ^ 53)"

lemma traded_supply:
  assumes tr: "traded ord m t t'" and keys: "keys_ok t" and m: "m \<in> set (orders t)" "fills m ord"
    and sound: "sound_fill ord m" and q: "0 \<le> quantity ord"
  shows "coin_supply i t' = coin_supply i t - locked i (m\<lparr>quantity := trade_quantity ord m\<rparr>)"
proof -
  obtain t1 ts where t1: "settled ord m t t1"
    and t': "if quantity ord \<le> quantity m then t' = t1
      else placed (ord\<lparr>quantity := quantity ord - quantity m, created_at := Some ts\<rparr>) t1 t'"
    using tr by (auto simp: traded_def)
  obtain p where p: "whole_price m p" "\<bar>trade_quantity ord m * p\<bar> < 2 ^ 53"
    using sound by (auto simp: sound_fill_def)
  have "coin_supply i t1 = coin_supply i t - locked i (m\<lparr>quantity := trade_quantity ord m\<rparr>)"
    using settled_supply[OF t1 keys m _ p(1) q] sound p(2) by (simp add: sound_fill_def)
  moreover have "coin_supply i t' = coin_supply i t1"
    using t' placed_supply[OF _ keys_ok_settled[OF t1 keys]] by (simp split: if_split_asm)
  ultimately show ?thesis by simp
qed

lemma posted_supply:
  assumes po: "posted ord t t'" and keys: "keys_ok t" and q: "0 \<le> quantity ord"
    and sound: "\<forall>m \<in> set (orders t). fills m ord \<longrightarrow> sound_fill ord m"
  shows "(\<forall>m \<in> set (orders t). \<not> fills m ord) \<and> coin_supply i t' = coin_supply i t \<or>
    (\<exists>m \<in> set (orders t). fills m ord \<and> (\<forall>x \<in> set (orders t). fills x ord \<longrightarrow> older m x) \<and>
      coin_supply i t' = coin_supply i t - locked i (m\<lparr>quantity := trade_quantity ord m\<rparr>))"
  using po sound traded_supply[OF _ keys _ _ _ q] placed_supply[OF _ keys]
  unfolding posted_def by blast

end
