(* ===== verification/Safety.thy ===== *)
theory Safety
  imports Accounts
begin

text \<open>
  What the commands never do: take an order that the client cannot pay for, cancel somebody else's
  order, touch the account of somebody who has no part in a trade, or let a buyer run into debt. And
  cancelling an order that rests undoes it.
\<close>

section \<open>Refusals\<close>

context sqlite_engine
begin

lemma buy_refused:
  assumes "wf_conn c" and "in_int32 (ord_userID ord)" and "buyOrSell ord = BUY"
    and poor: "\<forall>u \<in> set (users (db c)). userID u = ord_userID ord \<longrightarrow> \<not> affordable ord u"
    and run: "buy E (Some ord) c = (r, c')"
  shows "r = Inr (- 1) \<and> db c' = db c"
proof -
  obtain x c1 where g: "get_user E (ord_userID ord) c = (x, c1)" by force
  from get_user_spec[OF assms(1,2) g] show ?thesis
    using run g poor assms(3) by (auto simp: buy_def cbind_def affordable_iff)
qed

lemma sell_refused:
  assumes "wf_conn c" and "in_int32 (ord_userID ord)" and "buyOrSell ord = SELL"
    and poor: "\<forall>u \<in> set (users (db c)). userID u = ord_userID ord \<longrightarrow> \<not> affordable ord u"
    and run: "sell E (Some ord) c = (r, c')"
  shows "r = Inr (- 1) \<and> db c' = db c"
proof -
  obtain x c1 where g: "get_user E (ord_userID ord) c = (x, c1)" by force
  from get_user_spec[OF assms(1,2) g] show ?thesis
    using run g poor assms(3) by (auto simp: sell_def cbind_def affordable_iff)
qed

lemma cancel_refused:
  assumes "wf_conn c" and "ids_small (db c)"
    and other: "\<forall>r \<in> set (orders (db c)). orderID r = k \<longrightarrow> ord_userID r \<noteq> uid"
    and run: "cancel_order E k uid c = (r, c')"
  shows "r = Inr (- 1) \<and> db c' = db c"
proof -
  obtain x c1 where g: "get_order E k c = (x, c1)" by force
  from get_order_spec[OF assms(1,2) g] show ?thesis
    using run g other by (auto simp: cancel_order_def cbind_def)
qed

end

section \<open>Bystanders\<close>

text \<open>What the tables hold of an account that a command does not write.\<close>

lemma acct_set_user_other [simp]:
  assumes "userID u \<noteq> k"
  shows "acct (market_of (set_user u t)) k = acct (market_of t) k"
proof -
  have "find (\<lambda>v. userID v = k) (map (\<lambda>v. if userID v = userID u
      then v\<lparr>OMG := OMG u, DOGE := DOGE u, BTC := BTC u, ETH := ETH u\<rparr> else v) us) = find (\<lambda>v. userID v = k) us" for us
    by (induction us) (use assms in auto)
  then show ?thesis by (simp add: market_of_def set_user_def change_balance_def)
qed

lemma acct_elsewhere [simp]: "acct (market_of (archived_row r t)) = acct (market_of t)"
  "acct (market_of (book_after m n t)) = acct (market_of t)" "acct (market_of (remove_order i t)) = acct (market_of t)"
  "acct (market_of (add_order ts i b q p uid t)) = acct (market_of t)"
  by (simp_all add: market_of_def archived_row_def add_archive_def book_after_def remove_order_def change_order_def
      add_order_def)

lemma booked_acct: "booked ord t t' \<Longrightarrow> acct (market_of t') = acct (market_of t)"
  and placed_acct: "placed ord t t' \<Longrightarrow> k \<noteq> ord_userID ord \<Longrightarrow> acct (market_of t') k = acct (market_of t) k"
  by (auto simp: booked_def placed_def)

lemma stage_acct:
  "trade_stage ord m t n x \<Longrightarrow> k \<noteq> ord_userID ord \<Longrightarrow> n < 4 \<or> k \<noteq> ord_userID m \<Longrightarrow>
   acct (market_of x) k = acct (market_of t) k"
proof (induction rule: trade_stage.induct)
  case (New_settled x u u')
  then show ?case by (auto simp: new_party_def dest: buyer_after_keeps seller_after_keeps split: if_split_asm)
next
  case (Old_settled x v v')
  then show ?case by (auto simp: old_party_def dest: buyer_after_keeps seller_after_keeps split: if_split_asm)
qed (auto simp: booked_acct placed_acct)

lemma step_post_frame:
  assumes "market_step (Post ord) M M'" and "k \<noteq> ord_userID ord"
    and "\<forall>m \<in> ran (book M). fills m ord \<longrightarrow> ord_userID m \<noteq> k"
  shows "acct M' k = acct M k"
  using assms(1)
proof cases
  case (Rests u k' ts)
  with assms(2) show ?thesis by (auto simp: place_def split: Option.bind_split_asm if_split_asm)
next
  case (Fills u m ts)
  have "ord_userID m \<noteq> k" using Fills(3) assms(3) by (auto simp: best_fill_def ran_def)
  with Fills(4) assms(2) show ?thesis by (auto simp: settle_def Let_def split: Option.bind_split_asm)
next
  case (Fills_part u m ts M1 k' ts')
  have "ord_userID m \<noteq> k" using Fills_part(3) assms(3) by (auto simp: best_fill_def ran_def)
  with Fills_part(4) assms(2) have "acct M1 k = acct M k"
    by (auto simp: settle_def Let_def split: Option.bind_split_asm)
  with Fills_part(6) assms(2) show ?thesis by (auto simp: place_def split: Option.bind_split_asm if_split_asm)
qed

lemma post_frame:
  assumes "post_outcome ord ok t t'" and "keys_ok t" and "k \<noteq> ord_userID ord"
    and "\<forall>m \<in> set (orders t). fills m ord \<longrightarrow> ord_userID m \<noteq> k"
  shows "acct (market_of t') k = acct (market_of t) k"
proof (cases ok)
  case True
  with assms(1) have "posted ord t t'" by (simp add: post_outcome_def)
  from posted_step[OF this assms(2)] assms(2-4) show ?thesis by (intro step_post_frame) (simp_all add: ran_book)
next
  case False
  with assms show ?thesis by (auto simp: post_outcome_def stopped_def booked_acct dest: stage_acct)
qed

lemma step_cancel_frame:
  assumes "market_step (Cancel uid k) M M'"
  shows "(\<forall>j. j \<noteq> uid \<longrightarrow> acct M' j = acct M j) \<and> (\<forall>j. j \<noteq> k \<longrightarrow> book M' j = book M j) \<and> hist M' = hist M"
  using assms by cases auto

section \<open>A buyer stays solvent\<close>

lemma dlt_fin: "\<not> dlt (of_cint k) x \<Longrightarrow> x \<noteq> NaN \<Longrightarrow> x \<le> Fin (of_int k)"
  by (cases x) (auto simp: of_cint_def)

lemma trade_cost_affordable:
  assumes buys: "buyOrSell ord = BUY" and afford: "affordable ord u" and f: "fills m ord"
    and q: "0 \<le> quantity ord" "0 \<le> quantity m" and price: "unitPrice m = Fin a" "0 \<le> a"
  shows "trade_cost ord m \<le> Fin (of_int (OMG u)) \<or> trade_quantity ord m = 0"
proof -
  define n where "n = trade_quantity ord m"
  have n: "0 \<le> n" "n \<le> quantity ord" using q by (auto simp: n_def trade_quantity_def)
  have le: "dle (Fin a) (unitPrice ord)" using f buys price(1) by (simp add: fills_def)
  have aff: "\<not> dlt (of_cint (OMG u)) (dmul (of_cint (quantity ord)) (unitPrice ord))"
    using afford buys by (simp add: affordable_iff)
  show ?thesis
  proof (cases "unitPrice ord")
    case (Fin p)
    then have "a \<le> p" using le by (auto simp: dle_def)
    then have "of_int n * a \<le> of_int (quantity ord) * p" using n price(2) by (intro mult_mono) auto
    then have "fl (of_int n * a) \<le> fl (of_int (quantity ord) * p)" by (rule fl_mono)
    also have "\<dots> \<le> Fin (of_int (OMG u))"
      using dlt_fin[OF aff] by (simp add: Fin of_cint_def)
    finally show ?thesis by (simp add: trade_cost_def price(1) of_cint_def n_def)
  next
    case PInf
    have "quantity ord = 0"
      using aff q(1) by (rule_tac ccontr) (simp add: PInf of_cint_def dinf_def)
    then show ?thesis using n by (simp add: n_def)
  qed (use le in \<open>auto simp: dle_def\<close>)
qed

lemma buyer_solvent:
  assumes p: "parties ord m u v u' v'" and buys: "buyOrSell ord = BUY" and afford: "affordable ord u"
    and f: "fills m ord" and q: "0 \<le> quantity ord" "0 \<le> quantity m"
    and price: "Fin 0 \<le> unitPrice m" and u: "0 \<le> OMG u"
  shows "0 \<le> OMG u'"
proof -
  define n where "n = trade_quantity ord m"
  have n: "0 \<le> n" using q by (auto simp: n_def trade_quantity_def)
  obtain w where w: "paid (trade_cost ord m) u = Some w" "u' = gain (item ord) n w"
    using p buys by (auto simp: parties_def deal_eq Let_def buyer_after_def n_def)
  then obtain z where z: "to_cint (dsub (of_cint (OMG u)) (trade_cost ord m)) = Some z" "w = u\<lparr>OMG := z\<rparr>"
    by (auto simp: paid_def)
  obtain a where a: "unitPrice m = Fin a" "0 \<le> a"
  proof (cases "unitPrice m")
    case PInf
    then have "dsub (of_cint (OMG u)) (trade_cost ord m) \<in> {NInf, NaN, PInf}"
      by (cases "n = 0") (auto simp: trade_cost_def of_cint_def dsub_def dinf_def n_def)
    with z(1) show thesis by auto
  qed (use price f buys in \<open>auto simp: fills_def dle_def\<close>)
  have "trade_cost ord m \<le> Fin (of_int (OMG u))"
    using trade_cost_affordable[OF buys afford f q a] u by (auto simp: trade_cost_def of_cint_def a(1))
  then obtain y where y: "trade_cost ord m = Fin y" "y \<le> of_int (OMG u)"
    using z(1) by (cases "trade_cost ord m") (auto simp: dsub_def of_cint_def)
  have "Fin 0 \<le> fl (of_int (OMG u) - y)" using fl_mono[of 0 "of_int (OMG u) - y"] y(2) by simp
  then have "0 \<le> z" using z(1) y(1) trunc_mono[of 0]
    by (cases "fl (of_int (OMG u) - y)") (auto simp: dsub_def of_cint_def trunc_def split: if_split_asm)
  then show ?thesis using w(2) z(2) n by (simp add: gain_def)
qed

lemma place_solvent:
  assumes "place ord k ts M = Some M'" and "buyOrSell ord = BUY"
  shows "\<exists>w. acct M' (ord_userID ord) = Some w \<and> 0 \<le> OMG w"
  using assms by (auto simp: place_def lock_def coins_def gain_def split: Option.bind_split_asm if_split_asm)

lemma settle_solvent:
  assumes "settle ord m ts M = Some M'" and "buyOrSell ord = BUY" and "acct M (ord_userID ord) = Some u"
    and "affordable ord u" and "fills m ord" and "0 \<le> quantity ord" and "0 \<le> quantity m"
    and "Fin 0 \<le> unitPrice m" and "0 \<le> OMG u"
  shows "\<exists>w. acct M' (ord_userID ord) = Some w \<and> 0 \<le> OMG w"
proof -
  have "ord_userID m \<noteq> ord_userID ord" using assms(5) by (simp add: fills_def)
  with assms(1,2,3) obtain v u' v' where "acct M' (ord_userID ord) = Some u'" "parties ord m u v u' v'"
    by (auto simp: settle_def parties_def deal_eq Let_def split: Option.bind_split_asm)
  with buyer_solvent[OF this(2) assms(2,4-9)] show ?thesis by auto
qed

lemma step_solvent:
  assumes step: "market_step (Post ord) M M'" and buys: "buyOrSell ord = BUY" and q: "0 \<le> quantity ord"
    and bk: "\<forall>m \<in> ran (book M). fills m ord \<longrightarrow> 0 \<le> quantity m \<and> Fin 0 \<le> unitPrice m"
    and u: "acct M (ord_userID ord) = Some u" "0 \<le> OMG u"
  shows "\<exists>w. acct M' (ord_userID ord) = Some w \<and> 0 \<le> OMG w"
  using step
proof cases
  case (Rests u k ts)
  with buys show ?thesis by (auto intro: place_solvent)
next
  case (Fills u2 m ts)
  then have "u2 = u" "fills m ord" "m \<in> ran (book M)" using u(1) by (auto simp: best_fill_def ran_def)
  with Fills bk settle_solvent[OF Fills(4) buys] q u show ?thesis by auto
next
  case (Fills_part u2 m ts M1 k ts')
  with buys show ?thesis using place_solvent[OF Fills_part(6)] by simp
qed

section \<open>Placing and taking back\<close>

lemma gain_gain: "gain i n (gain i k u) = gain i (k + n) u" and gain_0: "gain i 0 u = u"
  by (simp_all add: gain_def)

lemma refund_undoes_lock:
  assumes lock: "lock r = Some (i, n)" and side: "buyOrSell r \<in> {BUY, SELL}"
    and whole: "buyOrSell r = BUY \<Longrightarrow> whole_price r p" and ref: "refunded r (gain i (- n) u) = Some u'"
  shows "u' = u"
proof (cases "buyOrSell r = BUY")
  case True
  then have i: "i = 0" "order_cost r = Some n" using lock by (auto simp: lock_def)
  then have n: "n = quantity r * p" using order_cost_whole whole[OF True] by blast
  then have "\<bar>quantity r * p\<bar> < 2 ^ 53" using order_cost_int32[OF i(2)] by (auto simp: in_int32_def)
  then have "earned (Fin (of_int n)) (gain i (- n) u) = Some u'"
    using ref True whole[OF True] n by (simp add: refunded_def whole_cost del: of_int_mult)
  from earned_whole[OF this] show ?thesis using i(1) by (simp add: gain_def)
next
  case False
  with lock have "i = item r" "n = quantity r" by (auto simp: lock_def split: if_split_asm)
  with ref False show ?thesis by (simp add: refunded_def gain_gain gain_0)
qed

lemma refund_after_lock:
  assumes lock: "lock r = Some (i, n)" and side: "buyOrSell r \<in> {BUY, SELL}" and int: "in_int32 (OMG u)"
    and ref: "refunded r (gain i (- n) u) = Some u'"
  obtains d where "u' = u\<lparr>OMG := OMG u + d\<rparr>" and "d \<in> (if buyOrSell r = SELL then {0} else slips r)"
proof (cases "buyOrSell r = BUY")
  case True
  then have i: "i = 0" "order_cost r = Some n" using lock by (auto simp: lock_def)
  let ?w = "u\<lparr>OMG := OMG u - n\<rparr>"
  have "earned (dmul (of_cint (quantity r)) (unitPrice r)) ?w = Some u'"
    using ref True i(1) by (simp add: refunded_def gain_def)
  moreover have "\<bar>OMG ?w\<bar> < 2 ^ 52" using int order_cost_int32[OF i(2)] by (auto simp: in_int32_def)
  ultimately obtain d where "u' = ?w\<lparr>OMG := OMG ?w + n + d\<rparr>" "d \<in> slips r" using refund_slips[OF i(2)] by blast
  with True that show thesis by simp
next
  case False
  then have "u' = u" using refund_undoes_lock[OF lock side _ ref] by blast
  with False side that[of 0] show thesis by simp
qed

lemma refunded_numbered [simp]: "refunded (r\<lparr>orderID := k, created_at := ts\<rparr>) = refunded r"
  by (simp add: fun_eq_iff refunded_def cong: if_cong)

lemma place_cancel:
  assumes place: "place ord k ts M = Some M1" and side: "buyOrSell ord \<in> {BUY, SELL}"
    and cancel: "market_step (Cancel uid k) M1 M2"
  obtains u u' i n where "acct M uid = Some u" and "uid = ord_userID ord" and "lock ord = Some (i, n)"
    and "refunded ord (gain i (- n) u) = Some u'" and "M2 = M\<lparr>acct := (acct M)(uid \<mapsto> u')\<rparr>"
proof -
  obtain u i n where u: "acct M (ord_userID ord) = Some u" "lock ord = Some (i, n)" "k \<notin> dom (book M)"
    and M1: "M1 = M\<lparr>acct := (acct M)(ord_userID ord \<mapsto> gain i (- n) u),
       book := (book M)(k \<mapsto> ord\<lparr>orderID := k, created_at := Some ts\<rparr>)\<rparr>"
    using place by (auto simp: place_def split: Option.bind_split_asm if_split_asm)
  from cancel show thesis
  proof cases
    case (Cancels r w w')
    then have r: "r = ord\<lparr>orderID := k, created_at := Some ts\<rparr>" "uid = ord_userID ord" "w = gain i (- n) u"
      by (auto simp: M1)
    have "(book M)(k := None) = book M" using u(3) by (auto simp: fun_eq_iff)
    then have "M2 = M\<lparr>acct := (acct M)(uid \<mapsto> w')\<rparr>" using Cancels(5) r(2) by (simp add: M1)
    moreover have "refunded ord (gain i (- n) u) = Some w'" using Cancels(4) by (simp add: r)
    ultimately show thesis using that u r(2) by simp
  qed
qed

text \<open>Placing and cancelling: nothing but the rounding of the refund is left.\<close>

lemma place_cancel_slips:
  assumes "place ord k ts M = Some M1" and side: "buyOrSell ord \<in> {BUY, SELL}"
    and "market_step (Cancel uid k) M1 M2" and ints: "\<And>u. acct M uid = Some u \<Longrightarrow> in_int32 (OMG u)"
  shows "\<exists>u d. acct M uid = Some u \<and> M2 = M\<lparr>acct := (acct M)(uid \<mapsto> u\<lparr>OMG := OMG u + d\<rparr>)\<rparr> \<and>
    d \<in> (if buyOrSell ord = SELL then {0} else slips ord)"
proof -
  obtain u u' i n where u: "acct M uid = Some u" "lock ord = Some (i, n)" "refunded ord (gain i (- n) u) = Some u'"
    and M2: "M2 = M\<lparr>acct := (acct M)(uid \<mapsto> u')\<rparr>"
    by (rule place_cancel[OF assms(1-3)])
  from refund_after_lock[OF u(2) side ints[OF u(1)] u(3)] u(1) M2 show ?thesis by metis
qed

lemma place_cancel_same:
  assumes "place ord k ts M = Some M1" and side: "buyOrSell ord \<in> {BUY, SELL}"
    and "market_step (Cancel uid k) M1 M2" and whole: "buyOrSell ord = BUY \<Longrightarrow> whole_price ord p"
  shows "M2 = M"
proof -
  obtain u u' i n where u: "acct M uid = Some u" "lock ord = Some (i, n)" "refunded ord (gain i (- n) u) = Some u'"
    and M2: "M2 = M\<lparr>acct := (acct M)(uid \<mapsto> u')\<rparr>"
    by (rule place_cancel[OF assms(1-3)])
  have "u' = u" by (rule refund_undoes_lock[OF u(2) side whole u(3)])
  moreover have "(acct M)(uid \<mapsto> u) = acct M" using u(1) by (auto simp: fun_eq_iff)
  ultimately show ?thesis using M2 by simp
qed

end
