(* ===== verification/Bystanders.thy ===== *)
theory Bystanders
  imports Departures Safety
begin

text \<open>
  What the session of one user does to the account of another: nothing, until an order of the other one
  is traded, and then that order is in the archive. The accounts are those of the market, since the
  step that pays the owner of a matched order comes after the step that archives the order.
\<close>

section \<open>What is kept\<close>

text \<open>An order of \<open>t\<close>, up to its quantity.\<close>

definition part_of :: "tables \<Rightarrow> order_t \<Rightarrow> bool" where
  "part_of t r \<longleftrightarrow> (\<exists>ord \<in> set (orders t). \<exists>q. r = ord\<lparr>quantity := q\<rparr>)"

lemma part_of_whole: "r \<in> set (orders t) \<Longrightarrow> part_of t r"
  unfolding part_of_def by (rule bexI[of _ r]) (rule exI[of _ "quantity r"], simp)

lemma part_of_less: "r \<in> set (orders t) \<Longrightarrow> part_of t (r\<lparr>quantity := q\<rparr>)"
  unfolding part_of_def by blast

lemma part_of_trans:
  assumes "part_of x r" and "\<And>m. m \<in> set (orders x) \<Longrightarrow> ord_userID m = ord_userID r \<Longrightarrow> part_of t m"
  shows "part_of t r"
  using assms unfolding part_of_def by fastforce

text \<open>
  From \<open>t\<close> to \<open>t'\<close>, no order of \<open>k\<close> has come into the book, and the account of \<open>k\<close> is as it was unless
  an order of \<open>k\<close> that was open at \<open>t\<close> has been archived since.
\<close>

definition sold :: "int \<Rightarrow> tables \<Rightarrow> order_t list \<Rightarrow> bool" where
  "sold k t zs \<longleftrightarrow> (\<exists>r j. part_of t r \<and> ord_userID r = k \<and> r\<lparr>orderID := j\<rparr> \<in> set zs)"

lemma sold_order:
  assumes "sold k t zs"
  shows "\<exists>ord \<in> set (orders t). ord_userID ord = k \<and> (\<exists>j q. ord\<lparr>orderID := j, quantity := q\<rparr> \<in> set zs)"
proof -
  obtain ord q j where ord: "ord \<in> set (orders t)" "ord_userID ord = k" "ord\<lparr>quantity := q, orderID := j\<rparr> \<in> set zs"
    using assms by (auto simp: sold_def part_of_def)
  have "ord\<lparr>quantity := q, orderID := j\<rparr> = ord\<lparr>orderID := j, quantity := q\<rparr>" by simp
  with ord show ?thesis by metis
qed

definition accounted :: "int \<Rightarrow> tables \<Rightarrow> tables \<Rightarrow> bool" where
  "accounted k t t' \<longleftrightarrow> length (archives t) \<le> length (archives t') \<and>
     (\<forall>r \<in> set (orders t'). ord_userID r = k \<longrightarrow> part_of t r) \<and>
     (acct (market_of t') k = acct (market_of t) k \<or> sold k t (drop (length (archives t)) (archives t')))"

lemma accounted_start: "orders t' = orders t \<Longrightarrow> archives t' = archives t \<Longrightarrow>
    acct (market_of t') k = acct (market_of t) k \<Longrightarrow> accounted k t t'"
  by (simp add: accounted_def part_of_whole)

lemma accounted_more:
  assumes "accounted k t x" and "archives y = archives x @ zs"
    and own: "\<And>r. r \<in> set (orders y) \<Longrightarrow> ord_userID r = k \<Longrightarrow> part_of x r"
    and acct: "acct (market_of y) k = acct (market_of x) k \<or> sold k x zs"
  shows "accounted k t y"
proof -
  have from_t: "part_of t r" if "part_of x r" "ord_userID r = k" for r
    by (rule part_of_trans[OF that(1)]) (use assms(1) that(2) in \<open>simp add: accounted_def\<close>)
  then have "sold k x zs \<Longrightarrow> sold k t zs" unfolding sold_def by blast
  moreover have "sold k t zs1 \<or> sold k t zs2 \<Longrightarrow> sold k t (zs1 @ zs2)" for zs1 zs2 by (auto simp: sold_def)
  ultimately show ?thesis using assms(1,2) acct own from_t by (auto simp: accounted_def)
qed

section \<open>The steps of somebody else\<close>

lemma part_of_book_after:
  assumes "keys_ok t" and "m \<in> set (orders t)" and "orders x = orders t" and "r \<in> set (orders (book_after m n x))"
  shows "part_of t r"
proof -
  from assms(3,4) consider (kept) "r \<in> set (orders t)" | (less) r0 where "r0 \<in> set (orders t)" "orderID r0 = orderID m"
      "r = r0\<lparr>item := item m, buyOrSell := buyOrSell m, quantity := quantity m - n,
         ord_userID := ord_userID m, unitPrice := unitPrice m\<rparr>"
    by (auto simp: book_after_def remove_order_def change_order_def split: if_split_asm)
  then show ?thesis
  proof cases
    case kept then show ?thesis by (rule part_of_whole)
  next
    case less
    then have "r0 = m" using assms(1,2) by (auto simp: keys_ok_def keyed_def intro: distinct_key_unique[of orderID])
    with less(3) have "r = m\<lparr>quantity := quantity m - n\<rparr>" by simp
    with assms(2) show ?thesis by (simp add: part_of_less)
  qed
qed

lemma stage_own_orders:
  assumes "trade_stage ord m t n x" and "keys_ok t" and "m \<in> set (orders t)" and "k \<noteq> ord_userID ord"
  shows "r \<in> set (orders x) \<Longrightarrow> ord_userID r = k \<Longrightarrow> part_of t r"
  using assms(1)
proof (induction rule: trade_stage.induct)
  case (Book_updated x)
  have "orders x = orders t" using stage_orders[OF Book_updated.hyps] by simp
  with Book_updated.prems assms(2,3) show ?case by (blast intro: part_of_book_after)
next
  case (Rest_booked x y)
  then show ?case using added_order[OF disjI1[OF Rest_booked.hyps(3)]] assms(4) by simp
next
  case (Rest_placed x y)
  then show ?case using added_order[OF disjI2[OF Rest_placed.hyps(3)]] assms(4) by simp
qed (simp_all add: part_of_whole)

lemma accounted_stage:
  assumes "accounted k t x" and "trade_stage ord m x n y" and "keys_ok x" and "m \<in> set (orders x)" and "k \<noteq> ord_userID ord"
  shows "accounted k t y"
proof -
  obtain zs where zs: "archives y = archives x @ zs" "0 < n \<longrightarrow> (\<exists>j. m\<lparr>orderID := j\<rparr> \<in> set zs)"
    using stage_archives[OF assms(2)] by blast
  show ?thesis
  proof (rule accounted_more[OF assms(1) zs(1)])
    show "acct (market_of y) k = acct (market_of x) k \<or> sold k x zs"
    proof (cases "n < 4 \<or> k \<noteq> ord_userID m")
      case True with stage_acct[OF assms(2,5)] show ?thesis by blast
    next
      case False with zs(2) part_of_whole[OF assms(4)] show ?thesis unfolding sold_def by auto
    qed
  qed (rule stage_own_orders[OF assms(2-5)])
qed

lemma accounted_step:
  assumes "accounted k t x" and "command_step uid x y" and "keys_ok x" and "k \<noteq> uid"
  shows "accounted k t y"
  using assms(2)
proof (cases rule: command_step_cases)
  case Same with assms(1) show ?thesis by simp
next
  case (Added ord)
  then have "acct (market_of y) k = acct (market_of x) k" using assms(4) booked_acct placed_acct by auto
  with Added assms(4) show ?thesis
    by (intro accounted_more[OF assms(1), where zs = "[]"]) (auto simp: added_archives intro: part_of_whole added_order)
next
  case (Traded ord m n) with assms(1,3,4) show ?thesis by (blast intro: accounted_stage)
next
  case (Refunded u) with assms(4) show ?thesis
    by (intro accounted_more[OF assms(1), where zs = "[]"]) (auto intro: part_of_whole)
next
  case (Removed r u)
  have "r' \<in> set (orders x)" if "r' \<in> set (orders y)" for r' using removed_order that Removed(4) by fastforce
  with Removed(3,4) assms(4) show ?thesis
    by (intro accounted_more[OF assms(1), where zs = "[]"]) (auto intro: part_of_whole)
qed

lemma accounted_steps:
  assumes "(command_step uid)\<^sup>*\<^sup>* x y" and "accounted k t x" and "keys_ok x" and "k \<noteq> uid"
  shows "accounted k t y \<and> keys_ok y"
  using assms(1) by induction (use assms(2-4) in \<open>auto intro: accounted_step keys_ok_step\<close>)

section \<open>A whole session\<close>

lemma arrivals_book: "arrival\<^sup>*\<^sup>* t t' \<Longrightarrow> orders t' = orders t \<and> archives t' = archives t"
  by (induction rule: rtranclp_induct) (auto simp: arrival_def add_user_def)

context sqlite_engine
begin

lemma session_accounted:
  assumes wf: "wf_db (db (conn s))" and "ids_small (db (conn s'))" and "accept_client E s = (r, s')"
    and u: "u \<in> set (users (db (conn s)))" "\<not> typed_login u (inp (comm s))"
  shows "accounted (userID u) (db (conn s)) (db (conn s')) \<and> keys_ok (db (conn s'))"
proof -
  have start: "accounted (userID u) (db (conn s)) t1"
    if "arrival\<^sup>*\<^sup>* (db (conn s)) t1" "u \<in> set (users t1)" "keys_ok t1" for t1
  proof -
    have "acct (market_of t1) (userID u) = Some u" "acct (market_of (db (conn s))) (userID u) = Some u"
      using that(2,3) u(1) wf by (simp_all add: acct_iff)
    with arrivals_book[OF that(1)] show ?thesis by (simp add: accounted_start)
  qed
  from assms show ?thesis
  proof (cases rule: others_session)
    case (1 t1) with start show ?thesis by simp
  next
    case (2 t1 uid) then show ?thesis using accounted_steps[OF _ start] by blast
  qed
qed

lemma account_kept:
  assumes "wf_db (db (conn s))" and "ids_small (db (conn s'))" and "accept_client E s = (r, s')"
    and "u \<in> set (users (db (conn s)))" and "\<not> typed_login u (inp (comm s))"
  shows "u \<in> set (users (db (conn s'))) \<or> (\<exists>ord \<in> set (orders (db (conn s))). ord_userID ord = userID u \<and>
    (\<exists>k q. ord\<lparr>orderID := k, quantity := q\<rparr> \<in> set (drop (length (archives (db (conn s)))) (archives (db (conn s'))))))"
proof -
  have "acct (market_of (db (conn s))) (userID u) = Some u" using assms(1,4) by (simp add: acct_iff)
  with session_accounted[OF assms] show ?thesis
    by (auto simp: accounted_def acct_iff simp del: wf_keys dest: sold_order)
qed

end

end
