(* ===== verification/Trading.thy ===== *)
theory Trading
  imports Safety
begin

text \<open>
  Orders that are accepted: on an engine that works, an order that its owner can afford rests, is
  filled or is filled in part with its rest in the book, provided the balances that result are \<open>int\<close>s.
\<close>

section \<open>The settlement of one party\<close>

lemma credit_coin_ok_run: "user_ok (gain i n w) \<Longrightarrow> credit_coin i n w = ret (gain i n w)"
  by (auto simp: credit_coin_def gain_def user_ok_def cadd_ok split: if_split_asm)

lemma debit_coin_ok_run: "user_ok (gain i (- n) w) \<Longrightarrow> debit_coin i n w = ret (gain i (- n) w)"
  by (auto simp: debit_coin_def gain_def user_ok_def csub_ok split: if_split_asm)

lemma pay_ok_run: "paid cost u = Some w \<Longrightarrow> pay cost u = ret w"
  and earn_ok_run: "earned cost u = Some w \<Longrightarrow> earn cost u = ret w"
  by (auto simp: fun_eq_iff pay_def earn_def paid_def earned_def)

lemma buyer_settles:
  assumes "buyer_after cost i n u = Some u'" and "user_ok u'"
  shows "cbind (pay cost u) (credit_coin i n) = ret u'"
  using assms by (auto simp: buyer_after_def pay_ok_run credit_coin_ok_run)

lemma rested_seller_settles:
  assumes "seller_after True cost i n u = Some u'" and "user_ok u'"
  shows "cbind (earn cost u) (debit_coin i n) = ret u'"
  using assms by (auto simp: seller_after_def earn_ok_run debit_coin_ok_run)

lemma new_seller_settles:
  assumes "seller_after False cost i n u = Some u'" and "user_ok u'" and "user_ok u" and "i \<noteq> COIN_OMG"
  shows "cbind (debit_coin i n u) (earn cost) = ret u'"
proof -
  have e: "earned cost (gain i (- n) u) = Some u'" using assms(1) by (simp add: seller_after_def)
  then have "user_ok (gain i (- n) u)"
    using assms(2-4) by (auto simp: earned_def user_ok_def gain_def split: if_split_asm)
  with e show ?thesis by (simp add: debit_coin_ok_run earn_ok_run)
qed

lemma set_user_other: "v \<in> set (users t) \<Longrightarrow> userID v \<noteq> userID u \<Longrightarrow> v \<in> set (users (set_user u t))"
  by (force simp: set_user_def users_change_balance)

lemma set_user_in: "v \<in> set (users t) \<Longrightarrow> userID u = userID v \<Longrightarrow> credentials u = credentials v \<Longrightarrow> u \<in> set (users (set_user u t))"
  by (force simp: set_user_def users_change_balance credentials_def)

lemma fk_ok_set_user [simp]: "fk_ok (set_user u t) k = fk_ok t k"
proof -
  have "map userID (users (set_user u t)) = map userID (users t)"
    by (simp add: set_user_def users_change_balance)
  then show ?thesis by (metis fk_ok_def user_ids_def set_map set_user_frame(4))
qed

lemma fk_ok_archived_row [simp]: "fk_ok (archived_row r t) k = fk_ok t k"
  by (simp add: fk_ok_def user_ids_def)

section \<open>Locking the coins of an order\<close>

text \<open>The owner's balance covers what the order locks, and what is left of it is an \<open>int\<close>.\<close>

definition lockable :: "order_t \<Rightarrow> user_t \<Rightarrow> bool" where
  "lockable ord u \<longleftrightarrow> (\<exists>i n. lock ord = Some (i, n) \<and> n \<le> coins i u \<and> in_int32 (coins i u - n))"

lemma lockable_created_at [simp]: "lockable (ord\<lparr>created_at := ts\<rparr>) = lockable ord"
  by (simp add: fun_eq_iff lockable_def lock_def order_cost_def)

lemma get_user_fk: "wf_db t \<Longrightarrow> u \<in> set (users t) \<Longrightarrow> fk_ok t (userID u)"
  by (simp add: fk_ok_def user_ids_def)

lemma insert_check_ok:
  assumes "lock ord = Some (i, n)" and "n \<le> coins i u" and "buyOrSell ord \<in> {BUY, SELL}"
  shows "insert_check u ord = ret SQLITE_OK"
proof (cases "buyOrSell ord = BUY")
  case True
  with assms have "order_cost ord = Some n" "n \<le> OMG u" by (auto simp: lock_def coins_def)
  with True show ?thesis by (simp add: insert_check_def int_cost_order_cost)
next
  case False
  with assms show ?thesis by (auto simp: insert_check_def lock_def coins_def split: if_split_asm)
qed

lemma insert_deduct_ok_run:
  assumes "lock ord = Some (i, n)" and "in_int32 (coins i u - n)" and "buyOrSell ord \<in> {BUY, SELL}"
  shows "insert_deduct u ord = ret (gain i (- n) u)"
proof (cases "buyOrSell ord = BUY")
  case True
  with assms have "order_cost ord = Some n" "i = 0" by (auto simp: lock_def)
  with True assms(2) show ?thesis
    by (simp add: insert_deduct_def int_cost_order_cost gain_def csub_def coins_def)
next
  case False
  with assms have "item ord \<in> {1, 2, 3}" "i = item ord" "n = quantity ord" by (auto simp: lock_def split: if_split_asm)
  with False assms(2,3) show ?thesis by (auto simp: insert_deduct_def gain_def csub_def coins_def)
qed

lemma small_room: "ids_small t \<Longrightarrow> order_seq t < max_rowid \<and> archive_seq t + 1 < max_rowid"
  by (simp add: ids_small_def max_rowid_def)

context sqlite_healthy
begin

lemma insert_order_healthy:
  assumes wf: "wf_conn c" and made: "created (db c)" and u: "u \<in> set (users (db c))" "userID u = ord_userID ord"
    and uid: "in_int32 (ord_userID ord)" and side: "buyOrSell ord \<in> {BUY, SELL}"
    and lock: "lock ord = Some (i, n)" "n \<le> coins i u" "in_int32 (coins i u - n)"
    and price: "unitPrice ord \<noteq> NaN" and room: "order_seq (db c) < max_rowid"
  obtains c' where "insert_order E ord c = (Inr 0, c')"
proof -
  define q where "q = Insert_Order (item ord) (buyOrSell ord) (quantity ord) (unitPrice ord) (ord_userID ord)"
  obtain c1 where c1: "get_user E (ord_userID ord) c = (Inr (Inr u), c1)" "db c1 = db c"
    using get_user_healthy[OF wf made u uid] .
  obtain c2 where c2: "sql_prepare E q c1 = (Inr SQLITE_OK, c2)" "db c2 = db c"
    using prepare_healthy[of c1 q] made c1(2) by auto
  have "fk_ok (db c) (ord_userID ord)" using get_user_fk[OF wf u(1)] u(2) by simp
  then have "\<exists>all t'. sql_meaning (db c2) q all t'"
    using made price room by (auto simp: q_def c2(2))
  then obtain rows c3 where c3: "sql_run E q c2 = (Inr (rows, SQLITE_DONE), c3)" "sql_meaning (db c2) q rows (db c3)"
    by (rule run_healthy)
  then have "created (db c3)" using made by (auto simp: q_def c2(2) add_order_def)
  then obtain c4 where c4: "update_user_balance E (gain i (- n) u) c3 = (Inr 0, c4)"
    by (rule update_user_balance_healthy)
  have "insert_order E ord c = (Inr 0, c4)"
    unfolding insert_order_def Let_def q_def[symmetric]
    using c1 c2 c3 c4
    by (simp add: cbind_done insert_check_ok[OF lock(1,2) side] insert_deduct_ok_run[OF lock(1,3) side])
  with that show thesis .
qed

end

section \<open>Programs that come to their end\<close>

text \<open>\<open>completes B m C\<close>: from tables with \<open>B\<close>, the program \<open>m\<close> is not interrupted and ends with \<open>C\<close>.\<close>

abbreviation completes :: "(tables \<Rightarrow> bool) \<Rightarrow> ('w, 'a) dbprog \<Rightarrow> ('a \<Rightarrow> tables \<Rightarrow> bool) \<Rightarrow> bool" where
  "completes \<equiv> outcome (\<lambda>_. False)"

lemma completes_runs: "completes B m (\<lambda>res _. res = 0) \<Longrightarrow> B (db c) \<Longrightarrow> \<exists>c'. m c = (Inr 0, c')"
  by (cases "m c") (auto dest!: outcomeD split: sum.splits)

text \<open>A statement with its one effect, on well-formed tables.\<close>

lemma completes_write:
  fixes m :: "('w, int) dbprog"
  assumes "keeps (\<lambda>c. wf_db (db c)) m" and "\<And>c. db c = X \<Longrightarrow> wf_db X \<Longrightarrow> \<exists>c'. m c = (Inr 0, c') \<and> db c' = X'"
  shows "completes (\<lambda>x. x = X \<and> wf_db x) m (\<lambda>res. if res = (0 :: int) then \<lambda>x. x = X' \<and> wf_db x else (\<lambda>_. False))"
proof (rule outcome_runs)
  fix c :: "'w sqlite3" assume c: "db c = X \<and> wf_db (db c)"
  then obtain c' where m: "m c = (Inr 0, c')" "db c' = X'" using assms(2) by blast
  have "wf_db (db c')" by (rule keepsD[OF assms(1) m(1)]) (use c in auto)
  with m show "\<exists>a c'. m c = (Inr a, c') \<and> (if a = 0 then \<lambda>x. x = X' \<and> wf_db x else (\<lambda>_. False)) (db c')" by auto
qed

lemma outcome_at: "(wf_db X \<Longrightarrow> outcome Y (\<lambda>x. x = X \<and> wf_db x) m C) \<Longrightarrow> outcome Y (\<lambda>x. x = X \<and> wf_db x) m C"
  by (auto simp: outcome_def)

section \<open>The trade\<close>

text \<open>
  The order \<open>m\<close> of \<open>v\<close> can settle with the order \<open>ord\<close> of \<open>u\<close>: the balances and quantities that result
  are \<open>int\<close>s, and the new owner can lock the coins of what is left of the new order.
\<close>

definition settling :: "order_t \<Rightarrow> user_t \<Rightarrow> order_t \<Rightarrow> user_t \<Rightarrow> user_t \<Rightarrow> user_t \<Rightarrow> bool" where
  "settling ord u m v u' v' \<longleftrightarrow> parties ord m u v u' v' \<and> user_ok u' \<and> user_ok v' \<and>
     in_int32 (quantity ord - trade_quantity ord m) \<and> in_int32 (quantity m - trade_quantity ord m) \<and>
     (quantity m < quantity ord \<longrightarrow> lockable (ord\<lparr>quantity := quantity ord - quantity m\<rparr>) u')"

definition settles :: "order_t \<Rightarrow> user_t \<Rightarrow> tables \<Rightarrow> order_t \<Rightarrow> bool" where
  "settles ord u t m \<longleftrightarrow> (\<exists>v u' v'. v \<in> set (users t) \<and> userID v = ord_userID m \<and> settling ord u m v u' v')"

text \<open>What is left of a sell order for OMG cannot be locked, and the sale itself overdraws on the way.\<close>

abbreviation tradable :: "order_t \<Rightarrow> bool" where
  "tradable ord \<equiv> buyOrSell ord = BUY \<or> item ord \<noteq> COIN_OMG"

context sqlite_healthy
begin

lemma completes_timestamp:
  assumes "wf_db t"
  shows "completes (\<lambda>x. x = t) (assign_order_timestamp E ord) (\<lambda>got x. case got of
    Inl _ \<Rightarrow> False | Inr ord1 \<Rightarrow> (\<exists>ts. ord1 = ord\<lparr>created_at := Some ts\<rparr>) \<and> x = t \<and> wf_db x)"
proof (rule outcome_runs)
  fix c :: "'w sqlite3" assume c: "db c = t"
  obtain ts c' where "assign_order_timestamp E ord c = (Inr (Inr (ord\<lparr>created_at := Some ts\<rparr>)), c')" "db c' = db c"
    by (rule assign_order_timestamp_healthy)
  with c assms show "\<exists>a c'. assign_order_timestamp E ord c = (Inr a, c') \<and> (case a of Inl _ \<Rightarrow> False
      | Inr ord1 \<Rightarrow> (\<exists>ts. ord1 = ord\<lparr>created_at := Some ts\<rparr>) \<and> db c' = t \<and> wf_db (db c'))"
    by auto
qed

lemma completes_archive:
  assumes "created X" and r: "order_ints r" "created_at r \<noteq> None" "unitPrice r \<noteq> NaN"
    and "fk_ok X (ord_userID r)" and "archive_seq X < max_rowid"
  shows "completes (\<lambda>x. x = X \<and> wf_db x) (archive_order E r)
    (\<lambda>res. if res = 0 then \<lambda>x. x = archived_row r X \<and> wf_db x else (\<lambda>_. False))"
proof (rule completes_write[OF wf.keeps_archive_order[OF shared r(1,2)]])
  show "\<exists>c'. archive_order E r c = (Inr 0, c') \<and> db c' = archived_row r X" if "db c = X" for c :: "'w sqlite3"
    using insert_archive_healthy[of c r] that assms by (auto simp: archive_order_def archived_row_def)
qed

lemma completes_rest:
  assumes made: "created X" and u: "u \<in> set (users X)" "userID u = ord_userID ord" and uid: "in_int32 (ord_userID ord)"
    and side: "buyOrSell ord \<in> {BUY, SELL}" and price: "unitPrice ord \<noteq> NaN" and room: "order_seq X < max_rowid"
    and rest: "0 < oq \<longrightarrow> lockable (ord\<lparr>quantity := oq\<rparr>) u"
  shows "completes (\<lambda>x. x = X \<and> wf_db x) (cbind (if 0 < oq then insert_order E (ord\<lparr>created_at := Some ts, quantity := oq\<rparr>) else ret 0)
    (\<lambda>res. if res \<noteq> 0 then ret (- 1) else ret 0)) (\<lambda>res _. res = 0)"
proof (rule outcome_runs)
  fix c :: "'w sqlite3" assume c: "db c = X \<and> wf_db (db c)"
  let ?ord = "ord\<lparr>created_at := Some ts, quantity := oq\<rparr>"
  have "\<exists>c'. (if 0 < oq then insert_order E ?ord else ret 0) c = (Inr 0, c')"
  proof (cases "0 < oq")
    case True
    have "?ord = ord\<lparr>quantity := oq, created_at := Some ts\<rparr>" by simp
    then have "lockable ?ord u" using rest True by (simp only: lockable_created_at simp_thms)
    then obtain i n where "lock ?ord = Some (i, n)" "n \<le> coins i u" "in_int32 (coins i u - n)"
      by (auto simp: lockable_def)
    with True show ?thesis
      using insert_order_healthy[of c u ?ord i n] c made u uid side price room by auto
  qed (simp add: ret_def)
  then show "\<exists>a c'. cbind (if 0 < oq then insert_order E ?ord else ret 0)
      (\<lambda>res. if res \<noteq> 0 then ret (- 1) else ret 0) c = (Inr a, c') \<and> a = 0"
    by (auto simp: cbind_done)
qed

lemma completes_finish:
  assumes made: "created X" and u: "u \<in> set (users X)" "userID u = ord_userID ord" and uid: "in_int32 (ord_userID ord)"
    and side: "buyOrSell ord \<in> {BUY, SELL}" and price: "unitPrice ord \<noteq> NaN" and room: "order_seq X < max_rowid"
    and m: "order_ints m" "unitPrice m \<noteq> NaN" "fk_ok X (ord_userID m)"
    and mq: "mq = quantity m - n" "in_int32 mq" and rest: "0 < oq \<longrightarrow> lockable (ord\<lparr>quantity := oq\<rparr>) u"
  shows "completes (\<lambda>x. x = X \<and> wf_db x) (finish_trade E (ord\<lparr>created_at := Some ts, quantity := oq\<rparr>) (m\<lparr>quantity := mq\<rparr>))
    (\<lambda>res _. res = 0)"
  unfolding finish_trade_def
proof (rule outcome_checked)
  note E = shared
  let ?m = "m\<lparr>quantity := mq\<rparr>" and ?X = "book_after m n X"
  have mi: "order_ints ?m" using m(1) mq(2) by (simp add: order_ints_def)
  have del: "completes (\<lambda>x. x = X \<and> wf_db x) (delete_order E (orderID m))
      (\<lambda>res. if res = 0 then \<lambda>x. x = ?X \<and> wf_db x else (\<lambda>_. False))" if "mq = 0"
    by (rule completes_write[OF wf.keeps_delete_order[OF E]])
      (use that made mq(1) delete_order_healthy in \<open>metis book_after_def eq_iff_diff_eq_0\<close>)
  have upd: "completes (\<lambda>x. x = X \<and> wf_db x) (update_order E ?m)
      (\<lambda>res. if res = 0 then \<lambda>x. x = ?X \<and> wf_db x else (\<lambda>_. False))" if "mq \<noteq> 0"
  proof (rule completes_write[OF wf.keeps_update_order[OF E mi]])
    fix c :: "'w sqlite3" assume "db c = X"
    with made m(2,3) obtain c' where "update_order E ?m c = (Inr 0, c')"
      "db c' = change_order (item m) (buyOrSell m) mq (unitPrice m) (ord_userID m) (orderID m) X"
      using update_order_healthy[of c ?m] by auto
    with that mq(1) show "\<exists>c'. update_order E ?m c = (Inr 0, c') \<and> db c' = ?X" by (auto simp: book_after_def)
  qed
  show "completes (\<lambda>x. x = X \<and> wf_db x) (if quantity ?m = 0 then delete_order E (orderID ?m) else update_order E ?m)
      (\<lambda>res. if res = 0 then \<lambda>x. x = ?X \<and> wf_db x else (\<lambda>_. False))"
    using del upd by simp
  have frame: "users ?X = users X" "created ?X = created X" "order_seq ?X = order_seq X" by (simp_all add: book_after_def remove_order_def change_order_def)
  show "completes (\<lambda>x. x = ?X \<and> wf_db x) (cbind (if 0 < quantity (ord\<lparr>created_at := Some ts, quantity := oq\<rparr>)
      then insert_order E (ord\<lparr>created_at := Some ts, quantity := oq\<rparr>) else ret 0)
      (\<lambda>res. if res \<noteq> 0 then ret (- 1) else ret 0)) (\<lambda>res _. res = 0)"
    using completes_rest[of ?X u ord oq ts] made u uid side price room rest frame by simp
qed simp

end

text \<open>On an engine that works, the handlers compute the balances of the market whenever they are \<open>int\<close>s.\<close>

locale trade_settles = trade_parties E trade_side new_pays old_pays + sqlite_healthy E
  for E :: "'w platform" and trade_side new_pays old_pays +
  assumes new_settles: "new_party ord m u = Some u' \<Longrightarrow> buyOrSell ord = trade_side \<Longrightarrow> user_ok u \<Longrightarrow> user_ok u' \<Longrightarrow>
      tradable ord \<Longrightarrow> new_pays ord m u = ret u'"
    and old_settles: "old_party ord m v = Some v' \<Longrightarrow> buyOrSell ord = trade_side \<Longrightarrow> user_ok v \<Longrightarrow> user_ok v' \<Longrightarrow>
      old_pays ord m v = ret v'"
begin

text \<open>From the settled account of the new owner to the end.\<close>

lemma completes_match_old:
  assumes wf: "wf_db X" and made: "created X" and ints: "in_int32 (ord_userID ord)" "order_ints m" "in_int32 (ord_userID m)"
    and prices: "unitPrice ord \<noteq> NaN" "unitPrice m \<noteq> NaN" and side: "buyOrSell ord = trade_side"
    and u: "u' \<in> set (users X)" "userID u' = ord_userID ord" and v: "v \<in> set (users X)" "userID v = ord_userID m"
    and other: "ord_userID m \<noteq> ord_userID ord" and room: "order_seq X < max_rowid" and st: "settling ord u m v u' v'"
    and q: "oq = quantity ord - trade_quantity ord m" "mq = quantity m - trade_quantity ord m"
  shows "completes (\<lambda>x. x = X \<and> wf_db x) (match_old E (\<lambda>ord. old_pays ord m) (ord\<lparr>created_at := Some ts\<rparr>) m oq mq)
    (\<lambda>res _. res = 0)"
  unfolding match_old_def
proof (rule outcome_got)
  note E = shared
  let ?ord = "ord\<lparr>created_at := Some ts\<rparr>"
  have st': "old_party ord m v = Some v'" "user_ok v'" "in_int32 mq"
    "0 < oq \<longrightarrow> lockable (ord\<lparr>quantity := oq\<rparr>) u'" "userID v' = userID v"
    using st q parties_keep[of ord m u v u' v'] by (auto simp: settling_def parties_split trade_quantity_def)
  show "completes (\<lambda>x. x = X \<and> wf_db x) (get_user E (ord_userID m))
      (\<lambda>got x. case got of Inl _ \<Rightarrow> False | Inr w \<Rightarrow> w = v \<and> x = X \<and> wf_db x)"
  proof (rule outcome_runs)
    fix c :: "'w sqlite3" assume c: "db c = X \<and> wf_db (db c)"
    obtain c' where "get_user E (ord_userID m) c = (Inr (Inr v), c')" "db c' = db c"
      by (rule get_user_healthy[of c v]) (use c made v ints(3) in auto)
    with c show "\<exists>a c'. get_user E (ord_userID m) c = (Inr a, c') \<and>
        (case a of Inl _ \<Rightarrow> False | Inr w \<Rightarrow> w = v \<and> db c' = X \<and> wf_db (db c'))" by auto
  qed
  have pays: "old_pays ?ord m v = ret v'" by (rule old_settles) (use st' side wf_user_rowD[OF wf v(1)] in auto)
  have pay: "completes (\<lambda>x. x = X \<and> wf_db x) (update_user_balance E v')
      (\<lambda>res. if res = 0 then \<lambda>x. x = set_user v' X \<and> wf_db x else (\<lambda>_. False))"
    by (rule completes_write[OF wf.keeps_update_user_balance[OF E st'(2)]])
      (use made update_user_balance_healthy in \<open>metis set_user_def\<close>)
  have fin: "completes (\<lambda>x. x = set_user v' X \<and> wf_db x)
      (finish_trade E (ord\<lparr>created_at := Some ts, quantity := oq\<rparr>) (m\<lparr>quantity := mq\<rparr>)) (\<lambda>res _. res = 0)"
    by (rule completes_finish[where u = u' and n = "trade_quantity ord m"])
      (use get_user_fk[OF wf v(1)] made u st' v other ints prices side trade_side room q in \<open>auto intro!: set_user_other\<close>)
  show "completes (\<lambda>x. w = v \<and> x = X \<and> wf_db x) (cbind (old_pays ?ord m w) (\<lambda>v. cbind (update_user_balance E v) (\<lambda>res.
      if res \<noteq> 0 then ret (- 1) else finish_trade E (?ord\<lparr>quantity := oq\<rparr>) (m\<lparr>quantity := mq\<rparr>)))) (\<lambda>res _. res = 0)" for w
    by (rule outcome_fact) (simp add: pays outcome_checked[OF pay fin])
qed simp_all

text \<open>From the archived orders to the end.\<close>

lemma completes_match_parties:
  assumes wf: "wf_db X" and made: "created X" and ints: "in_int32 (ord_userID ord)" "order_ints m" "in_int32 (ord_userID m)"
    and prices: "unitPrice ord \<noteq> NaN" "unitPrice m \<noteq> NaN" and side: "buyOrSell ord = trade_side" "tradable ord"
    and u: "u \<in> set (users X)" "userID u = ord_userID ord" and v: "v \<in> set (users X)" "userID v = ord_userID m"
    and other: "ord_userID m \<noteq> ord_userID ord" and room: "order_seq X < max_rowid" and st: "settling ord u m v u' v'"
  shows "completes (\<lambda>x. x = X \<and> wf_db x)
    (match_parties E (\<lambda>ord. new_pays ord m u) (\<lambda>ord. old_pays ord m) (ord\<lparr>created_at := Some ts\<rparr>) m) (\<lambda>res _. res = 0)"
proof -
  note E = shared
  let ?ord = "ord\<lparr>created_at := Some ts\<rparr>" and ?oq = "quantity ord - trade_quantity ord m"
    and ?mq = "quantity m - trade_quantity ord m"
  have st': "new_party ord m u = Some u'" "user_ok u'" "userID u' = userID u" "credentials u' = credentials u"
    "csub (quantity ord) (trade_quantity ord m) = ret ?oq" "csub (quantity m) (trade_quantity ord m) = ret ?mq"
    using st parties_keep[of ord m u v u' v'] by (auto simp: settling_def parties_split csub_ok)
  have pays: "new_pays ?ord m u = ret u'" by (rule new_settles) (use st' side wf_user_rowD[OF wf u(1)] in auto)
  have pay: "completes (\<lambda>x. x = X \<and> wf_db x) (update_user_balance E u')
      (\<lambda>res. if res = 0 then \<lambda>x. x = set_user u' X \<and> wf_db x else (\<lambda>_. False))"
    by (rule completes_write[OF wf.keeps_update_user_balance[OF E st'(2)]])
      (use made update_user_balance_healthy in \<open>metis set_user_def\<close>)
  have old: "completes (\<lambda>x. x = set_user u' X \<and> wf_db x) (match_old E (\<lambda>ord. old_pays ord m) ?ord m ?oq ?mq) (\<lambda>res _. res = 0)"
  proof (rule outcome_at)
    assume "wf_db (set_user u' X)"
    then show "completes (\<lambda>x. x = set_user u' X \<and> wf_db x) (match_old E (\<lambda>ord. old_pays ord m) ?ord m ?oq ?mq) (\<lambda>res _. res = 0)"
      by (rule completes_match_old[OF _ _ ints prices side(1) _ _ _ _ other _ st])
        (use made u v st' other room in \<open>auto intro: set_user_in set_user_other\<close>)
  qed
  have same: "trade_quantity ?ord m = trade_quantity ord m" by (simp add: trade_quantity_def)
  show ?thesis unfolding match_parties_def
    by (simp add: same st'(5,6) pays outcome_checked[OF pay old])
qed

lemma completes_match_with:
  assumes wf: "wf_db t" "ids_small t" and made: "created t" and ints: "order_ints ord" "in_int32 (ord_userID ord)"
    and price: "unitPrice ord \<noteq> NaN" and side: "buyOrSell ord = trade_side" "tradable ord"
    and u: "u \<in> set (users t)" "userID u = ord_userID ord" and m: "m \<in> set (orders t)" "ord_userID m \<noteq> ord_userID ord"
    and st: "settles ord u t m"
  shows "completes (\<lambda>t'. t' = t) (match_with E ord m (\<lambda>ord. new_pays ord m u) (\<lambda>ord. old_pays ord m)) (\<lambda>res _. res = 0)"
  unfolding match_with_def
proof (rule outcome_got[OF completes_timestamp[OF wf(1)]])
  have mi: "order_ints m" "created_at m \<noteq> None" "unitPrice m \<noteq> NaN" "in_int32 (ord_userID m)"
    using wf_order_rowD[OF wf(1) m(1)] wf_small_ids(2)[OF wf m(1)] by (auto simp: order_ints_def order_ok_def)
  obtain v u' v' where v: "v \<in> set (users t)" "userID v = ord_userID m" "settling ord u m v u' v'"
    using st by (auto simp: settles_def)
  have fk: "fk_ok t (ord_userID ord)" "fk_ok t (ord_userID m)"
    using get_user_fk[OF wf(1)] u v(1,2) by metis+
  show "completes (\<lambda>x. (\<exists>ts. ord1 = ord\<lparr>created_at := Some ts\<rparr>) \<and> x = t \<and> wf_db x)
    (cbind (archive_order E m) (\<lambda>res. if res \<noteq> 0 then ret (- 1) else
     cbind (archive_order E ord1) (\<lambda>res. if res \<noteq> 0 then ret (- 1) else
     match_parties E (\<lambda>ord. new_pays ord m u) (\<lambda>ord. old_pays ord m) ord1 m))) (\<lambda>res _. res = 0)" for ord1
  proof (rule outcome_fact, elim exE)
    fix ts assume ord1: "ord1 = ord\<lparr>created_at := Some ts\<rparr>"
    have o1: "order_ints ord1" "created_at ord1 \<noteq> None" using ints(1) by (simp_all add: ord1 order_ints_def)
    have room: "archive_seq t + 1 < max_rowid" "order_seq t < max_rowid" using small_room[OF wf(2)] by simp_all
    have a1: "completes (\<lambda>x. x = t \<and> wf_db x) (archive_order E m)
        (\<lambda>res. if res = 0 then \<lambda>x. x = archived_row m t \<and> wf_db x else (\<lambda>_. False))"
      by (rule completes_archive[OF made mi(1-3) fk(2)]) (use room in simp)
    have a2: "completes (\<lambda>x. x = archived_row m t \<and> wf_db x) (archive_order E ord1)
        (\<lambda>res. if res = 0 then \<lambda>x. x = archived_row ord1 (archived_row m t) \<and> wf_db x else (\<lambda>_. False))"
      by (rule completes_archive[OF _ o1]) (use made price fk(1) room in \<open>simp_all add: ord1\<close>)
    have rest: "completes (\<lambda>x. x = archived_row ord1 (archived_row m t) \<and> wf_db x)
        (match_parties E (\<lambda>ord. new_pays ord m u) (\<lambda>ord. old_pays ord m) ord1 m) (\<lambda>res _. res = 0)"
      unfolding ord1
      by (rule outcome_at, rule completes_match_parties[OF _ _ ints(2) mi(1,4) price mi(3) side _ u(2) _ v(2) m(2) _ v(3)])
        (simp_all add: made u(1) v(1) room)
    show "completes (\<lambda>x. x = t \<and> wf_db x)
      (cbind (archive_order E m) (\<lambda>res. if res \<noteq> 0 then ret (- 1) else
       cbind (archive_order E ord1) (\<lambda>res. if res \<noteq> 0 then ret (- 1) else
       match_parties E (\<lambda>ord. new_pays ord m u) (\<lambda>ord. old_pays ord m) ord1 m))) (\<lambda>res _. res = 0)"
      by (intro outcome_checked[OF a1] outcome_checked[OF a2] rest) simp_all
  qed
qed simp_all

end

sublocale sqlite_healthy \<subseteq> buying: trade_settles E BUY
  "\<lambda>ord m u. cbind (pay (trade_cost ord m) u) (credit_coin (item ord) (trade_quantity ord m))"
  "\<lambda>ord m v. cbind (earn (trade_cost ord m) v) (debit_coin (item m) (trade_quantity ord m))"
  by unfold_locales (simp_all add: new_party_eq old_party_eq buyer_settles rested_seller_settles)

sublocale sqlite_healthy \<subseteq> selling: trade_settles E SELL
  "\<lambda>ord m u. cbind (debit_coin (item ord) (trade_quantity ord m) u) (earn (trade_cost ord m))"
  "\<lambda>ord m v. cbind (pay (trade_cost ord m) v) (credit_coin (item m) (trade_quantity ord m))"
  by unfold_locales (simp_all add: new_party_eq old_party_eq buyer_settles new_seller_settles)

section \<open>Orders that are accepted\<close>

text \<open>Whatever the book has for the order: if nothing fills it, its coins can be locked, and what fills it settles.\<close>

definition acceptable :: "order_t \<Rightarrow> user_t \<Rightarrow> tables \<Rightarrow> bool" where
  "acceptable ord u t \<longleftrightarrow> affordable ord u \<and> unitPrice ord \<noteq> NaN \<and>
     ((\<forall>m \<in> set (orders t). \<not> fills m ord) \<longrightarrow> lockable ord u) \<and>
     (\<forall>m \<in> set (orders t). fills m ord \<longrightarrow> tradable ord \<and> settles ord u t m)"

context sqlite_healthy
begin

text \<open>Both handlers from the search on, when the search finds the oldest of the orders that fill the new one.\<close>

lemma completes_search:
  assumes wf: "wf_db t" "ids_small t" and made: "created t" and uid: "in_int32 (ord_userID ord)"
    and side: "buyOrSell ord \<in> {BUY, SELL}" and u: "u \<in> set (users t)" "userID u = ord_userID ord"
    and ok: "acceptable ord u t" and find: "completes (\<lambda>t'. t' = t) search (\<lambda>k t'. oldest_of ms k \<and> t' = t)"
    and ms: "set ms = {m \<in> set (orders t). fills m ord}"
    and trade: "\<And>m. m \<in> set (orders t) \<Longrightarrow> fills m ord \<Longrightarrow> completes (\<lambda>t'. t' = t) (trade m) (\<lambda>res _. res = 0)"
  shows "completes (\<lambda>t'. t' = t) (cbind search (\<lambda>result. if result = - 1 then insert_order E ord else
     cbind (get_order E result) (\<lambda>got. case got of Inl _ \<Rightarrow> ret (- 1) | Inr m \<Rightarrow> trade m))) (\<lambda>res _. res = 0)"
proof (rule outcome_cbind[OF find], rule outcome_fact)
  fix k assume "oldest_of ms k"
  then consider (none) "k = - 1" "\<forall>m \<in> set (orders t). \<not> fills m ord"
    | (best) m where "m \<in> set (orders t)" "fills m ord" "orderID m = k"
    using ms by (auto dest!: oldest_ofD)
  then show "completes (\<lambda>t'. t' = t) (if k = - 1 then insert_order E ord else
     cbind (get_order E k) (\<lambda>got. case got of Inl _ \<Rightarrow> ret (- 1) | Inr m \<Rightarrow> trade m)) (\<lambda>res _. res = 0)"
  proof cases
    case none
    with ok obtain i n where "lock ord = Some (i, n)" "n \<le> coins i u" "in_int32 (coins i u - n)" "unitPrice ord \<noteq> NaN"
      by (auto simp: acceptable_def lockable_def)
    then have "\<exists>c'. insert_order E ord c = (Inr 0, c')" if "db c = t" for c :: "'w sqlite3"
      using insert_order_healthy[of c u ord i n] that wf made u uid side small_room[OF wf(2)] by auto
    with none(1) show ?thesis by (auto intro!: outcome_runs)
  next
    case (best m)
    have k: "k \<noteq> - 1" using wf_order_rowD(4)[OF wf(1) best(1)] best(3) by simp
    have "completes (\<lambda>t'. t' = t) (get_order E k) (\<lambda>got t'. case got of Inl _ \<Rightarrow> False | Inr r \<Rightarrow> r = m \<and> t' = t)"
    proof (rule outcome_runs)
      fix c :: "'w sqlite3" assume c: "db c = t"
      obtain c' where "get_order E k c = (Inr (Inr m), c')" "db c' = db c"
        by (rule get_order_healthy[of c m k]) (use c wf made best(1,3) in simp_all)
      with c show "\<exists>a c'. get_order E k c = (Inr a, c') \<and> (case a of Inl _ \<Rightarrow> False | Inr r \<Rightarrow> r = m \<and> db c' = t)"
        by auto
    qed
    then have "completes (\<lambda>t'. t' = t) (cbind (get_order E k) (\<lambda>got. case got of Inl _ \<Rightarrow> ret (- 1) | Inr m \<Rightarrow> trade m))
        (\<lambda>res _. res = 0)"
      by (rule outcome_got) (use trade[OF best(1,2)] in \<open>auto intro: outcome_fact\<close>)
    with k show ?thesis by simp
  qed
qed

lemma buy_accepted:
  assumes wf: "wf_conn c" and ids: "ids_small (db c)" and made: "created (db c)" and ints: "order_ints ord"
    and u: "u \<in> set (users (db c))" "userID u = ord_userID ord" and side: "buyOrSell ord = BUY"
    and ok: "acceptable ord u (db c)"
  shows "\<exists>c'. buy E (Some ord) c = (Inr 0, c') \<and> posted ord (db c) (db c')"
proof -
  let ?t = "db c"
  have uid: "in_int32 (ord_userID ord)" using wf_small_ids(1)[OF wf ids u(1)] u(2) by simp
  have find: "completes (\<lambda>t'. t' = ?t) (find_matching_sell E ord)
      (\<lambda>k t'. oldest_of (matching_sells ?t (item ord) (unitPrice ord) (ord_userID ord)) k \<and> t' = ?t)"
    by (rule outcome_runs) (metis find_matching_sell_healthy wf ids made)
  have trade: "completes (\<lambda>t'. t' = ?t) (buy_match E u ord m) (\<lambda>res _. res = 0)" if "m \<in> set (orders ?t)" "fills m ord" for m
    unfolding buy_match_with
    by (rule buying.completes_match_with) (use that wf ids made ints uid u side ok in \<open>auto simp: acceptable_def fills_def\<close>)
  obtain c1 where c1: "get_user E (ord_userID ord) c = (Inr (Inr u), c1)" "db c1 = ?t"
    using get_user_healthy[OF wf made u uid] .
  have "\<exists>c'. cbind (find_matching_sell E ord) (\<lambda>result. if result = - 1 then insert_order E ord else
     cbind (get_order E result) (\<lambda>got. case got of Inl _ \<Rightarrow> ret (- 1) | Inr m \<Rightarrow> buy_match E u ord m)) c1 = (Inr 0, c')"
    by (rule completes_runs[OF completes_search[OF wf ids made uid _ u ok find set_matching_sells[OF side] trade]])
      (use side c1(2) in simp_all)
  then obtain c' where c': "buy E (Some ord) c = (Inr 0, c')"
    using c1(1) ok side by (auto simp: buy_def cbind_done acceptable_def affordable_iff)
  with buy_done[OF wf ids made ints uid side c'] show ?thesis by blast
qed

lemma sell_accepted:
  assumes wf: "wf_conn c" and ids: "ids_small (db c)" and made: "created (db c)" and ints: "order_ints ord"
    and u: "u \<in> set (users (db c))" "userID u = ord_userID ord" and side: "buyOrSell ord = SELL"
    and ok: "acceptable ord u (db c)"
  shows "\<exists>c'. sell E (Some ord) c = (Inr 0, c') \<and> posted ord (db c) (db c')"
proof -
  let ?t = "db c"
  have uid: "in_int32 (ord_userID ord)" using wf_small_ids(1)[OF wf ids u(1)] u(2) by simp
  have find: "completes (\<lambda>t'. t' = ?t) (find_matching_buy E ord)
      (\<lambda>k t'. oldest_of (matching_buys ?t (item ord) (unitPrice ord) (ord_userID ord)) k \<and> t' = ?t)"
    by (rule outcome_runs) (metis find_matching_buy_healthy wf ids made)
  have trade: "completes (\<lambda>t'. t' = ?t) (sell_match E u ord m) (\<lambda>res _. res = 0)" if "m \<in> set (orders ?t)" "fills m ord" for m
    unfolding sell_match_with
    by (rule selling.completes_match_with) (use that wf ids made ints uid u side ok in \<open>auto simp: acceptable_def fills_def\<close>)
  obtain c1 where c1: "get_user E (ord_userID ord) c = (Inr (Inr u), c1)" "db c1 = ?t"
    using get_user_healthy[OF wf made u uid] .
  have "\<exists>c'. cbind (find_matching_buy E ord) (\<lambda>result. if result = - 1 then insert_order E ord else
     cbind (get_order E result) (\<lambda>got. case got of Inl _ \<Rightarrow> ret (- 1) | Inr m \<Rightarrow> sell_match E u ord m)) c1 = (Inr 0, c')"
    by (rule completes_runs[OF completes_search[OF wf ids made uid _ u ok find set_matching_buys[OF side] trade]])
      (use side c1(2) in simp_all)
  then obtain c' where c': "sell E (Some ord) c = (Inr 0, c')"
    using c1(1) ok side by (auto simp: sell_def cbind_done acceptable_def affordable_iff)
  with sell_done[OF wf ids made ints uid side c'] show ?thesis by blast
qed

end

end
