(* ===== verification/Progress.thy ===== *)
theory Progress
  imports Trading
begin

text \<open>
  When a command succeeds: on a healthy engine, an order that nobody fills rests and its coins leave the
  account, an offer of OMG is turned away, and an open order can be taken back by its owner.
\<close>

lemma insert_check_fails:
  assumes "buyOrSell ord = SELL" and "item ord \<notin> {COIN_DOGE, COIN_BTC, COIN_ETH} \<or> coins (item ord) u < quantity ord"
  shows "insert_check u ord = ret SQLITE_ERROR"
  using assms by (auto simp: insert_check_def coins_def)

text \<open>Who can pay for a bid can have it locked: truncating the cost does not make it dearer.\<close>

lemma affordable_cost:
  assumes "affordable ord u" and "buyOrSell ord = BUY" and "order_cost ord = Some n"
  shows "n \<le> OMG u" and "unitPrice ord \<noteq> NaN"
proof -
  obtain x where x: "dmul (of_cint (quantity ord)) (unitPrice ord) = Fin x" "n = trunc x"
    using assms(3) by (cases "dmul (of_cint (quantity ord)) (unitPrice ord)")
      (auto simp: order_cost_def split: if_split_asm)
  have "\<not> dlt (of_cint (OMG u)) (dmul (of_cint (quantity ord)) (unitPrice ord))"
    using assms(1,2) by (simp add: affordable_def)
  from dlt_fin[OF this] have "trunc x \<le> trunc (of_int (OMG u))" using x(1) by (intro trunc_mono) simp
  then show "n \<le> OMG u" using x(2) by simp
  show "unitPrice ord \<noteq> NaN" using x(1) by (cases "unitPrice ord") (auto simp: of_cint_def)
qed

context sqlite_healthy
begin

lemma insert_order_rejected:
  assumes wf: "wf_conn c" and made: "created (db c)" and u: "u \<in> set (users (db c))" "userID u = ord_userID ord"
    and uid: "in_int32 (ord_userID ord)" and no: "buyOrSell ord = SELL"
      "item ord \<notin> {COIN_DOGE, COIN_BTC, COIN_ETH} \<or> coins (item ord) u < quantity ord"
  obtains c' where "insert_order E ord c = (Inr SQLITE_ERROR, c')" and "db c' = db c"
proof -
  obtain c1 where c1: "get_user E (ord_userID ord) c = (Inr (Inr u), c1)" "db c1 = db c"
    using get_user_healthy[OF wf made u uid] .
  have "insert_order E ord c = (Inr SQLITE_ERROR, c1)"
    unfolding insert_order_def using c1 by (simp add: cbind_done insert_check_fails[OF no])
  with c1(2) that show thesis by blast
qed

text \<open>An order that nobody fills rests.\<close>

lemma oldest_of_none: "oldest_of ms k \<Longrightarrow> set ms = {} \<Longrightarrow> k = - 1"
  by (auto simp: oldest_of_def)

text \<open>A sell order for OMG is never accepted, but the code it is turned away with is not \<open>-1\<close>.\<close>

lemma sell_OMG_rejected:
  assumes wf: "wf_conn c" and ids: "ids_small (db c)" and made: "created (db c)"
    and u: "u \<in> set (users (db c))" "userID u = ord_userID ord" and side: "buyOrSell ord = SELL"
    and aff: "affordable ord u" and alone: "\<forall>m \<in> set (orders (db c)). \<not> fills m ord"
    and coin: "item ord = COIN_OMG"
  obtains c' where "sell E (Some ord) c = (Inr SQLITE_ERROR, c')" and "db c' = db c"
proof -
  have uid: "in_int32 (ord_userID ord)" using wf_small_ids(1)[OF wf ids u(1)] u(2) by simp
  have aff': "\<not> lacks_coins u ord" using aff side by (simp add: affordable_iff)
  obtain c1 where c1: "get_user E (ord_userID ord) c = (Inr (Inr u), c1)" "db c1 = db c"
    using get_user_healthy[OF wf made u uid] .
  obtain k c2 where c2: "find_matching_buy E ord c1 = (Inr k, c2)" "db c2 = db c"
    "oldest_of (matching_buys (db c) (item ord) (unitPrice ord) (ord_userID ord)) k"
    using find_matching_buy_healthy[of c1 ord] c1(2) wf ids made by metis
  have k: "k = - 1" using oldest_of_none[OF c2(3)] set_matching_buys[OF side] alone by auto
  obtain c3 where c3: "insert_order E ord c2 = (Inr SQLITE_ERROR, c3)" "db c3 = db c"
    by (rule insert_order_rejected[of c2 u ord])
      (use wf made u uid side coin c2(2) in auto)
  have "sell E (Some ord) c = (Inr SQLITE_ERROR, c3)"
    unfolding sell_def using c1 c2 c3 aff' k by (simp add: cbind_done)
  with c3(2) that show thesis by blast
qed

text \<open>The owner of an open order can always take it back, as long as the refund fits.\<close>

lemma cancel_order_healthy:
  assumes wf: "wf_conn c" and ids: "ids_small (db c)" and made: "created (db c)"
    and r: "r \<in> set (orders (db c))" "orderID r = k" "ord_userID r = uid"
    and u: "u \<in> set (users (db c))" "userID u = uid" and ref: "refunded r u = Some u'" "user_ok u'"
  obtains c' where "cancel_order E k uid c = (Inr 0, c')"
proof -
  have uid: "in_int32 uid" using wf_small_ids(1)[OF wf ids u(1)] u(2) by simp
  obtain c1 where c1: "get_order E k c = (Inr (Inr r), c1)" "db c1 = db c"
    using get_order_healthy[OF wf ids made r(1,2)] .
  obtain c2 where c2: "get_user E uid c1 = (Inr (Inr u), c2)" "db c2 = db c"
    by (rule get_user_healthy[of c1 u uid]) (use wf made u uid c1(2) in auto)
  have "(if buyOrSell r = 0 then earn (dmul (of_cint (quantity r)) (unitPrice r)) u
      else credit_coin (item r) (quantity r) u) c2 = (Inr u', c2)"
    using ref by (auto simp: refunded_def earn_run credit_coin_def gain_def user_ok_def cadd_ok
        split: if_split_asm)
  moreover obtain c3 where c3: "update_user_balance E u' c2 = (Inr 0, c3)" "created (db c3)"
    using update_user_balance_healthy[of c2 u'] made c2(2) by (metis change_balance_frame(1))
  moreover obtain c4 where "delete_order E k c3 = (Inr 0, c4)"
    using delete_order_healthy[OF c3(2)] by blast
  ultimately have "cancel_order E k uid c = (Inr 0, c4)"
    unfolding cancel_order_def using c1 c2 r(3) by (simp add: cbind_done)
  with that show thesis .
qed

lemma place_acct: "place ord k ts M = Some M' \<Longrightarrow> lock ord = Some (i, n) \<Longrightarrow> acct M (ord_userID ord) = Some u \<Longrightarrow>
    acct M' (ord_userID ord) = Some (gain i (- n) u)"
  by (auto simp: place_def split: if_split_asm)

lemma placed_acct:
  assumes "placed ord t t'" and "wf_db t" and "u \<in> set (users t)" and "userID u = ord_userID ord" and "lock ord = Some (i, n)"
  shows "acct (market_of t') (ord_userID ord) = Some (gain i (- n) u)"
proof -
  obtain ts where "place ord (order_seq t + 1) ts (market_of t) = Some (market_of t')"
    using placed_place[OF assms(1)] assms(2) by auto
  moreover have "acct (market_of t) (ord_userID ord) = Some u" using assms(2-4) by (simp add: acct_iff)
  ultimately show ?thesis using assms(5) by (blast intro: place_acct)
qed

text \<open>The account of a seller whose order rests: the quantity on offer has left it, whatever its sign.\<close>

lemma sell_rests_account:
  assumes wf: "wf_conn c" and ids: "ids_small (db c)" and made: "created (db c)" and ints: "order_ints ord"
    and u: "u \<in> set (users (db c))" "userID u = ord_userID ord" and side: "buyOrSell ord = SELL"
    and aff: "affordable ord u" and alone: "\<forall>m \<in> set (orders (db c)). \<not> fills m ord"
    and coin: "item ord \<in> {COIN_DOGE, COIN_BTC, COIN_ETH}" and q: "in_int32 (coins (item ord) u - quantity ord)"
    and price: "unitPrice ord \<noteq> NaN"
  shows "\<exists>c'. sell E (Some ord) c = (Inr 0, c') \<and> placed ord (db c) (db c') \<and>
    acct (market_of (db c')) (ord_userID ord) = Some (gain (item ord) (- quantity ord) u)"
proof -
  have lock: "lock ord = Some (item ord, quantity ord)" using coin side by (auto simp: lock_def)
  moreover have "quantity ord \<le> coins (item ord) u"
    using aff side coin by (auto simp: affordable_def coins_def)
  ultimately have "acceptable ord u (db c)"
    using aff alone price q by (auto simp: acceptable_def lockable_def)
  then obtain c' where "sell E (Some ord) c = (Inr 0, c')" "posted ord (db c) (db c')"
    using sell_accepted[OF wf ids made ints u side] by blast
  with alone placed_acct[OF _ wf u lock] show ?thesis by (auto simp: posted_def)
qed

lemma buy_rests_account:
  assumes wf: "wf_conn c" and ids: "ids_small (db c)" and made: "created (db c)" and ints: "order_ints ord"
    and u: "u \<in> set (users (db c))" "userID u = ord_userID ord" and side: "buyOrSell ord = BUY"
    and aff: "affordable ord u" and alone: "\<forall>m \<in> set (orders (db c)). \<not> fills m ord"
    and cost: "order_cost ord = Some n" "in_int32 (OMG u - n)"
  shows "\<exists>c'. buy E (Some ord) c = (Inr 0, c') \<and> placed ord (db c) (db c') \<and>
    acct (market_of (db c')) (ord_userID ord) = Some (u\<lparr>OMG := OMG u - n\<rparr>)"
proof -
  have n: "n \<le> coins COIN_OMG u" "unitPrice ord \<noteq> NaN" using affordable_cost[OF aff side cost(1)] by (simp_all add: coins_0)
  have lock: "lock ord = Some (COIN_OMG, n)" using cost(1) side by (simp add: lock_def)
  with lock n have "acceptable ord u (db c)"
    using aff alone cost(2) by (auto simp: acceptable_def lockable_def coins_0)
  then obtain c' where "buy E (Some ord) c = (Inr 0, c')" "posted ord (db c) (db c')"
    using buy_accepted[OF wf ids made ints u side] by blast
  with alone placed_acct[OF _ wf u lock] show ?thesis by (auto simp: posted_def gain_def)
qed

end

end
