(* ===== verification/Listings.thy ===== *)
theory Listings
  imports Server
begin

text \<open>
  What a client is shown: the listings of open and archived orders hold exactly the client's orders,
  the two columns of \<open>view\<close> hold the five best orders of each side, best first, and none of the loops
  that copy rows leaves its array.
\<close>

section \<open>Rows and what they were made from\<close>

lemma mset_map_split:
  "mset rows = mset (map f xs) \<Longrightarrow> \<exists>ys. mset ys = mset xs \<and> rows = map f ys"
proof (induction rows arbitrary: xs)
  case (Cons r rows)
  have "set (r # rows) = set (map f xs)" using Cons.prems by (rule mset_eq_setD)
  then have "r \<in> set (map f xs)" by (metis list.set_intros(1))
  then obtain x where x: "x \<in> set xs" "f x = r" by auto
  then have split: "mset xs = add_mset x (mset (remove1 x xs))" by (simp only: mset_remove1 insert_DiffM in_multiset_in_set)
  have "mset (r # rows) = add_mset r (mset (map f (remove1 x xs)))"
    using Cons.prems by (simp only: mset_map split x(2) image_mset_add_mset)
  then have "mset rows = mset (map f (remove1 x xs))" by simp
  from Cons.IH[OF this] obtain ys where ys: "mset ys = mset (remove1 x xs)" "rows = map f ys" by auto
  have "mset (x # ys) = mset xs" unfolding split mset.simps ys(1) ..
  moreover have "r # rows = map f (x # ys)" using x(2) ys(2) by simp
  ultimately show ?case by (intro exI[of _ "x # ys"] conjI)
qed simp

lemma readable:
  assumes "wf_db t" and "ids_small t" and "r \<in> set (orders t) \<union> set (archives t)"
  shows "read_order (order_row r) = Some r"
proof (rule read_order_row)
  show "order_ok r" "created_at r \<noteq> None" using assms(1,3) by (auto simp: wf_db_def)
  show "in_int32 (ord_userID r)" "in_int32 (orderID r)" using wf_small_ids(2,3)[OF assms(1,2)] assms(3) by auto
qed

text \<open>The three copy loops, on rows that can all be read.\<close>

lemma fill_rows_ok:
  "\<forall>r \<in> set rs. read_order (order_row r) = Some r \<Longrightarrow> length acc + length rs \<le> cap \<Longrightarrow>
   fill_rows cap (map order_row rs) acc = ret (acc @ rs)"
  by (induction rs arbitrary: acc) simp_all

lemma collect_rows_ok:
  "\<forall>r \<in> set rs. read_order (order_row r) = Some r \<Longrightarrow> \<forall>n. malloc_ok E c n \<Longrightarrow>
   collect_rows E (map order_row rs) acc c = (Inr (acc @ rs), c)"
  by (induction rs arbitrary: acc) (simp_all add: cbind_def alloc_def)

lemma grow_rows_ok:
  "\<forall>r \<in> set rs. read_order (order_row r) = Some r \<Longrightarrow> \<forall>n. malloc_ok E c n \<Longrightarrow> 0 < cap \<Longrightarrow>
   int (length acc) \<le> cap \<Longrightarrow> length acc + length rs < 2 ^ 30 \<Longrightarrow>
   grow_rows E (map order_row rs) cap acc c = (Inr (Some (acc @ rs)), c)"
proof (induction rs arbitrary: acc cap)
  case (Cons r rs)
  show ?case
  proof (cases "cap \<le> int (length acc)")
    case True
    with Cons.prems have "cadd cap cap c = (Inr (2 * cap), c)" by (simp add: cadd_def in_int32_def)
    moreover have "1 \<le> int (length acc)" using True Cons.prems(3) by simp
    moreover have "grow_rows E (map order_row rs) (2 * cap) (acc @ [r]) c = (Inr (Some ((acc @ [r]) @ rs)), c)"
      using Cons.prems True \<open>1 \<le> int (length acc)\<close> by (intro Cons.IH) auto
    ultimately show ?thesis using True Cons.prems by (simp add: cbind_def alloc_def ret_def)
  next
    case False
    with Cons show ?thesis by (simp add: cbind_def ret_def)
  qed
qed simp

section \<open>The five best\<close>

text \<open>\<open>out\<close> holds the best \<open>n\<close> of \<open>xs\<close> in the order \<open>le\<close>, and all of them if there are no more.\<close>

definition best :: "('r \<Rightarrow> 'r \<Rightarrow> bool) \<Rightarrow> nat \<Rightarrow> 'r list \<Rightarrow> 'r list \<Rightarrow> bool" where
  "best le n xs out \<longleftrightarrow> sorted_wrt le out \<and> length out = min n (length xs) \<and> mset out \<subseteq># mset xs \<and>
     (\<forall>x \<in># mset xs - mset out. \<forall>y \<in> set out. le y x)"

lemma ordered_limit_best:
  assumes "ordered_limit le n xs out"
  shows "best le n xs out"
proof -
  obtain ys where ys: "mset ys = mset xs" "sorted_wrt le ys" "out = take n ys"
    using assms by (auto simp: ordered_limit_def)
  have "mset xs = mset out + mset (drop n ys)" using ys(1,3) by (metis append_take_drop_id mset_append)
  then have rest: "mset xs - mset out = mset (drop n ys)" "mset out \<subseteq># mset xs" by auto
  have "length ys = length xs" using ys(1) by (metis size_mset)
  moreover have "sorted_wrt le (take n ys @ drop n ys)" using ys(2) by simp
  then have "sorted_wrt le (take n ys)" "\<forall>y \<in> set (take n ys). \<forall>x \<in> set (drop n ys). le y x"
    unfolding sorted_wrt_append by auto
  ultimately show ?thesis using rest ys(3) by (auto simp: best_def)
qed

context sqlite_healthy
begin

lemma fetch_top_healthy:
  assumes "wf_conn c" and "ids_small (db c)" and "created (db c)"
    and q: "\<And>rows t'. sql_meaning (db c) q rows t' \<longleftrightarrow> t' = db c \<and>
      (\<exists>out. ordered_limit le 5 xs out \<and> rows = map order_row out)"
    and ex: "\<exists>rows t'. sql_meaning (db c) q rows t'" and xs: "set xs \<subseteq> set (orders (db c))"
  obtains out c' where "fetch_top E q c = (Inr (Inr out), c')" and "db c' = db c" and "best le 5 xs out"
proof -
  obtain c1 where p: "sql_prepare E q c = (Inr SQLITE_OK, c1)" "db c1 = db c"
    using prepare_healthy assms(3) by blast
  have "\<exists>rows t'. sql_meaning (db c1) q rows t'" using ex p(2) by simp
  then obtain rows c2 where run: "sql_run E q c1 = (Inr (rows, SQLITE_DONE), c2)"
    and "sql_meaning (db c1) q rows (db c2)" by (rule run_healthy)
  then obtain out where out: "ordered_limit le 5 xs out" "rows = map order_row out" "db c2 = db c"
    using q p(2) by auto
  note b = ordered_limit_best[OF out(1)]
  have "set out \<subseteq> set xs" using b by (auto simp: best_def dest!: set_mset_mono)
  with xs have "\<forall>r \<in> set out. read_order (order_row r) = Some r" using readable[OF assms(1,2)] by auto
  moreover have "length out \<le> 5" using b by (simp add: best_def)
  ultimately have "fill_rows 5 rows [] c2 = (Inr out, c2)" unfolding out(2) by (subst fill_rows_ok) simp_all
  then have "fetch_top E q c = (Inr (Inr out), c2)"
    using p(1) run allocates by (simp add: fetch_top_def cbind_def alloc_def ret_def)
  with out(3) b that show thesis by blast
qed

lemma get_item_all_orders_healthy:
  assumes "wf_conn c" and "ids_small (db c)" and "created (db c)"
  obtains buys sells c' where "get_item_all_orders E i c = (Inr (Inr (buys, sells)), c')" and "db c' = db c"
    and "best dearer 5 (side_orders (db c) i BUY) buys" and "best cheaper 5 (side_orders (db c) i SELL) sells"
proof -
  obtain buys c1 where b: "fetch_top E (Select_Top_Buys i) c = (Inr (Inr buys), c1)" "db c1 = db c"
    "best dearer 5 (side_orders (db c) i BUY) buys"
    by (rule fetch_top_healthy[OF assms, of "Select_Top_Buys i" dearer "side_orders (db c) i BUY"])
      (use assms(3) enabled_reads[of "db c" "Select_Top_Buys i"] in \<open>auto simp: side_orders_def\<close>)
  have c1: "wf_conn c1" "ids_small (db c1)" "created (db c1)" using assms b(2) by simp_all
  obtain sells c2 where s: "fetch_top E (Select_Top_Sells i) c1 = (Inr (Inr sells), c2)" "db c2 = db c1"
    "best cheaper 5 (side_orders (db c1) i SELL) sells"
    by (rule fetch_top_healthy[OF c1, of "Select_Top_Sells i" cheaper "side_orders (db c1) i SELL"])
      (use c1(3) enabled_reads[of "db c1" "Select_Top_Sells i"] in \<open>auto simp: side_orders_def\<close>)
  have "get_item_all_orders E i c = (Inr (Inr (buys, sells)), c2)"
    using b(1) s(1) by (simp add: get_item_all_orders_def cbind_done)
  with b s that show thesis by simp
qed

lemma listing_rows:
  assumes "created (db c)" and "q = Select_User_Orders uid \<and> xs = orders (db c) \<or>
      q = Select_Archives uid \<and> xs = archives (db c)"
  obtains c1 rs c2 where "sql_prepare E q c = (Inr SQLITE_OK, c1)" and "db c1 = db c"
    and "sql_run E q c1 = (Inr (map order_row rs, SQLITE_DONE), c2)" and "db c2 = db c"
    and "mset rs = mset (filter (\<lambda>r. ord_userID r = uid) xs)"
proof -
  obtain c1 where p: "sql_prepare E q c = (Inr SQLITE_OK, c1)" "db c1 = db c"
    using prepare_healthy assms(1) by blast
  have "\<exists>rows t'. sql_meaning (db c1) q rows t'"
    using assms p(2) by (auto intro!: exI[of _ "map order_row (filter (\<lambda>r. ord_userID r = uid) xs)"])
  then obtain rows c2 where run: "sql_run E q c1 = (Inr (rows, SQLITE_DONE), c2)"
    and "sql_meaning (db c1) q rows (db c2)" by (rule run_healthy)
  then have "db c2 = db c" "mset rows = mset (map order_row (filter (\<lambda>r. ord_userID r = uid) xs))"
    using assms(2) p(2) by auto
  with mset_map_split[OF this(2)] p run that show thesis by metis
qed

lemma my_orders_healthy:
  assumes "wf_conn c" and "ids_small (db c)" and "created (db c)"
  obtains out c' where "my_orders E uid c = (Inr out, c')" and "db c' = db c"
    and "mset out = mset (filter (\<lambda>r. ord_userID r = uid) (orders (db c)))"
proof -
  obtain c1 rs c2 where rows: "sql_prepare E (Select_User_Orders uid) c = (Inr SQLITE_OK, c1)" "db c1 = db c"
    "sql_run E (Select_User_Orders uid) c1 = (Inr (map order_row rs, SQLITE_DONE), c2)" "db c2 = db c"
    "mset rs = mset (filter (\<lambda>r. ord_userID r = uid) (orders (db c)))"
    by (rule listing_rows[OF assms(3), of "Select_User_Orders uid" uid "orders (db c)"], simp, rule that)
  have "set rs \<subseteq> set (orders (db c))" using mset_eq_setD[OF rows(5)] by auto
  then have "collect_rows E (map order_row rs) [] c2 = (Inr rs, c2)"
    using collect_rows_ok[of rs E c2 "[]"] readable[OF assms(1,2)] allocates by auto
  then have "my_orders E uid c = (Inr rs, c2)"
    using rows(1,3) by (simp add: my_orders_def get_user_all_orders_def Let_def cbind_def ret_def)
  with rows that show thesis by blast
qed

lemma get_archived_orders_healthy:
  assumes "wf_conn c" and "ids_small (db c)" and "created (db c)" and "length (archives (db c)) < 2 ^ 30"
  obtains out c' where "get_archived_orders E uid c = (Inr out, c')" and "db c' = db c"
    and "mset out = mset (filter (\<lambda>r. ord_userID r = uid) (archives (db c)))"
proof -
  obtain c1 rs c2 where rows: "sql_prepare E (Select_Archives uid) c = (Inr SQLITE_OK, c1)" "db c1 = db c"
    "sql_run E (Select_Archives uid) c1 = (Inr (map order_row rs, SQLITE_DONE), c2)" "db c2 = db c"
    "mset rs = mset (filter (\<lambda>r. ord_userID r = uid) (archives (db c)))"
    by (rule listing_rows[OF assms(3), of "Select_Archives uid" uid "archives (db c)"], simp, rule that)
  have "set rs \<subseteq> set (archives (db c))" using mset_eq_setD[OF rows(5)] by auto
  then have rd: "\<forall>r \<in> set rs. read_order (order_row r) = Some r" using readable[OF assms(1,2)] by auto
  have "length rs \<le> length (archives (db c))"
    using rows(5) by (metis length_filter_le size_mset)
  then have "grow_rows E (map order_row rs) 10 [] c2 = (Inr (Some rs), c2)"
    using grow_rows_ok[OF rd, of E c2 10 "[]"] allocates assms(4) by simp
  then have "get_archived_orders E uid c = (Inr rs, c2)"
    using rows(1,3) allocates
    by (simp add: get_archived_orders_def get_user_archived_orders_def Let_def cbind_def alloc_def ret_def)
  with rows that show thesis by blast
qed

end

end
