(* ===== verification/Samples.thy ===== *)
theory Samples
  imports Logins Progress Listings
begin

text \<open>
  Concrete markets on the reference engine: two users, an open order of each side, and the facts
  with which the simplifier runs a command on them. The last section has the runs that show where
  the code departs from what a marketplace should do.
\<close>

section \<open>Running commands on the reference engine\<close>

lemma ref_fields [simp]:
  "prepare_v2 ref_platform = ref_prepare" "run_stmt ref_platform = ref_run"
  "malloc_ok ref_platform c n" "open_code ref_platform = SQLITE_OK" "close_code ref_platform c = SQLITE_OK"
  by (simp_all add: ref_platform_def)

lemma fl_numeral: "(numeral n :: int) < 2 ^ 53 \<Longrightarrow> fl (numeral n) = Fin (numeral n)"
  using fl_int[of "numeral n"] by simp

lemma fl_neg_numeral: "(numeral n :: int) < 2 ^ 53 \<Longrightarrow> fl (- numeral n) = Fin (- numeral n)"
  using fl_int[of "- numeral n"] by simp

lemma fl_1: "fl 1 = Fin 1" and fl_neg_1: "fl (- 1) = Fin (- 1)"
  using fl_int[of 1] fl_int[of "- 1"] by simp_all

lemma trunc_numeral: "trunc (numeral n) = numeral n" and trunc_neg_numeral: "trunc (- numeral n) = - numeral n"
  and trunc_0: "trunc 0 = 0" and trunc_1: "trunc 1 = 1"
  using trunc_int[of "numeral n"] trunc_int[of "- numeral n"] trunc_int[of 0] trunc_int[of 1]
  by (simp_all del: trunc_int)

lemmas arith_defs = dsub_def of_cint_def fl_numeral fl_neg_numeral fl_1 fl_neg_1 trunc_numeral
  trunc_neg_numeral trunc_0 trunc_1 in_int32_def wrap32_def

lemmas engine_defs = cbind_def ret_def stop_def of_option_def sql_prepare_def sql_run_def sql_step_def
  sql_exec_def alloc_def ref_prepare_def ref_run_def modify_def select_def Let_def effect_defs
  matching_sells_def matching_buys_def user_row_def order_row_def text_val_def read_user_def read_order_def
  column_int_def column_text_def column_double_def dle_def fk_ok_def user_ids_def max_rowid_def

lemmas db_defs = get_user_def get_order_def find_matching_sell_def find_matching_buy_def insert_order_def
  insert_check_def insert_deduct_def int_cost_def update_user_balance_def delete_order_def update_order_def
  insert_archive_def assign_order_timestamp_def

lemmas handler_defs = archive_order_def finish_trade_def buy_match_def buy_def sell_match_def sell_def
  pay_def earn_def credit_coin_def debit_coin_def trade_quantity_def trade_cost_def cadd_def csub_def
  lacks_coins_def cancel_order_def

lemmas run_defs = arith_defs engine_defs db_defs handler_defs

section \<open>The markets\<close>

definition alice :: user_t where
  "alice = \<lparr>userID = 1, username = ''alice'', password = ''sesame'', name = ''Alice'',
     OMG = 10000, DOGE = 100, BTC = 50, ETH = 75\<rparr>"

definition bob :: user_t where
  "bob = \<lparr>userID = 2, username = ''bob'', password = ''hush'', name = ''Bob'',
     OMG = 10000, DOGE = 200, BTC = 50, ETH = 75\<rparr>"

text \<open>Alice offers 100 DOGE at 2 OMG and asks for 10 BTC at 30 OMG.\<close>

definition alice_sells :: order_t where
  "alice_sells = \<lparr>orderID = 1, item = COIN_DOGE, buyOrSell = SELL, quantity = 100, ord_userID = 1,
     unitPrice = Fin 2, created_at = Some ''2024-12-01 10:00:00''\<rparr>"

definition alice_buys :: order_t where
  "alice_buys = \<lparr>orderID = 2, item = COIN_BTC, buyOrSell = BUY, quantity = 10, ord_userID = 1,
     unitPrice = Fin 30, created_at = Some ''2024-12-01 10:05:00''\<rparr>"

definition shop :: tables where
  "shop = \<lparr>created = True, fk_on = True, users = [alice, bob], orders = [alice_sells, alice_buys],
     archives = [], user_seq = 2, order_seq = 2, archive_seq = 0\<rparr>"

definition shop_conn :: "string sqlite3" where
  "shop_conn = \<lparr>db = shop, world = ''2024-12-02 09:00:00''\<rparr>"

lemmas shop_defs = alice_def bob_def alice_sells_def alice_buys_def shop_def shop_conn_def

lemma shop_wf: "wf_db shop" and shop_small: "ids_small shop" and shop_keys: "keys_ok shop"
  and shop_created: "created shop"
  by (simp_all add: shop_defs wf_db_def ids_small_def keyed_def user_ok_def order_ok_def in_int32_def
      user_ids_def keys_ok_def)

text \<open>New orders of Bob.\<close>

definition bob_order :: "int \<Rightarrow> int \<Rightarrow> int \<Rightarrow> rat \<Rightarrow> order_t" where
  "bob_order i side q p = \<lparr>orderID = 0, item = i, buyOrSell = side, quantity = q, ord_userID = 2,
     unitPrice = Fin p, created_at = None\<rparr>"

lemmas sample_defs = shop_defs bob_order_def

lemma db_shop_conn [simp]: "db shop_conn = shop"
  by (simp add: shop_conn_def)

text \<open>Bob buys 5 of Alice's DOGE, sells her 4 BTC; Alice takes her offer back.\<close>

definition bid :: order_t where "bid = bob_order COIN_DOGE BUY 5 3"
definition ask_price :: order_t where "ask_price = bob_order COIN_BTC SELL 4 20"

definition bought :: "string sqlite3" where "bought = snd (buy ref_platform (Some bid) shop_conn)"
definition sold :: "string sqlite3" where "sold = snd (sell ref_platform (Some ask_price) shop_conn)"
definition withdrawn :: "string sqlite3" where "withdrawn = snd (cancel_order ref_platform 1 1 shop_conn)"

lemma bought_run: "buy ref_platform (Some bid) shop_conn = (Inr 0, bought)"
proof -
  have "fst (buy ref_platform (Some bid) shop_conn) = Inr 0" by (simp add: run_defs sample_defs bid_def)
  then show ?thesis by (simp add: bought_def prod_eq_iff)
qed

lemma sold_run: "sell ref_platform (Some ask_price) shop_conn = (Inr 0, sold)"
proof -
  have "fst (sell ref_platform (Some ask_price) shop_conn) = Inr 0" by (simp add: run_defs sample_defs ask_price_def)
  then show ?thesis by (simp add: sold_def prod_eq_iff)
qed

lemma withdrawn_run: "cancel_order ref_platform 1 1 shop_conn = (Inr 0, withdrawn)"
proof -
  have "fst (cancel_order ref_platform 1 1 shop_conn) = Inr 0" by (simp add: run_defs sample_defs)
  then show ?thesis by (simp add: withdrawn_def prod_eq_iff)
qed

text \<open>Alice gives up her bid; Bob offers 20 ETH, which nobody wants, and thinks better of it.\<close>

definition unbid :: "string sqlite3" where "unbid = snd (cancel_order ref_platform 2 1 shop_conn)"

lemma unbid_run: "cancel_order ref_platform 2 1 shop_conn = (Inr 0, unbid)"
proof -
  have "fst (cancel_order ref_platform 2 1 shop_conn) = Inr 0" by (simp add: run_defs sample_defs)
  then show ?thesis by (simp add: unbid_def prod_eq_iff)
qed

definition eth_offer :: order_t where "eth_offer = bob_order COIN_ETH SELL 20 7"
definition offered :: "string sqlite3" where "offered = snd (insert_order ref_platform eth_offer shop_conn)"
definition taken_back :: "string sqlite3" where "taken_back = snd (cancel_order ref_platform 3 2 offered)"

lemma offered_run: "insert_order ref_platform eth_offer shop_conn = (Inr 0, offered)" "order_seq (db offered) = 3"
  "ids_small (db offered)"
proof -
  have r: "fst (insert_order ref_platform eth_offer shop_conn) = Inr 0"
    "order_seq (db (snd (insert_order ref_platform eth_offer shop_conn))) = 3"
    "ids_small (db (snd (insert_order ref_platform eth_offer shop_conn)))"
    by (simp_all add: run_defs sample_defs eth_offer_def ids_small_def)
  then show "insert_order ref_platform eth_offer shop_conn = (Inr 0, offered)" "order_seq (db offered) = 3"
    "ids_small (db offered)"
    by (simp_all add: offered_def prod_eq_iff)
qed

lemma taken_back_run: "cancel_order ref_platform 3 2 offered = (Inr 0, taken_back)"
proof -
  have "fst (cancel_order ref_platform 3 2 offered) = Inr 0"
    by (simp add: offered_def run_defs sample_defs eth_offer_def)
  then show ?thesis by (simp add: taken_back_def prod_eq_iff)
qed

lemma sample_orders: "order_ints bid" "in_int32 (ord_userID bid)" "buyOrSell bid = BUY"
  "order_ints ask_price" "in_int32 (ord_userID ask_price)" "buyOrSell ask_price = SELL"
  by (simp_all add: bid_def ask_price_def bob_order_def order_ints_def in_int32_def)

text \<open>Bob bids for more than Alice has on offer; like the other two orders, this one can be traded.\<close>

definition large_bid :: order_t where
  "large_bid = bob_order COIN_DOGE BUY 150 3"

lemmas settling_defs = settling_def parties_def deal_eq buyer_after_def seller_after_def paid_def earned_def gain_def
  trade_cost_def trade_quantity_def user_ok_def lockable_def lock_def order_cost_def coins_def in_int32_def

lemma fill_settles:
  assumes "v \<in> set (users t)" and "userID v = ord_userID r" and "settling ord u r v u' v'"
    and "\<And>m. m \<in> set (orders t) \<Longrightarrow> fills m ord \<Longrightarrow> m = r"
  shows "\<forall>m \<in> set (orders t). fills m ord \<longrightarrow> settles ord u t m"
  using assms unfolding settles_def by blast

lemma bid_ready: "order_ints bid" "userID bob = ord_userID bid" "affordable bid bob" "unitPrice bid \<noteq> NaN"
  "\<exists>m \<in> set (orders shop). fills m bid" "buyOrSell bid = BUY" "\<And>m. m \<in> set (orders shop) \<Longrightarrow> fills m bid \<Longrightarrow> m = alice_sells"
  by (auto simp: sample_defs bid_def affordable_def arith_defs fills_def dle_def order_ints_def in_int32_def)

lemma bid_settles: "\<forall>m \<in> set (orders shop). fills m bid \<longrightarrow> settles bid bob shop m"
  by (rule fill_settles[of alice _ alice_sells _ _ "bob\<lparr>OMG := 9990, DOGE := 205\<rparr>" "alice\<lparr>OMG := 10010, DOGE := 95\<rparr>"])
    (simp_all add: bid_ready(7), simp_all add: settling_defs sample_defs bid_def arith_defs)

lemma large_bid_ready: "order_ints large_bid" "userID bob = ord_userID large_bid" "affordable large_bid bob"
  "unitPrice large_bid \<noteq> NaN" "\<exists>m \<in> set (orders shop). fills m large_bid" "buyOrSell large_bid = BUY"
  "\<And>m. m \<in> set (orders shop) \<Longrightarrow> fills m large_bid \<Longrightarrow> m = alice_sells" "quantity alice_sells < quantity large_bid"
  by (auto simp: sample_defs large_bid_def affordable_def arith_defs fills_def dle_def order_ints_def in_int32_def)

lemma large_bid_settles: "\<forall>m \<in> set (orders shop). fills m large_bid \<longrightarrow> settles large_bid bob shop m"
  by (rule fill_settles[of alice _ alice_sells _ _ "bob\<lparr>OMG := 9800, DOGE := 300\<rparr>" "alice\<lparr>OMG := 10200, DOGE := 0\<rparr>"])
    (simp_all add: large_bid_ready(7), simp_all add: settling_defs sample_defs large_bid_def arith_defs)

lemma ask_ready: "order_ints ask_price" "userID bob = ord_userID ask_price" "affordable ask_price bob"
  "unitPrice ask_price \<noteq> NaN" "\<exists>m \<in> set (orders shop). fills m ask_price" "buyOrSell ask_price = SELL"
  "\<And>m. m \<in> set (orders shop) \<Longrightarrow> fills m ask_price \<Longrightarrow> m = alice_buys" "item ask_price \<noteq> COIN_OMG"
  by (auto simp: sample_defs ask_price_def affordable_def coins_def arith_defs fills_def dle_def order_ints_def in_int32_def)

lemma ask_settles: "\<forall>m \<in> set (orders shop). fills m ask_price \<longrightarrow> settles ask_price bob shop m"
  by (rule fill_settles[of alice _ alice_buys _ _ "bob\<lparr>OMG := 10120, BTC := 46\<rparr>" "alice\<lparr>OMG := 9880, BTC := 54\<rparr>"])
    (simp_all add: ask_ready(7), simp_all add: settling_defs sample_defs ask_price_def arith_defs)

lemma bob_of_shop: "bob \<in> set (users shop)"
  by (simp add: shop_def)

text \<open>A session with the lines that a client has typed; every message reaches it.\<close>

definition client :: "string list \<Rightarrow> string session" where
  "client ls = \<lparr>comm = \<lparr>inp = ls, eof = False, sent = [], accepts = (\<lambda>_ _. True)\<rparr>,
     conn = shop_conn, console = []\<rparr>"

lemma client_simps [simp]: "conn (client ls) = shop_conn" "inp (comm (client ls)) = ls" "open_stream (comm (client ls))"
  by (simp_all add: client_def open_stream_def)

section \<open>Runs that depart from the intent\<close>

text \<open>Alice offers her last 100 DOGE as well; then Bob buys 100.\<close>

definition alice_sells_more :: order_t where
  "alice_sells_more = \<lparr>orderID = 0, item = COIN_DOGE, buyOrSell = SELL, quantity = 100, ord_userID = 1,
     unitPrice = Fin 2, created_at = None\<rparr>"

definition sell_out :: "string sqlite3" where
  "sell_out = snd (cbind (sell ref_platform (Some alice_sells_more))
     (\<lambda>_. buy ref_platform (Some (bob_order COIN_DOGE BUY 100 2))) shop_conn)"

lemma sell_out_users: "map (\<lambda>u. (OMG u, DOGE u)) (users (db sell_out)) = [(10200, - 100), (9800, 300)]"
  by (simp add: sell_out_def run_defs sample_defs alice_sells_more_def)

text \<open>A price just under 1, and the sum that rounding carries over to the next whole number.\<close>

definition just_under_1 :: rat where
  "just_under_1 = 9007199254740991 / 9007199254740992"

lemma ilog2_unique: "pow2 k \<le> q \<Longrightarrow> q < pow2 (k + 1) \<Longrightarrow> ilog2 q = k"
proof -
  assume k: "pow2 k \<le> q" "q < pow2 (k + 1)"
  then have "0 < q" by (meson less_le_trans pow2_pos)
  from ilog2_bounds[OF this] have "pow2 (ilog2 q) \<le> q" "q < pow2 (ilog2 q + 1)" by auto
  with k have "pow2 k < pow2 (ilog2 q + 1)" "pow2 (ilog2 q) < pow2 (k + 1)" by (auto intro: le_less_trans)
  then show ?thesis by (auto dest!: pow2_less_imp_less)
qed

lemma fl_just_under_1: "fl just_under_1 = Fin just_under_1"
  using fl_dyadic[of 9007199254740991 53] by (simp add: just_under_1_def)

lemma fl_rounds:
  assumes "0 < q" and "max (ilog2 q - 52) (- 1074) = e" and "round_even (q / pow2 e) = n"
    and "of_int n * pow2 e = v" and "\<not> pow2 1024 \<le> v"
  shows "fl q = Fin v"
proof -
  have "\<bar>q\<bar> = q" "q \<noteq> 0" using assms(1) by simp_all
  then show ?thesis unfolding fl_def Let_def by (simp only: assms if_False if_True)
qed

lemma fl_carry: "fl (10000 + just_under_1) = Fin 10001"
proof (rule fl_rounds)
  show "0 < 10000 + just_under_1" by (simp add: just_under_1_def)
  have "ilog2 (10000 + just_under_1) = 13"
    by (rule ilog2_unique) (simp_all add: pow2_def just_under_1_def)
  then show "max (ilog2 (10000 + just_under_1) - 52) (- 1074) = - 39" by simp
  have "(10000 + just_under_1) / pow2 (- 39) = 90080999746664660991 / 16384"
    by (simp add: pow2_def just_under_1_def power_int_minus)
  moreover have "\<lfloor>90080999746664660991 / 16384 :: rat\<rfloor> = 5498107894693887" by (rule floor_unique) simp_all
  then have "round_even (90080999746664660991 / 16384) = 5498107894693888" by (simp add: round_even_def)
  ultimately show "round_even ((10000 + just_under_1) / pow2 (- 39)) = 5498107894693888" by (simp only:)
  show "of_int 5498107894693888 * pow2 (- 39) = 10001" "\<not> pow2 1024 \<le> 10001"
    by (simp_all add: pow2_def power_int_minus)
qed

text \<open>Bob places a buy order for one BTC at that price, which locks nothing, and takes it back.\<close>

definition bargain :: order_t where
  "bargain = bob_order COIN_BTC BUY 1 just_under_1"

definition minted :: "string sqlite3" where
  "minted = snd (cbind (buy ref_platform (Some bargain)) (\<lambda>_. cancel_order ref_platform 3 2) shop_conn)"

lemma minted_users: "map OMG (users (db minted)) = [10000, 10001]"
proof -
  have j: "trunc just_under_1 = 0" "\<not> 10000 < just_under_1" "\<not> 2 \<le> just_under_1"
    by (auto simp: trunc_def just_under_1_def intro: floor_unique)
  show ?thesis
    by (simp add: minted_def run_defs sample_defs bargain_def fl_just_under_1 fl_carry j)
qed

text \<open>
  An engine that keeps the contract and cannot prepare the search for a seller: it reports
  \<open>SQLITE_ERROR\<close>. The code is a number like the identifier of an order, here that of Alice's.
\<close>

definition busy_platform :: "string platform" where
  "busy_platform = ref_platform\<lparr>prepare_v2 := (\<lambda>c q. case q of
     Select_Matching_Sell i p uid \<Rightarrow> (SQLITE_ERROR, c) | _ \<Rightarrow> ref_prepare c q)\<rparr>"

lemma busy_fields [simp]:
  "prepare_v2 busy_platform = (\<lambda>c q. case q of Select_Matching_Sell i p uid \<Rightarrow> (SQLITE_ERROR, c) | _ \<Rightarrow> ref_prepare c q)"
  "run_stmt busy_platform = ref_run" "last_rowid busy_platform = last_rowid ref_platform" "bind_param busy_platform = (\<lambda>c q i. SQLITE_OK)" "malloc_ok busy_platform c n"
  by (simp_all add: busy_platform_def ref_platform_def)

interpretation busy: sqlite_engine busy_platform
proof unfold_locales
  fix c :: "string sqlite3" and q rows rc c'
  show "prepare_v2 busy_platform c q = (rc, c') \<Longrightarrow> db c' = db c"
    "prepare_v2 busy_platform c q = (rc, c') \<Longrightarrow> 0 \<le> rc"
    by (auto simp: ref_prepare_def split: stmt.splits if_splits)
qed (use ref.done_meaning ref.failed_db ref.final_code ref.delivered ref.rowid in auto)

text \<open>Bob bids 1 OMG for each of 5 DOGE; Alice asks for 2.\<close>

definition low_bid :: order_t where
  "low_bid = bob_order COIN_DOGE BUY 5 1"

lemma low_bid_unfillable: "\<forall>m \<in> set (orders shop). \<not> fills m low_bid"
  by (simp add: sample_defs low_bid_def fills_def dle_def)

lemma low_bid_run: "fst (buy busy_platform (Some low_bid) shop_conn) = Inr 0"
  "map OMG (users (db (snd (buy busy_platform (Some low_bid) shop_conn)))) = [10010, 9990]"
  by (simp_all add: run_defs sample_defs low_bid_def busy.binds_ret)

end
