(* ===== verification/Races.thy ===== *)
theory Races
  imports Samples
begin

text \<open>
  Sessions that run at the same time: every session of a shared engine is itself the traffic that the
  others have to expect, and two sessions of one user can spend the same coins.
\<close>

section \<open>The guarantee of a session\<close>

context sqlite_shared
begin

lemma flow_accept_client: "accept_client E s = (r, s') \<Longrightarrow> traffic (db (conn s)) (db (conn s'))"
  using keepsD[OF flow.keeps_accept_client[OF sqlite_shared_axioms]] quiet by blast

lemma flow_buy: "order_ints ord \<Longrightarrow> buy E (Some ord) c = (r, c') \<Longrightarrow> traffic (db c) (db c')"
  using keepsD[OF flow.keeps_buy[OF sqlite_shared_axioms]] quiet by blast

end

section \<open>Two windows\<close>

text \<open>
  One user at two windows. \<open>interrupted E k ord\<close> is the engine \<open>E\<close> as the process behind one window sees it when
  the other one places \<open>ord\<close>: the whole call of \<open>buy\<close> comes in before the first window's order is inserted,
  where \<open>k\<close> is the number of the last order so far.
\<close>

definition interrupted :: "'w platform \<Rightarrow> int \<Rightarrow> order_t \<Rightarrow> 'w platform" where
  "interrupted E k ord = E\<lparr>prepare_v2 := (\<lambda>c q. case q of
     Insert_Order i b n p uid \<Rightarrow>
       prepare_v2 E (if order_seq (db c) = k then snd (buy E (Some ord) c) else c) q
   | _ \<Rightarrow> prepare_v2 E c q)\<rparr>"

lemma interrupted_fields [simp]: "run_stmt (interrupted E k ord) = run_stmt E" "bind_param (interrupted E k ord) = bind_param E"
  "malloc_ok (interrupted E k ord) = malloc_ok E"
  by (simp_all add: interrupted_def)

lemma interrupted_binds [simp]: "sql_binds (interrupted E k ord) q i n = sql_binds E q i n"
  by (rule ext, induction n arbitrary: i) simp_all

lemma interrupted_run [simp]: "sql_run (interrupted E k ord) = sql_run E"
  by (simp add: fun_eq_iff sql_run_def)

lemma interrupted_step [simp]: "sql_step (interrupted E k ord) = sql_step E"
  by (simp add: fun_eq_iff sql_step_def)

lemma interrupted_prepares [simp]:
  "sql_prepare (interrupted E k ord) (Select_User uid) = sql_prepare E (Select_User uid)"
  "sql_prepare (interrupted E k ord) (Select_Matching_Sell i p uid) = sql_prepare E (Select_Matching_Sell i p uid)"
  "sql_prepare (interrupted E k ord) (Update_Balance a b d e uid) = sql_prepare E (Update_Balance a b d e uid)"
  "sql_prepare (interrupted E k ord) (Insert_Order i b n p uid) c = sql_prepare E (Insert_Order i b n p uid)
    (if order_seq (db c) = k then snd (buy E (Some ord) c) else c)"
  by (simp_all add: fun_eq_iff sql_prepare_def interrupted_def)

lemma interrupted_calls [simp]: "get_user (interrupted E k ord) = get_user E"
  "find_matching_sell (interrupted E k ord) = find_matching_sell E"
  "update_user_balance (interrupted E k ord) = update_user_balance E"
  by (simp_all add: fun_eq_iff get_user_def find_matching_sell_def update_user_balance_def Let_def cong: if_cong)

context sqlite_engine
begin

lemma interrupted_shared:
  assumes "order_ints ord"
  shows "sqlite_shared (interrupted E k ord)"
proof unfold_locales
  fix c q rc c'
  have come: "traffic (db c) (db (snd (buy E (Some ord) c)))" by (rule flow_buy[OF assms surjective_pairing])
  assume "prepare_v2 (interrupted E k ord) c q = (rc, c')"
  then have "prepare_v2 E c q = (rc, c') \<or> prepare_v2 E (snd (buy E (Some ord) c)) q = (rc, c')"
    by (auto simp: interrupted_def split: stmt.splits if_splits)
  then show "traffic (db c) (db c')" using come prepare_db by (metis quiet)
qed (use shared_run in auto)

end

text \<open>A bid of \<open>u\<close> that costs \<open>n\<close> OMG and would rest if it were the only one.\<close>

definition payable_bid :: "order_t \<Rightarrow> user_t \<Rightarrow> int \<Rightarrow> tables \<Rightarrow> bool" where
  "payable_bid ord u n t \<longleftrightarrow> order_ints ord \<and> buyOrSell ord = BUY \<and> ord_userID ord = userID u \<and> affordable ord u \<and>
     (\<forall>m \<in> set (orders t). \<not> fills m ord) \<and> order_cost ord = Some n \<and> in_int32 (OMG u - n)"

lemma add_order_frame [simp]: "created (add_order ts i b q p uid t) = created t"
  "order_seq (add_order ts i b q p uid t) = order_seq t + 1" "users (add_order ts i b q p uid t) = users t"
  "fk_ok (add_order ts i b q p uid t) k = fk_ok t k"
  by (simp_all add: add_order_def fk_ok_def user_ids_def)

context sqlite_healthy
begin

lemma overlapping_insertion:
  assumes wf: "wf_conn c" and small: "ids_small (db c)" and made: "created (db c)"
    and u: "u \<in> set (users (db c))"
    and other: "\<And>cx. db cx = db c \<Longrightarrow> \<exists>cy. buy E (Some other) cx = (Inr 0, cy) \<and> placed other (db c) (db cy)"
    and ord: "buyOrSell ord = BUY" "ord_userID ord = userID u" "order_cost ord = Some n" "n \<le> OMG u" "in_int32 (OMG u - n)"
  shows "\<exists>c' ts t1. insert_order (interrupted E (order_seq (db c)) other) ord c = (Inr 0, c') \<and> placed other (db c) t1 \<and>
    db c' = set_user (u\<lparr>OMG := OMG u - n\<rparr>) (add_order ts (item ord) BUY (quantity ord) (unitPrice ord) (userID u) t1)"
proof -
  define q where "q = Insert_Order (item ord) (buyOrSell ord) (quantity ord) (unitPrice ord) (ord_userID ord)"
  have uid: "in_int32 (userID u)" using wf_small_ids(1)[OF wf small u] .
  obtain c1 where c1: "get_user E (userID u) c = (Inr (Inr u), c1)" "db c1 = db c"
    by (rule get_user_healthy[OF wf made u refl uid])
  obtain c2 where c2: "buy E (Some other) c1 = (Inr 0, c2)" "placed other (db c) (db c2)" using other c1(2) by blast
  have t2: "created (db c2)" "order_seq (db c2) = order_seq (db c) + 1" "fk_ok (db c2) (userID u)"
    using c2(2) made get_user_fk[OF wf u] by (auto simp: placed_def)
  obtain c3 where c3: "sql_prepare E q c2 = (Inr SQLITE_OK, c3)" "db c3 = db c2"
    using prepare_healthy[of c2 q] t2(1) by auto
  have "unitPrice ord \<noteq> NaN" using ord(3) by (auto simp: order_cost_def of_cint_def)
  then have "\<exists>all t'. sql_meaning (db c3) q all t'"
    using t2 small ord(2) by (auto simp: q_def c3(2) ids_small_def max_rowid_def)
  then obtain rows c4 where c4: "sql_run E q c3 = (Inr (rows, SQLITE_DONE), c4)" "sql_meaning (db c3) q rows (db c4)"
    by (rule run_healthy)
  then obtain ts where ts: "db c4 = add_order ts (item ord) BUY (quantity ord) (unitPrice ord) (userID u) (db c2)"
    using ord(1,2) by (auto simp: q_def c3(2))
  then have "created (db c4)" using t2(1) by simp
  then obtain c5 where c5: "update_user_balance E (u\<lparr>OMG := OMG u - n\<rparr>) c4 = (Inr 0, c5)"
    "db c5 = set_user (u\<lparr>OMG := OMG u - n\<rparr>) (db c4)"
    unfolding set_user_def by (rule update_user_balance_healthy)
  have lock: "lock ord = Some (COIN_OMG, n)" "n \<le> coins COIN_OMG u" "in_int32 (coins COIN_OMG u - n)"
    "gain COIN_OMG (- n) u = u\<lparr>OMG := OMG u - n\<rparr>" using ord by (simp_all add: lock_def coins_def gain_def)
  have side: "buyOrSell ord \<in> {BUY, SELL}" using ord(1) by simp
  have "sql_prepare (interrupted E (order_seq (db c)) other) q c1 = (Inr SQLITE_OK, c3)"
    using c2(1) c3(1) c1(2) by (simp add: q_def)
  then have "insert_order (interrupted E (order_seq (db c)) other) ord c = (Inr 0, c5)"
    unfolding insert_order_def Let_def q_def[symmetric]
    using c1 c4 c5 by (simp add: cbind_done ord(2) insert_check_ok[OF lock(1,2) side] insert_deduct_ok_run[OF lock(1,3) side] lock(4))
  with c2(2) c5(2) ts show ?thesis by auto
qed

lemma payable_bid_rests:
  assumes "wf_conn c" and "ids_small (db c)" and "created (db c)" and "u \<in> set (users (db c))" and "payable_bid ord u n (db c)"
  shows "\<exists>c'. buy E (Some ord) c = (Inr 0, c') \<and> placed ord (db c) (db c')"
  using buy_rests_account[of c ord u n] assms by (auto simp: payable_bid_def)

lemma overlapping_bids:
  assumes wf: "wf_conn c" and small: "ids_small (db c)" and made: "created (db c)" and u: "u \<in> set (users (db c))"
    and other: "payable_bid other u k (db c)" and payable: "payable_bid ord u n (db c)"
  shows "\<exists>c' ts t1. buy (interrupted E (order_seq (db c)) other) (Some ord) c = (Inr 0, c') \<and> placed other (db c) t1 \<and>
    db c' = set_user (u\<lparr>OMG := OMG u - n\<rparr>) (add_order ts (item ord) BUY (quantity ord) (unitPrice ord) (userID u) t1)"
proof -
  have ord: "buyOrSell ord = BUY" "ord_userID ord = userID u" "affordable ord u"
    "\<forall>m \<in> set (orders (db c)). \<not> fills m ord" "order_cost ord = Some n" "in_int32 (OMG u - n)"
    using payable by (simp_all add: payable_bid_def)
  have uid: "in_int32 (userID u)" using wf_small_ids(1)[OF wf small u] .
  obtain c1 where c1: "get_user E (userID u) c = (Inr (Inr u), c1)" "db c1 = db c"
    by (rule get_user_healthy[OF wf made u refl uid])
  obtain j c2 where c2: "find_matching_sell E ord c1 = (Inr j, c2)" "db c2 = db c"
    "oldest_of (matching_sells (db c) (item ord) (unitPrice ord) (ord_userID ord)) j"
    using find_matching_sell_healthy[of c1 ord] c1(2) wf small made by metis
  have j: "j = - 1" using oldest_of_none[OF c2(3)] set_matching_sells[OF ord(1)] ord(4) by auto
  have "\<exists>cy. buy E (Some other) cx = (Inr 0, cy) \<and> placed other (db c) (db cy)" if "db cx = db c" for cx
    using payable_bid_rests[of cx] that wf small made u other by auto
  then obtain c' ts t1 where c': "insert_order (interrupted E (order_seq (db c)) other) ord c2 = (Inr 0, c')"
    "placed other (db c) t1"
    "db c' = set_user (u\<lparr>OMG := OMG u - n\<rparr>) (add_order ts (item ord) BUY (quantity ord) (unitPrice ord) (userID u) t1)"
    using overlapping_insertion[of c2 u other ord n] c2(2) wf small made u ord affordable_cost[OF ord(3,1,5)] by auto
  have "\<not> dlt (of_cint (OMG u)) (dmul (of_cint (quantity ord)) (unitPrice ord))" using ord(1,3) by (simp add: affordable_def)
  then have "buy (interrupted E (order_seq (db c)) other) (Some ord) c = (Inr 0, c')"
    unfolding buy_def using c1 c2 c'(1) by (simp add: cbind_done ord(2) j)
  with c'(2,3) show ?thesis by blast
qed

end

lemma numbered_order: "r\<lparr>orderID := k, created_at := ts\<rparr> = \<lparr>orderID = k, item = item r, buyOrSell = buyOrSell r,
    quantity = quantity r, ord_userID = ord_userID r, unitPrice = unitPrice r, created_at = ts\<rparr>"
  by (cases r) simp

text \<open>What is left in the tables: one of the two payments, and both orders.\<close>

lemma overlapped_tables:
  assumes "placed other t t1" and t': "t' = set_user (u\<lparr>OMG := OMG u - n\<rparr>) (add_order ts (item ord) BUY (quantity ord) (unitPrice ord) (userID u) t1)"
    and keys: "keys_ok t" and u: "u \<in> set (users t)" and bids: "payable_bid other u k t" "payable_bid ord u n t"
  shows "acct (market_of t') (userID u) = Some (u\<lparr>OMG := OMG u - n\<rparr>)"
    and "\<exists>ts ts'. orders t' = orders t @ [other\<lparr>orderID := order_seq t + 1, created_at := Some ts\<rparr>,
      ord\<lparr>orderID := order_seq t + 2, created_at := Some ts'\<rparr>]"
    and "coin_supply COIN_OMG t' = coin_supply COIN_OMG t + k"
proof -
  have other: "buyOrSell other = BUY" "ord_userID other = userID u" "order_cost other = Some k"
    and ord: "buyOrSell ord = BUY" "ord_userID ord = userID u" "order_cost ord = Some n"
    using bids by (simp_all add: payable_bid_def)
  have lock: "lock other = Some (COIN_OMG, k)" "lock ord = Some (COIN_OMG, n)" using other ord by (simp_all add: lock_def)
  obtain w ts1 where w: "w \<in> set (users t)" "userID w = userID u"
    and t1: "t1 = set_user (gain COIN_OMG (- k) w) (add_order ts1 (item other) BUY (quantity other) (unitPrice other) (userID u) t)"
    using assms(1) other lock(1) by (auto simp: placed_def)
  have "w = u" using w u keys by (auto simp: keys_ok_def keyed_def intro: distinct_key_unique[of userID])
  then have t1: "t1 = set_user (u\<lparr>OMG := OMG u - k\<rparr>) (add_order ts1 (item other) BUY (quantity other) (unitPrice other) (userID u) t)"
    using t1 by (simp add: gain_def)
  have k1: "keys_ok t1" unfolding t1 by (intro keys_ok_set_user keys_ok_add_order keys)
  let ?u1 = "u\<lparr>OMG := OMG u - k\<rparr>" and ?t2 = "add_order ts (item ord) BUY (quantity ord) (unitPrice ord) (userID u) t1"
  have u1: "?u1 \<in> set (users ?t2)" using set_user_in[of u _ ?u1] u by (simp add: t1 credentials_def)
  have k2: "keys_ok ?t2" by (intro keys_ok_add_order k1)
  show "acct (market_of t') (userID u) = Some (u\<lparr>OMG := OMG u - n\<rparr>)"
    using u1 k2 set_user_in[OF u1, of "u\<lparr>OMG := OMG u - n\<rparr>"] by (simp add: t' acct_iff keys_ok_set_user credentials_def)
  show "\<exists>ts ts'. orders t' = orders t @ [other\<lparr>orderID := order_seq t + 1, created_at := Some ts\<rparr>,
      ord\<lparr>orderID := order_seq t + 2, created_at := Some ts'\<rparr>]"
    by (intro exI[of _ ts1] exI[of _ ts]) (simp add: t' t1 add_order_def numbered_order other ord)
  have "coin_supply COIN_OMG t' = coin_supply COIN_OMG ?t2 + (OMG u - n) - (OMG u - k)"
    using supply_set_user[OF k2 u1, of "u\<lparr>OMG := OMG u - n\<rparr>" COIN_OMG] by (simp add: t' coins_0)
  also have "coin_supply COIN_OMG ?t2 = coin_supply COIN_OMG t1 + n"
    using lock(2) ord(1) by (simp add: supply_add_order locked_def lock_def order_cost_def)
  finally show "coin_supply COIN_OMG t' = coin_supply COIN_OMG t + k" using placed_supply[OF assms(1) keys] by simp
qed

text \<open>Bob has 10000 OMG and bids 7 OMG for each of 1000 ETH at either window.\<close>

definition rival :: order_t where
  "rival = bob_order COIN_ETH BUY 1000 7"

definition racing_platform :: "string platform" where
  "racing_platform = interrupted ref_platform 2 rival"

lemma rival_payable: "payable_bid rival bob 7000 shop"
  by (auto simp: payable_bid_def rival_def sample_defs order_ints_def affordable_def fills_def order_cost_def arith_defs)

interpretation racing: sqlite_shared racing_platform
  unfolding racing_platform_def
  by (rule ref.interrupted_shared) (use rival_payable in \<open>simp add: payable_bid_def\<close>)

end
