(* ===== verification/Arrivals.thy ===== *)
theory Arrivals
  imports Logins
begin

text \<open>
  Getting in: on an engine that works and a client that takes every message, who types a user name and
  the password that belongs to it is logged in, and who registers a free name has an account
  afterwards and can log in. An empty line as an answer is a write in front of the buffer.
\<close>

section \<open>Talking to an open client\<close>

lemma tell_open: "open_stream (comm s) \<Longrightarrow> tell msg s = (Inr (), s\<lparr>comm := sends [msg] (comm s)\<rparr>)"
  by (simp add: zoom_def)

lemma get_line_open: "inp (comm s) = l # ls \<Longrightarrow>
    on_comm get_line s = (Inr l, s\<lparr>comm := (comm s)\<lparr>inp := ls, eof := \<not> ends_line l\<rparr>\<rparr>)"
  by (simp add: zoom_def)

text \<open>What a program does to a session, apart from its output.\<close>

definition moves_on :: "tables \<Rightarrow> string list \<Rightarrow> 'w session \<Rightarrow> bool" where
  "moves_on t ls s \<longleftrightarrow> db (conn s) = t \<and> inp (comm s) = ls \<and> open_stream (comm s)"

lemma moves_on_tell:
  assumes "moves_on t ls s"
  obtains s' where "tell msg s = (Inr (), s')" and "moves_on t ls s'"
  using assms tell_open[of s msg] by (auto simp: moves_on_def)

lemma moves_on_put_ignored:
  assumes "moves_on t ls s"
  obtains s' where "on_comm (put_ignored msg) s = (Inr (), s')" and "moves_on t ls s'"
  using assms by (auto simp: moves_on_def zoom_def)

lemma moves_on_get_line:
  assumes "moves_on t (l # ls) s"
  obtains s' where "on_comm get_line s = (Inr l, s')" and "moves_on t ls s'"
  using assms get_line_open[of s l ls] by (auto simp: moves_on_def open_stream_def)

lemma moves_on_ask:
  assumes "moves_on t (l # ls) s" and "strip_newline l = Some x"
  obtains s' where "ask prompt s = (Inr x, s')" and "moves_on t ls s'"
proof -
  obtain s1 where s1: "tell prompt s = (Inr (), s1)" "moves_on t (l # ls) s1" using moves_on_tell[OF assms(1)] .
  obtain s2 where s2: "on_comm get_line s1 = (Inr l, s2)" "moves_on t ls s2" using moves_on_get_line[OF s1(2)] .
  have "ask prompt s = (Inr x, s2)" by (simp del: append.simps add: cbind_def ask_def s1(1) s2(1) assms(2))
  with s2(2) that show thesis by blast
qed

lemma blank_answer:
  assumes "moves_on t ([LF] # ls) s"
  shows "fst (ask prompt s) = Inl Out_Of_Bounds"
proof -
  obtain s1 where s1: "tell prompt s = (Inr (), s1)" "moves_on t ([LF] # ls) s1" using moves_on_tell[OF assms] .
  obtain s2 where s2: "on_comm get_line s1 = (Inr [LF], s2)" "moves_on t ls s2" using moves_on_get_line[OF s1(2)] .
  have "ask prompt s = (Inl Out_Of_Bounds, s2)"
    by (simp del: append.simps add: cbind_def ask_def s1(1) s2(1) strip_newline_empty)
  then show ?thesis by simp
qed

text \<open>An empty line as the first answer of a registration is undefined behaviour, on any engine.\<close>

lemma register_user_blank:
  assumes "open_stream (comm s)" and "inp (comm s) = [LF] # ls"
  shows "fst (register_user E s) = Inl Out_Of_Bounds"
proof -
  have "moves_on (db (conn s)) ([LF] # ls) s" using assms by (simp add: moves_on_def)
  from blank_answer[OF this, of "''Please enter a username: '' @ CRLF"] show ?thesis
    by (auto simp: register_user_def cbind_def split: prod.split sum.split)
qed

text \<open>The end of the input shows after the last line that was read, if that line has no newline.\<close>

lemma ask_eof: "ask prompt s = (Inr x, s') \<Longrightarrow> inp (comm s) = l # ls \<Longrightarrow> eof (comm s') = (\<not> ends_line l)"
  unfolding ask_def
  by (auto elim!: cbindE simp: of_option_Inr_iff comm.zoom_Inr_iff get_line_def dest!: put_line_inp split: list.split_asm)

lemma put_ignored_eof: "on_comm (put_ignored msg) s = (r, s') \<Longrightarrow> eof (comm s') = eof (comm s)"
  by (auto simp: zoom_def put_ignored_def send_def cbind_def ret_def split: prod.split_asm if_split_asm)

context sqlite_engine
begin

lemma dump_table_total: "\<exists>out c'. dump_table E title cols q c = (Inr out, c')"
  by (auto simp: dump_table_def cbind_def sql_prepare_def sql_run_def ret_def Let_def split: prod.splits)

lemma dump_total: "\<exists>s'. dump E s = (Inr (), s')"
proof -
  obtain a c1 where a: "dump_table E ''Users'' user_columns Dump_Users (conn s) = (Inr a, c1)"
    using dump_table_total by blast
  obtain b c2 where b: "dump_table E ''Orders'' order_columns Dump_Orders c1 = (Inr b, c2)"
    using dump_table_total by blast
  obtain d c3 where d: "dump_table E ''Archives'' order_columns Dump_Archives c2 = (Inr d, c3)"
    using dump_table_total by blast
  have "dump_database E (conn s) = (Inr (a @ b @ d), c3)"
    by (simp del: append.simps add: cbind_def dump_database_def a b d)
  then show ?thesis by (simp add: dump_def cbind_def zoom_def print_def)
qed

lemma moves_on_dump:
  assumes "moves_on t ls s"
  obtains s' where "dump E s = (Inr (), s')" and "moves_on t ls s'"
proof -
  obtain s' where run: "dump E s = (Inr (), s')" using dump_total by blast
  with dump_frame[OF run] assms that show thesis by (simp add: moves_on_def)
qed

end

section \<open>Logging in\<close>

context sqlite_healthy
begin

lemma get_user_with_username_healthy:
  assumes "wf_conn c" and "ids_small (db c)" and "created (db c)" and "u \<in> set (users (db c))"
  obtains c' where "get_user_with_username E (username u) c = (Inr (Inr u), c')" and "db c' = db c"
proof (rule one_row_healthy[of c "Select_User_By_Name (username u)" user_row "Some u" read_user])
  have "filter (\<lambda>v. username v = username u) (users (db c)) = [u]"
    using assms(1,4) by (auto simp: wf_db_def intro: filter_key_singleton)
  then show "t' = db c \<and> rows = map user_row (case Some u of None \<Rightarrow> [] | Some x \<Rightarrow> [x])"
    if "sql_meaning (db c) (Select_User_By_Name (username u)) rows t'" for rows t'
    using that by simp
qed (use assms that enabled_reads[of "db c" "Select_User_By_Name (username u)"] in
    \<open>auto simp: get_user_with_username_def get_user_by_username_def Let_def wf_user_rowD wf_small_ids
      cong del: if_weak_cong\<close>)

lemma authenticate_succeeds:
  assumes wf: "wf_db t" "ids_small t" "created t" and u: "u \<in> set (users t)" and s: "moves_on t (l1 # l2 # ls) s"
    and l: "strip_newline l1 = Some (username u)" "strip_newline l2 = Some (password u)"
  obtains s' where "authenticate E s = (Inr (userID u), s')" and "moves_on t ls s'" and "eof (comm s') = (\<not> ends_line l2)"
proof -
  obtain s1 where s1: "dump E s = (Inr (), s1)" "moves_on t (l1 # l2 # ls) s1" using moves_on_dump[OF s] .
  obtain s2 where s2: "ask (''Username: '' @ CRLF) s1 = (Inr (username u), s2)" "moves_on t (l2 # ls) s2"
    using moves_on_ask[OF s1(2) l(1)] .
  have t: "db (conn s2) = t" using s2(2) by (simp add: moves_on_def)
  obtain c3 where c3: "get_user_with_username E (username u) (conn s2) = (Inr (Inr u), c3)" "db c3 = t"
    using get_user_with_username_healthy[of "conn s2" u] wf u t by metis
  then have s3: "on_db (get_user_with_username E (username u)) s2 = (Inr (Inr u), s2\<lparr>conn := c3\<rparr>)"
    by (simp add: zoom_def)
  have "moves_on t (l2 # ls) (s2\<lparr>conn := c3\<rparr>)" using s2(2) c3(2) by (simp add: moves_on_def)
  then obtain s4 where s4: "ask (''Password: '' @ CRLF) (s2\<lparr>conn := c3\<rparr>) = (Inr (password u), s4)" "moves_on t ls s4"
    by (rule moves_on_ask[OF _ l(2)])
  obtain s5 where s5: "on_comm (put_ignored (''Welcome back, '' @ name u @ CRLF)) s4 = (Inr (), s5)" "moves_on t ls s5"
    using moves_on_put_ignored[OF s4(2)] .
  have e: "eof (comm s5) = (\<not> ends_line l2)"
    using ask_eof[OF s4(1)] s2(2) put_ignored_eof[OF s5(1)] by (simp add: moves_on_def)
  have "authenticate_round E s = (Inr (Some (userID u)), s5)"
    unfolding authenticate_round_def
    by (simp del: append.simps add: cbind_def s1(1) s2(1) s3 s4(1) s5(1))
  then have "authenticate E s = (Inr (userID u), s5)" by (subst authenticate.simps) (simp add: cbind_done)
  with s5(2) e that show thesis by blast
qed

lemma login_succeeds:
  assumes wf: "wf_db t" "ids_small t" "created t" and u: "u \<in> set (users t)"
    and s: "moves_on t ((CHR ''u'' # rest) # l1 # l2 # ls) s"
    and l: "strip_newline l1 = Some (username u)" "strip_newline l2 = Some (password u)"
  obtains s' where "login E uid 0 s = (Inr (userID u), s')" and "moves_on t ls s'" and "eof (comm s') = (\<not> ends_line l2)"
proof -
  obtain s1 where s1: "tell (''Welcome to OMG. \"r\" to register, and \"u\" for existing users '' @ CRLF) s = (Inr (), s1)"
    "moves_on t ((CHR ''u'' # rest) # l1 # l2 # ls) s1" using moves_on_tell[OF s] .
  obtain s2 where s2: "on_comm get_line s1 = (Inr (CHR ''u'' # rest), s2)" "moves_on t (l1 # l2 # ls) s2"
    using moves_on_get_line[OF s1(2)] .
  obtain s3 where s3: "authenticate E s2 = (Inr (userID u), s3)" "moves_on t ls s3" "eof (comm s3) = (\<not> ends_line l2)"
    using authenticate_succeeds[OF wf u s2(2) l] .
  have "login_round E uid 0 s = (Inr (userID u, 1), s3)"
    unfolding login_round_def by (simp add: cbind_def s1(1) s2(1) s3(1) del: append.simps)
  moreover have "0 < userID u" using wf(1) u by (auto simp: wf_db_def keyed_def)
  then have "login E (userID u) 1 s3 = (Inr (userID u), s3)" by (subst login.simps) simp
  ultimately have "login E uid 0 s = (Inr (userID u), s3)" by (subst login.simps) (simp add: cbind_done)
  with s3(2,3) that show thesis by blast
qed

end

section \<open>Registering\<close>

context sqlite_healthy
begin

lemma insert_user_healthy:
  assumes "created (db c)" and "username u \<notin> username ` set (users (db c))" and "user_seq (db c) < max_rowid"
  obtains c' where "insert_user E u c = (Inr (Inr (wrap32 (user_seq (db c) + 1))), c')"
    and "db c' = add_user (username u) (password u) (name u) (OMG u) (DOGE u) (BTC u) (ETH u) (db c)"
proof -
  define q where "q = Insert_User (username u) (password u) (name u) (OMG u) (DOGE u) (BTC u) (ETH u)"
  obtain c1 where p: "sql_prepare E q c = (Inr SQLITE_OK, c1)" "db c1 = db c" using prepare_healthy assms(1) by blast
  have "\<exists>all t'. sql_meaning (db c1) q all t'" using assms p(2) by (simp add: q_def)
  then obtain rows c2 where run: "sql_run E q c1 = (Inr (rows, SQLITE_DONE), c2)" "sql_meaning (db c1) q rows (db c2)"
    by (rule run_healthy)
  then have c2: "db c2 = add_user (username u) (password u) (name u) (OMG u) (DOGE u) (BTC u) (ETH u) (db c)"
    using p(2) by (simp add: q_def)
  have "last_rowid E c2 = user_seq (db c2)"
    using run(1) rowid by (auto simp: sql_run_def q_def split: prod.split_asm)
  then have "insert_user E u c = (Inr (Inr (wrap32 (user_seq (db c2)))), c2)"
    unfolding insert_user_def Let_def q_def[symmetric] binds_ret cbind_ret
    by (simp del: append.simps add: cbind_def p(1) run(1) sql_last_rowid_def ret_def)
  with c2 that show thesis by (simp add: add_user_def)
qed

lemma register_user_succeeds:
  assumes made: "created t" and free: "un \<notin> username ` set (users t)" and room: "user_seq t < 2 ^ 31 - 1" "0 \<le> user_seq t"
    and s: "moves_on t (l1 # l2 # l3 # ls) s"
    and l: "strip_newline l1 = Some un" "strip_newline l2 = Some nm" "strip_newline l3 = Some pw"
  obtains s' where "register_user E s = (Inr (user_seq t + 1), s')"
    and "moves_on (add_user un pw nm DEFAULT_OMG DEFAULT_DOGE DEFAULT_BTC DEFAULT_ETH t) ls s'"
proof -
  define u where "u = \<lparr>userID = 0, username = un, password = pw, name = nm, OMG = DEFAULT_OMG,
       DOGE = DEFAULT_DOGE, BTC = DEFAULT_BTC, ETH = DEFAULT_ETH\<rparr>"
  let ?t' = "add_user un pw nm DEFAULT_OMG DEFAULT_DOGE DEFAULT_BTC DEFAULT_ETH t"
  obtain s1 where s1: "ask (''Please enter a username: '' @ CRLF) s = (Inr un, s1)" "moves_on t (l2 # l3 # ls) s1"
    using moves_on_ask[OF s l(1)] .
  obtain s2 where s2: "ask (''Please enter your name (for display purposes): '' @ CRLF) s1 = (Inr nm, s2)"
    "moves_on t (l3 # ls) s2" using moves_on_ask[OF s1(2) l(2)] .
  obtain s3 where s3: "ask (''Please enter a password: '' @ CRLF) s2 = (Inr pw, s3)" "moves_on t ls s3"
    using moves_on_ask[OF s2(2) l(3)] .
  have t: "db (conn s3) = t" using s3(2) by (simp add: moves_on_def)
  have "user_seq t < max_rowid" using room by (simp add: max_rowid_def)
  then obtain c4 where c4: "insert_user E u (conn s3) = (Inr (Inr (wrap32 (user_seq t + 1))), c4)" "db c4 = ?t'"
    using insert_user_healthy[of "conn s3" u] made free t by (auto simp: u_def)
  have "wrap32 (user_seq t + 1) = user_seq t + 1" using room by (intro wrap32_id) (simp add: in_int32_def)
  then have s4: "on_db (insert_user E u) s3 = (Inr (Inr (user_seq t + 1)), s3\<lparr>conn := c4\<rparr>)"
    using c4(1) by (simp add: zoom_def)
  have "moves_on ?t' ls (s3\<lparr>conn := c4\<rparr>)" using s3(2) c4(2) by (simp add: moves_on_def)
  then obtain s5 where s5: "tell (''Registration successful! You can now log in.'' @ CRLF) (s3\<lparr>conn := c4\<rparr>) = (Inr (), s5)"
    "moves_on ?t' ls s5" by (rule moves_on_tell)
  have "register_user E s = (Inr (user_seq t + 1), s5)"
    unfolding register_user_def Let_def
    by (simp add: cbind_def s1(1) s2(1) s3(1) s4[unfolded u_def] s5(1) del: append.simps)
  with s5(2) that show thesis by blast
qed

text \<open>A newcomer registers and logs in with the answers given before.\<close>

lemma newcomer_login:
  assumes wf: "wf_db t" "created t" "order_seq t < 2 ^ 31" "archive_seq t < 2 ^ 31"
    and free: "un \<notin> username ` set (users t)" and room: "user_seq t < 2 ^ 31 - 1"
    and s: "moves_on t ((CHR ''r'' # rest) # l1 # l2 # l3 # (CHR ''u'' # rest') # l4 # l5 # ls) s"
    and l: "strip_newline l1 = Some un" "strip_newline l2 = Some nm" "strip_newline l3 = Some pw"
      "strip_newline l4 = Some un" "strip_newline l5 = Some pw"
  obtains s' where "login E (- 1) 0 s = (Inr (user_seq t + 1), s')"
    and "moves_on (add_user un pw nm DEFAULT_OMG DEFAULT_DOGE DEFAULT_BTC DEFAULT_ETH t) ls s'"
    and "eof (comm s') = (\<not> ends_line l5)"
proof -
  let ?t = "add_user un pw nm DEFAULT_OMG DEFAULT_DOGE DEFAULT_BTC DEFAULT_ETH t"
  let ?u = "\<lparr>userID = user_seq t + 1, username = un, password = pw, name = nm, OMG = DEFAULT_OMG,
    DOGE = DEFAULT_DOGE, BTC = DEFAULT_BTC, ETH = DEFAULT_ETH\<rparr>"
  obtain s1 where s1: "tell (''Welcome to OMG. \"r\" to register, and \"u\" for existing users '' @ CRLF) s = (Inr (), s1)"
    "moves_on t ((CHR ''r'' # rest) # l1 # l2 # l3 # (CHR ''u'' # rest') # l4 # l5 # ls) s1" using moves_on_tell[OF s] .
  obtain s2 where s2: "on_comm get_line s1 = (Inr (CHR ''r'' # rest), s2)"
    "moves_on t (l1 # l2 # l3 # (CHR ''u'' # rest') # l4 # l5 # ls) s2"
    using moves_on_get_line[OF s1(2)] .
  have seq: "0 \<le> user_seq t" using wf(1) by (simp add: wf_db_def keyed_def)
  obtain s3 where s3: "register_user E s2 = (Inr (user_seq t + 1), s3)" "moves_on ?t ((CHR ''u'' # rest') # l4 # l5 # ls) s3"
    by (rule register_user_succeeds[OF wf(2) free room seq s2(2) l(1-3)])
  have "wf_db ?t"
    using keepsD[OF wf.keeps_register_user[OF shared] s3(1)] s2(2) s3(2) wf(1) by (simp add: moves_on_def)
  moreover have "ids_small ?t" "created ?t" "?u \<in> set (users ?t)"
    using wf room by (simp_all add: ids_small_def add_user_def)
  ultimately obtain s4 where s4: "login E (user_seq t + 1) 0 s3 = (Inr (user_seq t + 1), s4)" "moves_on ?t ls s4"
    "eof (comm s4) = (\<not> ends_line l5)"
    using login_succeeds[OF _ _ _ _ s3(2), of ?u "user_seq t + 1"] l(4,5) by auto
  have "login_round E (- 1) 0 s = (Inr (user_seq t + 1, 0), s3)"
    unfolding login_round_def by (simp add: cbind_def s1(1) s2(1) s3(1) ret_def del: append.simps)
  then have "login E (- 1) 0 s = (Inr (user_seq t + 1), s4)" by (subst login.simps) (simp add: cbind_done s4(1))
  with s4(2,3) that show thesis by blast
qed

end

end
