(* ===== verification/Handlers.thy ===== *)
theory Handlers
  imports Sessions Progress
begin

text \<open>
  Command lines from their text to the message that answers them: how a line is split and which
  handler it reaches, what order its words make, and which result of command.c becomes which message.
\<close>

section \<open>Words of a command\<close>

text \<open>A line reaches its handler with its words in the array.\<close>

lemma run_command_words:
  assumes "closed_words (c_str line) = w # ws" and "length line \<le> max_strings"
  obtains a where "sa_inv a" and "sa_list a = w # ws" and "sa_size a = Suc (length ws)"
    and "run_command E uid line =
      (if strcase_eq w ''myinventory'' then handle_my_inventory E uid
       else if strcase_eq w ''buy'' then handle_buy E uid a
       else if strcase_eq w ''sell'' then handle_sell E uid a
       else if strcase_eq w ''myorders'' then handle_my_orders E uid
       else if strcase_eq w ''cancelorder'' then handle_cancel_order E uid a
       else if strcase_eq w ''view'' then handle_view E uid a
       else if strcase_eq w ''help'' then handle_help
       else tell (''Invalid syntax! Try help. '' @ CRLF))"
proof -
  obtain a where a: "(tokenize_line line :: ('a session, _) prog) = ret a" "sa_inv a" "sa_list a = w # ws"
    using tokenize_line_ok[OF assms(2)] assms(1) by metis
  have n: "sa_size a = Suc (length ws)" using length_sa_list[OF a(2)] a(3) by simp
  have w: "(sa_get a 0 :: ('a session, _) prog) = ret w" using sa_get_ok[OF a(2), of 0] n a(3) by simp
  show thesis by (rule that[OF a(2,3) n]) (simp add: run_command_def a(1) n w cong: if_cong)
qed

lemma strcase_eq_trans: "strcase_eq w v \<Longrightarrow> strcase_eq w v' \<longleftrightarrow> strcase_eq v v'"
  by (simp add: strcase_eq_def)

lemma verbs_differ [simp]:
  "\<not> strcase_eq ''buy'' ''myinventory''" "\<not> strcase_eq ''sell'' ''myinventory''" "\<not> strcase_eq ''sell'' ''buy''"
  "\<not> strcase_eq ''cancelorder'' ''myinventory''" "\<not> strcase_eq ''cancelorder'' ''buy''"
  "\<not> strcase_eq ''cancelorder'' ''sell''" "\<not> strcase_eq ''cancelorder'' ''myorders''"
  "\<not> strcase_eq ''view'' ''myinventory''" "\<not> strcase_eq ''view'' ''buy''" "\<not> strcase_eq ''view'' ''sell''"
  "\<not> strcase_eq ''myorders'' ''myinventory''" "\<not> strcase_eq ''myorders'' ''buy''"
  "\<not> strcase_eq ''myorders'' ''sell''" "\<not> strcase_eq ''view'' ''myorders''" "\<not> strcase_eq ''view'' ''cancelorder''"
  by (auto simp: strcase_eq_def dest: arg_cong[where f = length])
     (simp_all add: tolower_def)

section \<open>Orders from commands\<close>

text \<open>The order that the words of \<open>buy item price quantity\<close> or \<open>sell item price quantity\<close> make.\<close>

definition order_of_words :: "order_t \<Rightarrow> string \<Rightarrow> int \<Rightarrow> string \<Rightarrow> string \<Rightarrow> int \<Rightarrow> order_t" where
  "order_of_words fresh verb i price amount uid = fresh\<lparr>unitPrice := fst (strtod price), item := i,
     buyOrSell := if strcase_eq verb ''buy'' then BUY else SELL,
     quantity := wrap32 (fst (strtol amount)), ord_userID := uid\<rparr>"

lemma four_words:
  assumes "sa_inv a" and "sa_list a = [verb, coin, price, amount]"
  shows "sa_size a = 4" and "sa_get a 0 = ret verb" and "sa_get a (Suc 0) = ret coin"
    and "sa_get a 2 = ret price" and "sa_get a 3 = ret amount"
proof -
  show n: "sa_size a = 4" using length_sa_list[OF assms(1)] assms(2) by simp
  show "sa_get a 0 = ret verb" "sa_get a (Suc 0) = ret coin" "sa_get a 2 = ret price" "sa_get a 3 = ret amount"
    using n assms by (simp_all add: sa_get_ok)
qed

lemma create_order_from_string_words:
  assumes "sa_inv a" and "sa_list a = [verb, coin, price, amount]" and "malloc_ok E c sizeof_order"
  shows "\<exists>msg. create_order_from_string E a uid c = (Inr (map_option (\<lambda>i.
    order_of_words (heap_order E c) verb i price amount uid) (COIN_of_string coin), msg), c)"
proof -
  have now: "cbind (alloc E sizeof_order) f c = f True c" "cbind (fresh_order E) g c = g (heap_order E c) c"
    for f :: "bool \<Rightarrow> ('a, 'b) dbprog" and g :: "order_t \<Rightarrow> ('a, 'b) dbprog"
    using assms(3) by (simp_all add: cbind_def alloc_def fresh_order_def)
  obtain p pe q qe where n: "strtod price = (p, pe)" "strtol amount = (q, qe)" by force
  show ?thesis
    by (cases "COIN_of_string coin")
      (simp_all add: create_order_from_string_def now four_words[OF assms(1,2)] n order_of_words_def Let_def)
qed

section \<open>Posting orders\<close>

lemma handle_buy_words:
  assumes "sa_inv a" and "sa_list a = [verb, coin, price, amount]" and "malloc_ok E (conn s) sizeof_order"
  shows "\<exists>msg. handle_buy E uid a s = cbind (print msg) (\<lambda>_.
    cbind (on_db (buy E (map_option (\<lambda>i. order_of_words (heap_order E (conn s)) verb i price amount uid)
      (COIN_of_string coin))))
    (\<lambda>res. tell (if res = - 1 then ''Can't create buy order!'' @ CRLF
      else ''Successfully created buy order!'' @ CRLF))) s"
proof -
  obtain msg where "create_order_from_string E a uid (conn s) = (Inr (map_option (\<lambda>i.
    order_of_words (heap_order E (conn s)) verb i price amount uid) (COIN_of_string coin), msg), conn s)"
    using create_order_from_string_words[OF assms] by blast
  then have "on_db (create_order_from_string E a uid) s = (Inr (map_option (\<lambda>i.
    order_of_words (heap_order E (conn s)) verb i price amount uid) (COIN_of_string coin), msg), s)"
    by (simp add: zoom_def)
  then show ?thesis
    using four_words(1)[OF assms(1,2)]
    by (auto simp: handle_buy_def validate_command_args_ok cbind_done if_distrib[of tell] cong: if_cong)
qed

lemma handle_sell_words:
  assumes "sa_inv a" and "sa_list a = [verb, coin, price, amount]" and "malloc_ok E (conn s) sizeof_order"
  shows "\<exists>msg. handle_sell E uid a s = cbind (print msg) (\<lambda>_.
    cbind (on_db (sell E (map_option (\<lambda>i. order_of_words (heap_order E (conn s)) verb i price amount uid)
      (COIN_of_string coin))))
    (\<lambda>res. tell (if res = - 1 then ''Can't create sell order!'' @ CRLF
      else ''Successfully created sell order!'' @ CRLF))) s"
proof -
  obtain msg where "create_order_from_string E a uid (conn s) = (Inr (map_option (\<lambda>i.
    order_of_words (heap_order E (conn s)) verb i price amount uid) (COIN_of_string coin), msg), conn s)"
    using create_order_from_string_words[OF assms] by blast
  then have "on_db (create_order_from_string E a uid) s = (Inr (map_option (\<lambda>i.
    order_of_words (heap_order E (conn s)) verb i price amount uid) (COIN_of_string coin), msg), s)"
    by (simp add: zoom_def)
  then show ?thesis
    using four_words(1)[OF assms(1,2)]
    by (auto simp: handle_sell_def validate_command_args_ok cbind_done if_distrib[of tell] cong: if_cong)
qed


text \<open>From the text of a command to the call of command.c and the message about its result.\<close>

lemma buy_command:
  assumes "closed_words (c_str line) = [verb, coin, price, amount]" and "length line \<le> max_strings"
    and "strcase_eq verb ''buy''" and "malloc_ok E (conn s) sizeof_order"
  shows "\<exists>msg. run_command E uid line s = cbind (print msg) (\<lambda>_.
    cbind (on_db (buy E (map_option (\<lambda>i. order_of_words (heap_order E (conn s)) verb i price amount uid)
      (COIN_of_string coin))))
    (\<lambda>res. tell (if res = - 1 then ''Can't create buy order!'' @ CRLF
      else ''Successfully created buy order!'' @ CRLF))) s"
proof -
  obtain a where a: "sa_inv a" "sa_list a = [verb, coin, price, amount]"
    and run: "run_command E uid line = handle_buy E uid a"
    by (rule run_command_words[OF assms(1,2), of E uid]) (simp add: strcase_eq_trans[OF assms(3)])
  show ?thesis unfolding run by (rule handle_buy_words[OF a assms(4)])
qed

lemma sell_command:
  assumes "closed_words (c_str line) = [verb, coin, price, amount]" and "length line \<le> max_strings"
    and "strcase_eq verb ''sell''" and "malloc_ok E (conn s) sizeof_order"
  shows "\<exists>msg. run_command E uid line s = cbind (print msg) (\<lambda>_.
    cbind (on_db (sell E (map_option (\<lambda>i. order_of_words (heap_order E (conn s)) verb i price amount uid)
      (COIN_of_string coin))))
    (\<lambda>res. tell (if res = - 1 then ''Can't create sell order!'' @ CRLF
      else ''Successfully created sell order!'' @ CRLF))) s"
proof -
  obtain a where a: "sa_inv a" "sa_list a = [verb, coin, price, amount]"
    and run: "run_command E uid line = handle_sell E uid a"
    by (rule run_command_words[OF assms(1,2), of E uid]) (simp add: strcase_eq_trans[OF assms(3)])
  show ?thesis unfolding run by (rule handle_sell_words[OF a assms(4)])
qed

text \<open>A coin that does not exist: the null pointer is passed on, and followed.\<close>

lemma null_order: "cbind (print msg) (\<lambda>_. cbind (on_db (buy E None)) f) s = (Inl Bad_Pointer, s\<lparr>console := console s @ msg\<rparr>)"
  "cbind (print msg) (\<lambda>_. cbind (on_db (sell E None)) f) s = (Inl Bad_Pointer, s\<lparr>console := console s @ msg\<rparr>)"
  by (simp_all add: buy_def sell_def cbind_def print_def stop_def)

lemma unknown_coin_command:
  assumes "closed_words (c_str line) = [verb, coin, price, amount]" and "length line \<le> max_strings"
    and "strcase_eq verb ''buy'' \<or> strcase_eq verb ''sell''" and "malloc_ok E (conn s) sizeof_order"
    and "COIN_of_string coin = None"
  shows "\<exists>msg. run_command E uid line s = (Inl Bad_Pointer, s\<lparr>console := console s @ msg\<rparr>)"
  using assms(3)
proof
  assume "strcase_eq verb ''buy''"
  from buy_command[OF assms(1,2) this assms(4)] show ?thesis by (simp add: assms(5) null_order)
next
  assume "strcase_eq verb ''sell''"
  from sell_command[OF assms(1,2) this assms(4)] show ?thesis by (simp add: assms(5) null_order)
qed

section \<open>Taking orders back\<close>

text \<open>An identifier as the lists print it is the identifier that is cancelled.\<close>

lemma cancel_command:
  assumes "closed_words (c_str line) = [verb, show_int k]" and "length line \<le> max_strings"
    and "strcase_eq verb ''cancelorder''" and "in_int32 k"
  shows "run_command E uid line = cbind (on_db (cancel_order E k uid)) (\<lambda>res.
    tell (if res \<noteq> 0 then ''Failed to cancel order!'' @ CRLF else ''Successfully cancelled order!'' @ CRLF))"
proof -
  obtain a where a: "sa_inv a" "sa_list a = [verb, show_int k]" "sa_size a = 2"
    and run: "run_command E uid line = handle_cancel_order E uid a"
    by (rule run_command_words[OF assms(1,2), of E uid]) (simp add: strcase_eq_trans[OF assms(3)] numeral_2_eq_2)
  have arg: "(sa_get a (Suc 0) :: ('a session, _) prog) = ret (show_int k)" using a by (simp add: sa_get_ok)
  have "strtol (show_int k) = (k, [])" using assms(4) by (intro strtol_show_int) (auto simp: in_int32_def)
  with arg a(3) assms(4) show ?thesis
    unfolding run by (simp add: handle_cancel_order_def validate_command_args_ok if_distrib[of tell] cong: if_cong)
qed

section \<open>Sell orders for OMG\<close>

context sqlite_healthy
begin

lemma sell_OMG_result:
  assumes wf: "wf_conn c" "ids_small (db c)" "created (db c)" and u: "u \<in> set (users (db c))"
    and ord: "buyOrSell ord = SELL" "item ord = COIN_OMG" "ord_userID ord = userID u"
    and unfilled: "\<forall>m \<in> set (orders (db c)). \<not> fills m ord"
  obtains res c' where "sell E (Some ord) c = (Inr res, c')" and "db c' = db c" and "res = - 1 \<longleftrightarrow> \<not> affordable ord u"
proof (cases "affordable ord u")
  case True
  obtain c' where "sell E (Some ord) c = (Inr SQLITE_ERROR, c')" "db c' = db c"
    by (rule sell_OMG_rejected[OF wf u _ ord(1) True unfilled ord(2)]) (use ord(3) in simp)
  with True that show thesis by simp
next
  case False
  have "in_int32 (ord_userID ord)" using wf_small_ids(1)[OF wf(1,2) u] ord(3) by simp
  moreover have "\<not> affordable ord v" if "v \<in> set (users (db c))" "userID v = ord_userID ord" for v
    using False that u ord(3) wf(1) by (metis distinct_key_unique keyed_def wf_db_def)
  ultimately show thesis using sell_refused[OF wf(1) _ ord(1)] False that by (metis surj_pair)
qed

lemma sell_OMG_command:
  assumes words: "closed_words (c_str line) = [verb, coin, price, amount]" "length line \<le> max_strings"
      "strcase_eq verb ''sell''" "strcase_eq coin ''omg''"
    and wf: "wf_conn (conn s)" "ids_small (db (conn s))" "created (db (conn s))" and op: "open_stream (comm s)"
    and u: "u \<in> set (users (db (conn s)))" "userID u = uid"
    and alone: "\<forall>m \<in> set (orders (db (conn s))). item m = COIN_OMG \<and> buyOrSell m = BUY \<and> ord_userID m \<noteq> uid \<longrightarrow>
      \<not> dle (fst (strtod price)) (unitPrice m)"
  shows "\<exists>s'. run_command E uid line s = (Inr (), s') \<and> db (conn s') = db (conn s) \<and>
    sent (comm s') = sent (comm s) @ [(if wrap32 (fst (strtol amount)) \<le> OMG u
      then ''Successfully created sell order!'' else ''Can't create sell order!'') @ CRLF]"
proof -
  let ?ord = "order_of_words (heap_order E (conn s)) verb COIN_OMG price amount uid"
  have coin: "COIN_of_string coin = Some COIN_OMG" using words(4) by (simp add: COIN_of_string_def)
  obtain msg where run: "run_command E uid line s = cbind (print msg) (\<lambda>_. cbind (on_db (sell E (Some ?ord)))
    (\<lambda>res. tell (if res = - 1 then ''Can't create sell order!'' @ CRLF
      else ''Successfully created sell order!'' @ CRLF))) s"
    using sell_command[OF words(1-3) allocates] coin by auto
  have ord: "buyOrSell ?ord = SELL" "item ?ord = COIN_OMG" "ord_userID ?ord = userID u"
    using words(3) u(2) by (auto simp: order_of_words_def strcase_eq_trans)
  have aff: "affordable ?ord u \<longleftrightarrow> wrap32 (fst (strtol amount)) \<le> OMG u"
    using ord by (simp add: affordable_def coins_def) (simp add: order_of_words_def)
  have unfilled: "\<forall>m \<in> set (orders (db (conn s))). \<not> fills m ?ord"
    using alone ord u(2) by (auto simp: fills_def) (simp add: order_of_words_def)
  obtain res c' where c': "sell E (Some ?ord) (conn s) = (Inr res, c')" "db c' = db (conn s)"
    "res = - 1 \<longleftrightarrow> \<not> affordable ?ord u" by (rule sell_OMG_result[OF wf u(1) ord unfilled])
  then have "on_db (sell E (Some ?ord)) (s\<lparr>console := console s @ msg\<rparr>) = (Inr res, s\<lparr>console := console s @ msg, conn := c'\<rparr>)"
    by (simp add: zoom_def)
  then have "run_command E uid line s = tell (if res = - 1 then ''Can't create sell order!'' @ CRLF
      else ''Successfully created sell order!'' @ CRLF) (s\<lparr>console := console s @ msg, conn := c'\<rparr>)"
    unfolding run by (simp add: cbind_def print_def)
  then show ?thesis using op c'(2,3) aff by (auto simp: zoom_def)
qed

end

end
