(* ===== verification/Transcripts.thy ===== *)
theory Transcripts
  imports Listings Handlers
begin

text \<open>
  What the client sees of the commands that look: the text of the answers to \<open>view\<close>, \<open>myOrders\<close> and
  \<open>myInventory\<close>, message by message put together, on an engine that works and a client that takes
  every message. The texts are defined by row number, as the columns are read, not by the loops.
\<close>

section \<open>The table of view\<close>

definition view_row_text :: "order_t list \<Rightarrow> order_t list \<Rightarrow> nat \<Rightarrow> string" where
  "view_row_text buys sells i =
     pad_right 30 (if i < length buys then price_quantity (buys ! i) else []) @ '' | '' @
     (if i < length sells then price_quantity (sells ! i) else []) @ CRLF"

definition view_text :: "order_t list \<Rightarrow> order_t list \<Rightarrow> string" where
  "view_text buys sells = replicate 52 (CHR ''-'') @ CRLF @ pad_right 30 ''Buy Orders'' @ '' | Sell Orders'' @ CRLF @
     concat (map (view_row_text buys sells) [0..<max (length buys) (length sells)])"

lemma rows_shift:
  assumes "\<And>i. f (Suc i) = g i"
  shows "concat (map f [0..<Suc n]) = f 0 @ concat (map g [0..<n])"
  using assms by (simp add: upt_conv_Cons map_Suc_upt[symmetric] comp_def del: upt_Suc)

lemma view_rows_open:
  "open_stream c \<Longrightarrow> \<exists>ms. view_rows bs ss c = (Inr (), sends ms c) \<and>
    concat ms = concat (map (view_row_text bs ss) [0..<max (length bs) (length ss)])"
proof (induction bs ss arbitrary: c rule: view_rows.induct)
  case 1
  show ?case by (auto simp: ret_def intro: exI[of _ "[]"])
next
  case (2 b bs)
  let ?ms = "[pad_right 30 (price_quantity b), '' | '', CRLF]"
  obtain ms where "view_rows bs [] (sends ?ms c) = (Inr (), sends ms (sends ?ms c))"
    "concat ms = concat (map (view_row_text bs []) [0..<length bs])"
    using 2(1)[of "sends ?ms c"] 2(2) by auto
  then show ?case using 2(2)
    by (auto intro!: exI[of _ "?ms @ ms"] simp: cbind_def rows_shift[where g = "view_row_text bs []"]
        view_row_text_def simp del: put_lines.simps upt_Suc)
next
  case (3 s ss)
  let ?ms = "[pad_right 30 [], '' | '', price_quantity s, CRLF]"
  obtain ms where "view_rows [] ss (sends ?ms c) = (Inr (), sends ms (sends ?ms c))"
    "concat ms = concat (map (view_row_text [] ss) [0..<length ss])"
    using 3(1)[of "sends ?ms c"] 3(2) by auto
  then show ?case using 3(2)
    by (auto intro!: exI[of _ "?ms @ ms"] simp: cbind_def rows_shift[where g = "view_row_text [] ss"]
        view_row_text_def simp del: put_lines.simps upt_Suc)
next
  case (4 b bs s ss)
  let ?ms = "[pad_right 30 (price_quantity b), '' | '', price_quantity s, CRLF]"
  obtain ms where "view_rows bs ss (sends ?ms c) = (Inr (), sends ms (sends ?ms c))"
    "concat ms = concat (map (view_row_text bs ss) [0..<max (length bs) (length ss)])"
    using 4(1)[of "sends ?ms c"] 4(2) by auto
  then show ?case using 4(2)
    by (auto intro!: exI[of _ "?ms @ ms"] simp: cbind_def rows_shift[where g = "view_row_text bs ss"]
        view_row_text_def simp del: put_lines.simps upt_Suc)
qed

section \<open>The lists of myOrders\<close>

definition lines_text :: "order_t list \<Rightarrow> string" where
  "lines_text rs = concat (map (\<lambda>i. order_line (int i + 1) (rs ! i)) [0..<length rs])"

definition my_orders_text :: "order_t list \<Rightarrow> order_t list \<Rightarrow> string" where
  "my_orders_text open_orders archived =
     ''Open Orders:'' @ CRLF @
     (if open_orders = [] then ''No open orders.'' @ CRLF @ dashes else lines_text open_orders) @ dashes @
     ''Archived Orders:'' @ CRLF @
     (if archived = [] then ''No archived orders.'' @ CRLF else lines_text archived)"

lemma send_orders_open:
  "open_stream (comm s) \<Longrightarrow> \<exists>ms. send_orders i rs s = (Inr (), s\<lparr>comm := sends ms (comm s)\<rparr>) \<and>
    concat ms = concat (map (\<lambda>j. order_line (i + int j + 1) (rs ! j)) [0..<length rs])"
proof (induction rs arbitrary: i s)
  case Nil
  show ?case by (auto simp: ret_def intro!: exI[of _ "[]"])
next
  case (Cons r rs)
  let ?m = "order_line (i + 1) r"
  obtain ms where ms: "send_orders (i + 1) rs (s\<lparr>comm := sends [?m] (comm s)\<rparr>) =
      (Inr (), s\<lparr>comm := sends ms (sends [?m] (comm s))\<rparr>)"
    "concat ms = concat (map (\<lambda>j. order_line (i + 1 + int j + 1) (rs ! j)) [0..<length rs])"
    using Cons.IH[of "s\<lparr>comm := sends [?m] (comm s)\<rparr>" "i + 1"] Cons.prems by auto
  have "send_orders i (r # rs) s = (Inr (), s\<lparr>comm := sends (?m # ms) (comm s)\<rparr>)"
    using Cons.prems ms(1) by (simp add: cbind_def zoom_def ret_def)
  moreover have "concat (map (\<lambda>j. order_line (i + int j + 1) ((r # rs) ! j)) [0..<length (r # rs)]) = ?m @ concat ms"
    unfolding length_Cons ms(2) by (subst rows_shift) (simp_all add: algebra_simps)
  ultimately show ?case by (intro exI[of _ "?m # ms"]) simp
qed

lemma send_orders_text:
  assumes "open_stream (comm s)"
  obtains ms where "send_orders 0 rs s = (Inr (), s\<lparr>comm := sends ms (comm s)\<rparr>)" and "concat ms = lines_text rs"
  using send_orders_open[OF assms, of 0 rs] by (auto simp: lines_text_def)

section \<open>The account of myInventory\<close>

definition inventory_text :: "user_t \<Rightarrow> string" where
  "inventory_text u = ''Your current inventory:'' @ CRLF @ ''OMG: '' @ show_int (OMG u) @ CRLF @
     ''DOGE: '' @ show_int (DOGE u) @ CRLF @ ''ETH: '' @ show_int (ETH u) @ CRLF @ ''BTC: '' @ show_int (BTC u) @ CRLF"

section \<open>From the line to the answer\<close>

text \<open>A command that leaves the tables alone and answers with a text.\<close>

definition answers :: "string \<Rightarrow> 'w session \<Rightarrow> (fault + unit) \<times> 'w session \<Rightarrow> bool" where
  "answers msg s rs \<longleftrightarrow> fst rs = Inr () \<and> db (conn (snd rs)) = db (conn s) \<and>
     inp (comm (snd rs)) = inp (comm s) \<and> concat (sent (comm (snd rs))) = concat (sent (comm s)) @ msg"

lemma on_db_run: "m (conn s) = (r, c') \<Longrightarrow> on_db m s = (r, s\<lparr>conn := c'\<rparr>)"
  by (simp add: zoom_def)

lemma comm_open: "open_stream (comm s) \<Longrightarrow> on_comm (put_line msg) s = (Inr (), s\<lparr>comm := sends [msg] (comm s)\<rparr>)"
  "open_stream (comm s) \<Longrightarrow> on_comm (put_ignored msg) s = (Inr (), s\<lparr>comm := sends [msg] (comm s)\<rparr>)"
  by (simp_all add: zoom_def)

text \<open>One half of the answer: the list of the orders, or the message that there are none.\<close>

definition listing :: "order_t list \<Rightarrow> ('w, unit) sprog \<Rightarrow> ('w, unit) sprog" where
  "listing rs none = (if rs \<noteq> [] then send_orders 0 rs else none)"

lemma listing_text:
  assumes "open_stream (comm s)" and "none s = (Inr (), s\<lparr>comm := sends ns (comm s)\<rparr>)" and "concat ns = msg"
  shows "\<exists>ms. listing rs none s = (Inr (), s\<lparr>comm := sends ms (comm s)\<rparr>) \<and>
    concat ms = (if rs = [] then msg else lines_text rs)"
  using assms send_orders_text[of s rs] by (cases "rs = []") (auto simp: listing_def)

context sqlite_healthy
begin

lemma handle_view_answers:
  assumes wf: "wf_conn (conn s)" "ids_small (db (conn s))" "created (db (conn s))" and op: "open_stream (comm s)"
    and a: "sa_inv a" "sa_list a = [verb, coin]" and i: "COIN_of_string coin = Some i"
  shows "\<exists>buys sells. best dearer 5 (side_orders (db (conn s)) i BUY) buys \<and>
    best cheaper 5 (side_orders (db (conn s)) i SELL) sells \<and> answers (view_text buys sells) s (handle_view E uid a s)"
proof -
  have n: "sa_size a = 2" using length_sa_list[OF a(1)] a(2) by simp
  have w: "(sa_get a 1 :: ('w session, _) prog) = ret coin" using sa_get_ok[OF a(1), of 1] n a(2) by simp
  obtain buys sells c' where v: "get_item_all_orders E i (conn s) = (Inr (Inr (buys, sells)), c')" "db c' = db (conn s)"
    "best dearer 5 (side_orders (db (conn s)) i BUY) buys" "best cheaper 5 (side_orders (db (conn s)) i SELL) sells"
    by (rule get_item_all_orders_healthy[OF wf])
  then have "view_item_orders E i (conn s) = (Inr (buys, sells), c')"
    by (simp add: view_item_orders_def cbind_def ret_def)
  note db = on_db_run[of "view_item_orders E i", OF this]
  let ?s = "s\<lparr>conn := c', comm := sends [replicate 52 (CHR ''-'') @ CRLF, pad_right 30 ''Buy Orders'' @ '' | Sell Orders'' @ CRLF] (comm s)\<rparr>"
  obtain ms where ms: "view_rows buys sells (comm ?s) = (Inr (), sends ms (comm ?s))"
    "concat ms = concat (map (view_row_text buys sells) [0..<max (length buys) (length sells)])"
    using view_rows_open[of "comm ?s"] op by auto
  have "handle_view E uid a s = on_comm (view_rows buys sells) ?s"
    using op by (simp add: handle_view_def validate_command_args_ok n w[simplified] i cbind_def db comm_open)
  also have "\<dots> = (Inr (), ?s\<lparr>comm := sends ms (comm ?s)\<rparr>)" by (simp only: zoom_def ms(1) prod.case)
  finally show ?thesis using v(2-4) ms(2) by (auto simp: answers_def view_text_def)
qed

lemma handle_my_orders_answers:
  assumes wf: "wf_conn (conn s)" "ids_small (db (conn s))" "created (db (conn s))" and op: "open_stream (comm s)"
    and few: "length (archives (db (conn s))) < 2 ^ 30"
  shows "\<exists>open_os arch. mset open_os = mset (filter (\<lambda>r. ord_userID r = uid) (orders (db (conn s)))) \<and>
    mset arch = mset (filter (\<lambda>r. ord_userID r = uid) (archives (db (conn s)))) \<and>
    answers (my_orders_text open_os arch) s (handle_my_orders E uid s)"
proof -
  obtain open_os c1 where o: "my_orders E uid (conn s) = (Inr open_os, c1)" "db c1 = db (conn s)"
    "mset open_os = mset (filter (\<lambda>r. ord_userID r = uid) (orders (db (conn s))))"
    by (rule my_orders_healthy[OF wf])
  obtain arch c2 where a: "get_archived_orders E uid c1 = (Inr arch, c2)" "db c2 = db c1"
    "mset arch = mset (filter (\<lambda>r. ord_userID r = uid) (archives (db c1)))"
    by (rule get_archived_orders_healthy[of c1 uid]) (use o(2) wf few in simp_all)
  let ?s1 = "s\<lparr>conn := c1, comm := sends [''Open Orders:'' @ CRLF] (comm s)\<rparr>"
  have "\<exists>ms. listing open_os (cbind (tell (''No open orders.'' @ CRLF)) (\<lambda>_. tell dashes)) ?s1 =
      (Inr (), ?s1\<lparr>comm := sends ms (comm ?s1)\<rparr>) \<and>
      concat ms = (if open_os = [] then (''No open orders.'' @ CRLF) @ dashes else lines_text open_os)"
    by (rule listing_text[where ns = "[''No open orders.'' @ CRLF, dashes]"])
      (use op in \<open>simp_all add: cbind_def comm_open\<close>)
  then obtain ms where m: "listing open_os (cbind (tell (''No open orders.'' @ CRLF)) (\<lambda>_. tell dashes)) ?s1 =
      (Inr (), ?s1\<lparr>comm := sends ms (comm ?s1)\<rparr>)"
    "concat ms = (if open_os = [] then (''No open orders.'' @ CRLF) @ dashes else lines_text open_os)" by blast
  let ?s2 = "?s1\<lparr>comm := sends [dashes] (sends ms (comm ?s1))\<rparr>"
  let ?s3 = "?s2\<lparr>conn := c2, comm := sends [''Archived Orders:'' @ CRLF] (comm ?s2)\<rparr>"
  have "\<exists>ns. listing arch (tell (''No archived orders.'' @ CRLF)) ?s3 = (Inr (), ?s3\<lparr>comm := sends ns (comm ?s3)\<rparr>) \<and>
      concat ns = (if arch = [] then ''No archived orders.'' @ CRLF else lines_text arch)"
    by (rule listing_text[where ns = "[''No archived orders.'' @ CRLF]"]) (use op in \<open>simp_all add: comm_open\<close>)
  then obtain ns where n: "listing arch (tell (''No archived orders.'' @ CRLF)) ?s3 =
      (Inr (), ?s3\<lparr>comm := sends ns (comm ?s3)\<rparr>)"
    "concat ns = (if arch = [] then ''No archived orders.'' @ CRLF else lines_text arch)" by blast
  have steps: "on_db (my_orders E uid) s = (Inr open_os, s\<lparr>conn := c1\<rparr>)"
    "tell (''Open Orders:'' @ CRLF) (s\<lparr>conn := c1\<rparr>) = (Inr (), ?s1)"
    "tell dashes (?s1\<lparr>comm := sends ms (comm ?s1)\<rparr>) = (Inr (), ?s2)"
    "on_db (get_archived_orders E uid) ?s2 = (Inr arch, ?s2\<lparr>conn := c2\<rparr>)"
    "tell (''Archived Orders:'' @ CRLF) (?s2\<lparr>conn := c2\<rparr>) = (Inr (), ?s3)"
    using op o(1) a(1) by (simp_all add: on_db_run comm_open)
  define s3 where "s3 = ?s3"
  have "handle_my_orders E uid s = listing arch (tell (''No archived orders.'' @ CRLF)) s3"
    unfolding handle_my_orders_def listing_def[symmetric]
    by (rule trans[OF cbind_done], rule steps(1), rule trans[OF cbind_done], rule steps(2),
      rule trans[OF cbind_done], rule m(1), rule trans[OF cbind_done], rule steps(3),
      rule trans[OF cbind_done], rule steps(4), rule trans[OF cbind_done], rule steps(5))
      (simp only: s3_def)
  then have "handle_my_orders E uid s = (Inr (), ?s3\<lparr>comm := sends ns (comm ?s3)\<rparr>)" using n(1) by (simp only: s3_def)
  then have "answers (my_orders_text open_os arch) s (handle_my_orders E uid s)"
    by (simp add: answers_def o(2) a(2) my_orders_text_def m(2) n(2))
  with o(2,3) a(3) show ?thesis by (intro exI[of _ open_os] exI[of _ arch]) simp
qed

lemma get_user_inventories_healthy:
  assumes "wf_conn c" and "created (db c)" and "u \<in> set (users (db c))" and "userID u = userID v"
  obtains c' where "get_user_inventories E v c = (Inr (Inr (v\<lparr>OMG := OMG u, DOGE := DOGE u, BTC := BTC u, ETH := ETH u\<rparr>)), c')"
    and "db c' = db c"
proof -
  let ?q = "Select_Inventory (userID v)"
  obtain c1 where p: "sql_prepare E ?q c = (Inr SQLITE_OK, c1)" "db c1 = db c"
    using prepare_healthy assms(2) by blast
  have rows: "t' = db c \<and> rows = [inventory_row u]" if "sql_meaning (db c1) ?q rows t'" for rows t'
    using that p(2) wf_filter_user[OF assms(1,3,4)] by simp
  have "\<exists>rows t'. sql_meaning (db c1) ?q rows t'"
    using enabled_reads[of "db c1" ?q] assms(2) p(2) by simp
  then show thesis
  proof (cases rule: step_healthy)
    case (1 c')
    with rows show thesis by blast
  next
    case (2 row rest c')
    then have "row = inventory_row u" "db c' = db c" using rows by blast+
    moreover have "user_ok u" using assms(1,3) by (rule wf_user_rowD)
    ultimately have "get_user_inventories E v c =
        (Inr (Inr (v\<lparr>OMG := OMG u, DOGE := DOGE u, BTC := BTC u, ETH := ETH u\<rparr>)), c')"
      using p 2 by (simp add: get_user_inventories_def Let_def cbind_def column_int_def inventory_row_def user_ok_def
          of_option_def ret_def)
    with \<open>db c' = db c\<close> that show thesis by blast
  qed
qed

lemma handle_my_inventory_answers:
  assumes wf: "wf_conn (conn s)" "created (db (conn s))" and op: "open_stream (comm s)"
    and u: "u \<in> set (users (db (conn s)))" "userID u = uid"
  shows "answers (inventory_text u) s (handle_my_inventory E uid s)"
proof -
  let ?v = "\<lparr>userID = uid, username = [], password = [], name = [], OMG = 0, DOGE = 0, BTC = 0, ETH = 0\<rparr>"
  obtain c' where c': "get_user_inventories E ?v (conn s) =
      (Inr (Inr (?v\<lparr>OMG := OMG u, DOGE := DOGE u, BTC := BTC u, ETH := ETH u\<rparr>)), c')" "db c' = db (conn s)"
    by (rule get_user_inventories_healthy[OF wf u(1), of ?v]) (use u(2) in simp_all)
  have "handle_my_inventory E uid s = (Inr (), s\<lparr>conn := c', comm := sends [''Your current inventory:'' @ CRLF,
      ''OMG: '' @ show_int (OMG u) @ CRLF, ''DOGE: '' @ show_int (DOGE u) @ CRLF,
      ''ETH: '' @ show_int (ETH u) @ CRLF, ''BTC: '' @ show_int (BTC u) @ CRLF] (comm s)\<rparr>)"
    using op c'(1) by (simp add: handle_my_inventory_def cbind_def on_db_run zoom_def)
  then show ?thesis using c'(2) by (simp add: answers_def inventory_text_def)
qed

text \<open>The three commands, from their line.\<close>

lemma view_command:
  assumes "wf_conn (conn s)" and "ids_small (db (conn s))" and "created (db (conn s))" and "open_stream (comm s)"
    and "closed_words (c_str line) = [verb, coin]" and "length line \<le> max_strings" and "strcase_eq verb ''view''"
    and "COIN_of_string coin = Some i"
  shows "\<exists>buys sells. best dearer 5 (side_orders (db (conn s)) i BUY) buys \<and>
    best cheaper 5 (side_orders (db (conn s)) i SELL) sells \<and> answers (view_text buys sells) s (run_command E uid line s)"
proof -
  obtain a where a: "sa_inv a" "sa_list a = [verb, coin]" and run: "run_command E uid line = handle_view E uid a"
    by (rule run_command_words[OF assms(5,6), of E uid]) (simp add: strcase_eq_trans[OF assms(7)])
  show ?thesis unfolding run by (rule handle_view_answers[OF assms(1-4) a assms(8)])
qed

lemma my_orders_command:
  assumes "wf_conn (conn s)" and "ids_small (db (conn s))" and "created (db (conn s))" and "open_stream (comm s)"
    and "length (archives (db (conn s))) < 2 ^ 30"
    and "closed_words (c_str line) = verb # ws" and "length line \<le> max_strings" and "strcase_eq verb ''myorders''"
  shows "\<exists>open_orders archived.
    mset open_orders = mset (filter (\<lambda>r. ord_userID r = uid) (orders (db (conn s)))) \<and>
    mset archived = mset (filter (\<lambda>r. ord_userID r = uid) (archives (db (conn s)))) \<and>
    answers (my_orders_text open_orders archived) s (run_command E uid line s)"
proof -
  have run: "run_command E uid line = handle_my_orders E uid"
    by (rule run_command_words[OF assms(6,7), of E uid]) (simp add: strcase_eq_trans[OF assms(8)])
  show ?thesis unfolding run by (rule handle_my_orders_answers[OF assms(1-5)])
qed

lemma my_inventory_command:
  assumes "wf_conn (conn s)" and "created (db (conn s))" and "open_stream (comm s)"
    and "u \<in> set (users (db (conn s)))" and "userID u = uid"
    and "closed_words (c_str line) = verb # ws" and "length line \<le> max_strings" and "strcase_eq verb ''myinventory''"
  shows "answers (inventory_text u) s (run_command E uid line s)"
proof -
  have run: "run_command E uid line = handle_my_inventory E uid"
    by (rule run_command_words[OF assms(6,7), of E uid]) (simp add: strcase_eq_trans[OF assms(8)])
  show ?thesis unfolding run by (rule handle_my_inventory_answers[OF assms(1-5)])
qed

end

end
