(* ===== verification/Journeys.thy ===== *)
theory Journeys
  imports Arrivals Transcripts Trading
begin

text \<open>
  From the connection to the tables: a client that logs in, types one line and hangs up has run
  exactly that command, and what the session leaves in the tables is what the command left.
\<close>

context sqlite_healthy
begin

text \<open>The rounds of the command loop.\<close>

lemma echo_loop_line:
  assumes "moves_on t (line # ls) s" and "\<not> eof (comm s)"
  obtains s1 where "moves_on t ls s1"
    and "echo_loop E uid s = cbind (run_command E uid line) (\<lambda>_. echo_loop E uid) s1"
proof -
  obtain s0 where s0: "dump E s = (Inr (), s0)" "moves_on t (line # ls) s0" using moves_on_dump[OF assms(1)] .
  obtain s1 where s1: "on_comm get_line s0 = (Inr line, s1)" "moves_on t ls s1" using moves_on_get_line[OF s0(2)] .
  have "echo_loop E uid s = cbind (run_command E uid line) (\<lambda>_. echo_loop E uid) s1"
    unfolding echo_loop.simps[of E uid s] using assms(2)
    by (simp add: echo_round_def cbind_def s0(1) s1(1))
  with s1(2) that show thesis by blast
qed

lemma echo_loop_hung_up:
  assumes "inp (comm s) = []"
  shows "db (conn (snd (echo_loop E uid s))) = db (conn s)"
proof (cases "eof (comm s)")
  case True
  then show ?thesis by (simp add: echo_loop.simps[of E uid s] print_def)
next
  case False
  obtain s0 where s0: "dump E s = (Inr (), s0)"
    using dump_total by blast
  then have "db (conn s0) = db (conn s)" "comm s0 = comm s" using dump_frame by auto
  then show ?thesis
    using False assms by (simp add: echo_loop.simps[of E uid s] echo_round_def cbind_def s0 zoom_def get_line_def)
qed

text \<open>A client that hangs up within the password has had a session without commands.\<close>

lemma silent_session:
  assumes "login E (- 1) 0 s = (Inr uid, s2)" and "moves_on t ls s2" and "eof (comm s2)"
  obtains s' where "accept_client E s = (Inr (- 1), s')" and "db (conn s') = t"
proof -
  obtain s3 where s3: "display_welcome_message s2 = (Inr (), s3)" "db (conn s3) = t" "eof (comm s3)"
    using assms(2,3) tell_open[of s2] by (auto simp: display_welcome_message_def moves_on_def)
  have "db (conn (s3\<lparr>console := console s3 @ ''EXITED'' @ [LF]\<rparr>)) = t" using s3(2) by simp
  moreover have "accept_client E s = (Inr (- 1), s3\<lparr>console := console s3 @ ''EXITED'' @ [LF]\<rparr>)"
    by (simp add: accept_client_def echo_def cbind_def assms(1) s3(1,3) echo_loop.simps[of E uid s3] print_def ret_def)
  ultimately show thesis using that by blast
qed

text \<open>A session of one command: the tables it leaves are those that the command left.\<close>

lemma one_line_session:
  assumes wf: "wf_db t" "ids_small t" "created t" and u: "u \<in> set (users t)"
    and s: "moves_on t [CHR ''u'' # rest, l1, l2, line] s"
    and l: "strip_newline l1 = Some (username u)" "strip_newline l2 = Some (password u)" "ends_line l2"
  obtains s1 where "moves_on t [] s1"
    and "db (conn (snd (accept_client E s))) = db (conn (snd (run_command E (userID u) line s1)))"
proof -
  obtain s2 where s2: "login E (- 1) 0 s = (Inr (userID u), s2)" "moves_on t [line] s2" "eof (comm s2) = (\<not> ends_line l2)"
    using login_succeeds[OF wf u s l(1,2)] .
  obtain s3 where s3: "display_welcome_message s2 = (Inr (), s3)" "moves_on t [line] s3" "\<not> eof (comm s3)"
    using s2(2,3) l(3) tell_open[of s2] by (auto simp: display_welcome_message_def moves_on_def)
  obtain s1 where s1: "moves_on t [] s1" "echo_loop E (userID u) s3 =
      cbind (run_command E (userID u) line) (\<lambda>_. echo_loop E (userID u)) s1"
    using echo_loop_line[OF s3(2,3)] .
  have acc: "snd (accept_client E s) = snd (echo_loop E (userID u) s3)"
    by (simp add: accept_client_def echo_def cbind_def s2(1) s3(1) ret_def split: prod.split sum.split)
  obtain r s4 where r: "run_command E (userID u) line s1 = (r, s4)" by force
  have "db (conn (snd (echo_loop E (userID u) s3))) = db (conn s4)"
  proof (cases r)
    case (Inl e)
    then show ?thesis by (simp add: s1(2) r cbind_stopped)
  next
    case (Inr x)
    have "pending s4 = pending s1"
      using keepsD[OF keeps_pending_run_command r, of "pending s1"] by simp
    then have "inp (comm s4) = []" using s1(1) by (simp add: pending_def moves_on_def)
    then show ?thesis using Inr r by (simp add: s1(2) cbind_done echo_loop_hung_up)
  qed
  with s1(1) acc r that show thesis by simp
qed

text \<open>A bid that is typed, affordable and not filled by any offer is in the book when the session is over.\<close>

lemma typed_bid:
  assumes wf: "wf_db t" "ids_small t" "created t" and u: "u \<in> set (users t)"
    and s: "moves_on t [CHR ''u'' # rest, l1, l2, line] s"
    and l: "strip_newline l1 = Some (username u)" "strip_newline l2 = Some (password u)" "ends_line l2"
    and words: "closed_words (c_str line) = [verb, coin, price, amount]" "length line \<le> max_strings" "strcase_eq verb ''buy''"
      "COIN_of_string coin = Some i"
    and ord: "ord = order_of_words fresh verb i price amount (userID u)"
    and aff: "affordable ord u" "\<forall>m \<in> set (orders t). \<not> fills m ord" "order_cost ord = Some n" "in_int32 (OMG u - n)"
  shows "placed ord t (db (conn (snd (accept_client E s)))) \<and>
    acct (market_of (db (conn (snd (accept_client E s))))) (userID u) = Some (u\<lparr>OMG := OMG u - n\<rparr>)"
proof -
  obtain s1 where s1: "moves_on t [] s1"
    "db (conn (snd (accept_client E s))) = db (conn (snd (run_command E (userID u) line s1)))"
    using one_line_session[OF wf u s l] .
  let ?ord = "order_of_words (heap_order E (conn s1)) verb i price amount (userID u)"
  have same: "placed ?ord = placed ord" "affordable ?ord = affordable ord" "\<And>m. fills m ?ord = fills m ord"
    "order_cost ?ord = order_cost ord" "buyOrSell ?ord = BUY" "ord_userID ?ord = userID u" "order_ints ?ord"
    using words(3) COIN_of_string_range[OF words(4)]
    by (auto simp: fun_eq_iff ord order_of_words_def placed_def lock_def order_cost_def affordable_def
        fills_def order_ints_def in_int32_def[of 0] in_int32_def[of 1] in_int32_def[of 2] in_int32_def[of 3])
  have c: "wf_conn (conn s1)" "ids_small (db (conn s1))" "created (db (conn s1))" "u \<in> set (users (db (conn s1)))"
    "db (conn s1) = t" "open_stream (comm s1)" using s1(1) wf u by (simp_all add: moves_on_def)
  obtain c' where c': "buy E (Some ?ord) (conn s1) = (Inr 0, c')" "placed ord t (db c')"
    "acct (market_of (db c')) (userID u) = Some (u\<lparr>OMG := OMG u - n\<rparr>)"
    using buy_rests_account[OF c(1-3) same(7) c(4) same(6)[symmetric] same(5)] aff c(5) same by auto
  obtain msg where "run_command E (userID u) line s1 = cbind (print msg) (\<lambda>_. cbind (on_db (buy E (Some ?ord)))
    (\<lambda>res. tell (if res = - 1 then ''Can't create buy order!'' @ CRLF
      else ''Successfully created buy order!'' @ CRLF))) s1"
    using buy_command[OF words(1-3) allocates] words(4) by auto
  then have "db (conn (snd (run_command E (userID u) line s1))) = db c'"
    using c'(1) c(6) by (simp add: cbind_def print_def zoom_def)
  with s1(2) c'(2,3) show ?thesis by simp
qed

end

end
