(* ===== verification/Startup.thy ===== *)
theory Startup
  imports Sessions
begin

text \<open>
  The server from its start: \<open>main\<close> of run_server.c empties the database and recreates the tables,
  then serves clients. \<open>server_tables\<close> holds of the tables that a run of the server can reach, session
  after session, however each of them ends.
\<close>

section \<open>An empty market\<close>

definition fresh_db :: "tables \<Rightarrow> bool" where
  "fresh_db t \<longleftrightarrow> created t \<and> fk_on t \<and> users t = [] \<and> orders t = [] \<and> archives t = [] \<and>
     user_seq t = 0 \<and> order_seq t = 0 \<and> archive_seq t = 0"

lemma fresh_db_ok: "fresh_db t \<Longrightarrow> wf_db t \<and> ids_small t"
  by (simp add: fresh_db_def wf_db_def ids_small_def)

lemma start_server_Inr:
  "start_server E file = Inr c \<longleftrightarrow> open_code E = SQLITE_OK \<and> (\<exists>res. init_db E file = (Inr res, c) \<and> res \<noteq> - 1)"
  by (auto simp: start_server_def open_db_def open_database_def split: prod.split sum.split)

context sqlite_engine
begin

lemma exec_done:
  assumes "sql_exec E q c = (Inr 0, c')"
  shows "\<exists>rows. sql_meaning (db c) q rows (db c')"
proof -
  obtain rows rc where run: "run_stmt E c q = ((rows, rc), c')" and rc: "rc = SQLITE_DONE \<or> rc = 0"
    using assms unfolding sql_exec_def sql_run_def by (auto elim!: cbindE split: if_split_asm prod.split_asm)
  have "rc = SQLITE_DONE" using rc final_code[OF run] by auto
  with done_meaning run show ?thesis by blast
qed

lemma init_db_done:
  assumes "init_db E c = (Inr res, c')" and "res \<noteq> - 1"
  shows "fresh_db (db c')"
proof -
  obtain c1 where c1: "sql_exec E Drop_All_Tables c = (Inr 0, c1)" and c': "sql_exec E Create_Tables c1 = (Inr 0, c')"
    using assms unfolding init_db_def drop_all_tables_def create_tables_def
    by (auto elim!: cbindE split: if_split_asm)
  from exec_done[OF c1] exec_done[OF c'] show ?thesis by (auto simp: fresh_db_def empty_tables_def)
qed

lemma start_server_done: "start_server E file = Inr c \<Longrightarrow> fresh_db (db c)"
  by (auto simp: start_server_Inr dest: init_db_done)

end

context sqlite_healthy
begin

lemma exec_healthy:
  assumes "\<exists>rows t'. sql_meaning (db c) q rows t'"
  obtains c' where "sql_exec E q c = (Inr 0, c')"
proof -
  obtain rows c' where "sql_run E q c = (Inr (rows, SQLITE_DONE), c')"
    using run_healthy[OF assms] by blast
  then have "sql_exec E q c = (Inr 0, c')" by (simp add: sql_exec_def cbind_def ret_def)
  with that show thesis by blast
qed

lemma start_server_healthy: "open_code E = SQLITE_OK \<Longrightarrow> \<exists>c. start_server E file = Inr c"
proof -
  assume op: "open_code E = SQLITE_OK"
  obtain c1 where c1: "sql_exec E Drop_All_Tables file = (Inr 0, c1)" by (rule exec_healthy) auto
  obtain c2 where c2: "sql_exec E Create_Tables c1 = (Inr 0, c2)" by (rule exec_healthy) auto
  from c1 c2 have "init_db E file = (Inr 0, c2)"
    by (simp add: init_db_def drop_all_tables_def create_tables_def cbind_def ret_def)
  with op show ?thesis by (auto simp: start_server_Inr)
qed

end

section \<open>Session after session\<close>

text \<open>
  The tables that a server reaches: \<open>main\<close> sets them up on an engine that nobody else uses, and then
  the loop over \<open>accept_client\<close> forks a process for each client. From the side of one session the others
  are the traffic that its engine \<open>E\<close> lets in; between sessions there may be traffic too.
\<close>

inductive server_tables :: "'v platform \<Rightarrow> 'w platform \<Rightarrow> tables \<Rightarrow> bool" for S E where
  Started: "start_server S file = Inr c \<Longrightarrow> server_tables S E (db c)"
| Served: "server_tables S E (db (conn s)) \<Longrightarrow> accept_client E s = (r, s') \<Longrightarrow> server_tables S E (db (conn s'))"
| Others: "server_tables S E t \<Longrightarrow> traffic t t' \<Longrightarrow> server_tables S E t'"

lemma server_tables_ok:
  assumes "sqlite_engine S" and "sqlite_shared E" and "server_tables S E t"
  shows "wf_db t \<and> created t"
  using assms(3)
proof induction
  case (Started f c)
  then show ?case using sqlite_engine.start_server_done[OF assms(1)] fresh_db_ok by (simp add: fresh_db_def)
next
  case (Served s r s')
  then show ?case
    using keepsD[OF wf.keeps_accept_client[OF assms(2)]] keepsD[OF made.keeps_accept_client[OF assms(2)]] by blast
next
  case (Others t t')
  then show ?case using wf.traffic_keeps made.traffic_keeps by blast
qed

end
