(* ===== verification/Listener.thy ===== *)
theory Listener
  imports Startup
begin

text \<open>
  The process around the sessions: the socket functions of util.c, \<open>make_echo_server\<close>,
  \<open>listen_for_connections\<close> and \<open>free_echo_server\<close> of server.c, the fork in \<open>accept_client\<close> and \<open>main\<close> of
  run_server.c. What the kernel answers to a call is a parameter that may depend on all calls before;
  the state is the list of the calls made. After a fork the model follows the process that the
  kernel's answer belongs to: 0 the child, anything else the parent. Of the server's struct the
  contents are kept; \<open>malloc\<close> is taken to find its memory. At the end: what a run of \<open>main\<close> is.
\<close>

section \<open>Calls of the kernel\<close>

record sockaddr =
  sin_family :: int
  sin_port :: nat
  s_addr :: nat

datatype syscall = Socket | Reuse int | Bind int sockaddr | Listen int int | Accept4 int | Fork | Close int

text \<open>\<open>peer fd\<close> is the stream that \<open>fdopen\<close> makes of a connection, \<open>None\<close> when it gives the null pointer.\<close>

record net =
  calls :: "syscall list"
  kernel :: "syscall list \<Rightarrow> syscall \<Rightarrow> int"
  peer :: "int \<Rightarrow> stream option"

definition sys :: "syscall \<Rightarrow> (net, int) prog" where
  "sys k s = (Inr (kernel s (calls s) k), s\<lparr>calls := calls s @ [k]\<rparr>)"

text \<open>\<open>if (call == -1) error_and_exit(...)\<close>.\<close>

definition sys_or_exit :: "syscall \<Rightarrow> (net, int) prog" where
  "sys_or_exit k = cbind (sys k) (\<lambda>r. if r = - 1 then error_and_exit else ret r)"

section \<open>Sockets\<close>

definition open_tcp_socket :: "(net, int) prog" where
  "open_tcp_socket = sys_or_exit Socket"

definition close_tcp_socket :: "int \<Rightarrow> (net, unit) prog" where
  "close_tcp_socket fd = cbind (sys_or_exit (Close fd)) (\<lambda>_. ret ())"

text \<open>Network byte order, on a machine that keeps the low byte first; \<open>PF_INET\<close> is 2.\<close>

definition htons :: "nat \<Rightarrow> nat" where
  "htons n = n mod 256 * 256 + n div 256 mod 256"

definition htonl :: "nat \<Rightarrow> nat" where
  "htonl n = htons (n mod 65536) * 65536 + htons (n div 65536 mod 65536)"

definition socket_address :: "nat \<Rightarrow> nat \<Rightarrow> sockaddr" where
  "socket_address ip port = \<lparr>sin_family = 2, sin_port = htons port, s_addr = htonl ip\<rparr>"

definition PORT :: nat where "PORT = 4242"
definition BACKLOG_SIZE :: int where "BACKLOG_SIZE = 10"

section \<open>The server\<close>

record echo_server =
  listener :: int
  addr :: sockaddr
  max_backlog :: int

definition make_echo_server :: "sockaddr \<Rightarrow> int \<Rightarrow> (net, echo_server) prog" where
  "make_echo_server ip_addr backlog = cbind open_tcp_socket (\<lambda>fd.
     ret \<lparr>listener = fd, addr = ip_addr, max_backlog = backlog\<rparr>)"

definition free_echo_server :: "echo_server \<Rightarrow> (net, unit) prog" where
  "free_echo_server server = close_tcp_socket (listener server)"

definition listen_for_connections :: "echo_server \<Rightarrow> (net, unit) prog" where
  "listen_for_connections server =
     cbind (sys_or_exit (Reuse (listener server))) (\<lambda>_.
     cbind (sys_or_exit (Bind (listener server) (addr server))) (\<lambda>_.
     cbind (sys_or_exit (Listen (listener server) (max_backlog server))) (\<lambda>_. ret ())))"

record 'w process =
  net_of :: net
  session_of :: "'w session"

abbreviation on_net :: "(net, 'a) prog \<Rightarrow> ('w process, 'a) prog" where
  "on_net \<equiv> zoom net_of (\<lambda>x s. s\<lparr>net_of := x\<rparr>)"

abbreviation on_session :: "('w session, 'a) prog \<Rightarrow> ('w process, 'a) prog" where
  "on_session \<equiv> zoom session_of (\<lambda>x s. s\<lparr>session_of := x\<rparr>)"

interpretation net: part net_of "\<lambda>x s. s\<lparr>net_of := x\<rparr>"
  by unfold_locales simp_all

interpretation sess: part session_of "\<lambda>x s. s\<lparr>session_of := x\<rparr>"
  by unfold_locales simp_all

text \<open>\<open>accept_client\<close> from its beginning: the child serves the client and returns \<open>-1\<close>, the parent 0.\<close>

definition serve_child :: "'w platform \<Rightarrow> int \<Rightarrow> ('w process, int) prog" where
  "serve_child E fd p = (case peer (net_of p) fd of
       None \<Rightarrow> (Inl Exit_Failure, p)
     | Some c \<Rightarrow> on_session (accept_client E) (p\<lparr>session_of := (session_of p)\<lparr>comm := c\<rparr>\<rparr>))"

definition accept_next :: "'w platform \<Rightarrow> echo_server \<Rightarrow> ('w process, int) prog" where
  "accept_next E server =
     cbind (on_net (sys_or_exit (Accept4 (listener server)))) (\<lambda>fd.
     cbind (on_net (sys Fork)) (\<lambda>pid. if pid = 0 then serve_child E fd else ret 0))"

text \<open>The loop of \<open>main\<close>, for a number of rounds; \<open>None\<close> when it is still waiting for clients then.\<close>

fun accept_loop :: "nat \<Rightarrow> 'w platform \<Rightarrow> echo_server \<Rightarrow> int \<Rightarrow> 'w process \<Rightarrow> ((fault + int) \<times> 'w process) option" where
  "accept_loop n E server status p =
     (if status = - 1 then Some (Inr status, p) else
      case n of 0 \<Rightarrow> None
      | Suc n \<Rightarrow> (case accept_next E server p of
          (Inl e, p') \<Rightarrow> Some (Inl e, p')
        | (Inr status, p') \<Rightarrow> accept_loop n E server status p'))"

declare accept_loop.simps [simp del]

text \<open>The end of \<open>main\<close>, behind the loop, and all of it.\<close>

definition wind_up :: "'w platform \<Rightarrow> echo_server \<Rightarrow> int \<Rightarrow> ('w process, int) prog" where
  "wind_up E server status =
     cbind (on_net (free_echo_server server)) (\<lambda>_.
     cbind (if status \<noteq> - 1 then on_session (on_db (close_db E)) else ret 0) (\<lambda>_. ret 0))"

definition set_up :: "(net, echo_server) prog" where
  "set_up = cbind (make_echo_server (socket_address 0 PORT) BACKLOG_SIZE) (\<lambda>server.
     cbind (listen_for_connections server) (\<lambda>_. ret server))"

definition main :: "nat \<Rightarrow> 'w platform \<Rightarrow> 'w sqlite3 \<Rightarrow> 'w process \<Rightarrow> ((fault + int) \<times> 'w process) option" where
  "main n E file p = (case start_server E file of
       Inl e \<Rightarrow> Some (Inl e, p)
     | Inr c \<Rightarrow> (case on_net set_up (p\<lparr>session_of := (session_of p)\<lparr>conn := c\<rparr>\<rparr>) of
         (Inl e, p') \<Rightarrow> Some (Inl e, p')
       | (Inr server, p') \<Rightarrow> (case accept_loop n E server 0 p' of
           None \<Rightarrow> None
         | Some (Inl e, p'') \<Rightarrow> Some (Inl e, p'')
         | Some (Inr status, p'') \<Rightarrow> Some (wind_up E server status p''))))"

section \<open>Runs of main\<close>

text \<open>The calls that get the server to listen, and those of a number of rounds of the loop.\<close>

definition startup :: "int \<Rightarrow> syscall list" where
  "startup fd = [Socket, Reuse fd, Bind fd (socket_address 0 PORT), Listen fd BACKLOG_SIZE]"

definition rounds :: "nat \<Rightarrow> int \<Rightarrow> syscall list" where
  "rounds k fd = concat (replicate k [Accept4 fd, Fork])"

lemma rounds_simps [simp]: "rounds 0 fd = []" "rounds (Suc k) fd = Accept4 fd # Fork # rounds k fd"
  by (simp_all add: rounds_def)

lemma rounds_snoc: "rounds k fd @ [Accept4 fd, Fork] = rounds (Suc k) fd"
  by (induction k) simp_all

text \<open>\<open>heard p p' ks\<close>: between two states of a process its calls were \<open>ks\<close>.\<close>

definition heard :: "net \<Rightarrow> net \<Rightarrow> syscall list \<Rightarrow> bool" where
  "heard p p' ks \<longleftrightarrow> p' = p\<lparr>calls := calls p @ ks\<rparr>"

lemma heard_refl [simp]: "heard p p []"
  by (simp add: heard_def)

lemma heard_trans: "heard p p' ks \<Longrightarrow> heard p' p'' ks' \<Longrightarrow> heard p p'' (ks @ ks')"
  by (simp add: heard_def)

lemma heard_frame: "heard p p' ks \<Longrightarrow> kernel p' = kernel p \<and> peer p' = peer p \<and> calls p' = calls p @ ks"
  by (simp add: heard_def)

lemma sys_or_exit_iff:
  "sys_or_exit k s = (Inr r, s') \<longleftrightarrow> r = kernel s (calls s) k \<and> r \<noteq> - 1 \<and> heard s s' [k]"
  by (auto simp: sys_or_exit_def cbind_def sys_def ret_def stop_def heard_def)

lemma set_up_done:
  assumes "set_up s = (Inr server, s')"
  obtains fd where "server = \<lparr>listener = fd, addr = socket_address 0 PORT, max_backlog = BACKLOG_SIZE\<rparr>"
    and "heard s s' (startup fd)"
proof -
  from assms obtain fd a b c d e f g where
    "server = \<lparr>listener = fd, addr = socket_address 0 PORT, max_backlog = BACKLOG_SIZE\<rparr>"
    "sys_or_exit Socket s = (Inr fd, a)" "sys_or_exit (Reuse fd) a = (Inr b, c)"
    "sys_or_exit (Bind fd (socket_address 0 PORT)) c = (Inr d, e)" "sys_or_exit (Listen fd BACKLOG_SIZE) e = (Inr f, s')"
    by (auto simp: set_up_def make_echo_server_def open_tcp_socket_def listen_for_connections_def cbind_Inr_iff ret_def)
  then show thesis
    using that heard_trans[OF heard_trans[OF heard_trans]] by (fastforce simp: sys_or_exit_iff startup_def)
qed

text \<open>A round of the loop either stays in the parent or is the whole session of one client, in the child.\<close>

lemma accept_client_status: "accept_client E s = (Inr r, s') \<Longrightarrow> r = - 1"
  by (auto simp: accept_client_def cbind_Inr_iff ret_def)

lemma accept_next_done:
  assumes "accept_next E server p = (Inr status, p')"
  shows "heard (net_of p) (net_of p') [Accept4 (listener server), Fork] \<and>
    (status = 0 \<and> session_of p' = session_of p \<and>
       kernel (net_of p) (calls (net_of p) @ [Accept4 (listener server)]) Fork \<noteq> 0 \<or>
     status = - 1 \<and> kernel (net_of p) (calls (net_of p) @ [Accept4 (listener server)]) Fork = 0 \<and>
       (\<exists>c. accept_client E ((session_of p)\<lparr>comm := c\<rparr>) = (Inr (- 1), session_of p')))"
proof -
  from assms obtain fd n pid where fd: "sys_or_exit (Accept4 (listener server)) (net_of p) = (Inr fd, n)"
    and pid: "pid = kernel n (calls n) Fork"
    and last: "(if pid = 0 then serve_child E fd else ret 0) (p\<lparr>net_of := n\<lparr>calls := calls n @ [Fork]\<rparr>\<rparr>) = (Inr status, p')"
    by (auto simp: accept_next_def cbind_Inr_iff net.zoom_Inr_iff sys_def)
  have n: "heard (net_of p) n [Accept4 (listener server)]" using fd by (simp add: sys_or_exit_iff)
  then have h: "heard (net_of p) (n\<lparr>calls := calls n @ [Fork]\<rparr>) [Accept4 (listener server), Fork]" by (simp add: heard_def)
  have k: "pid = kernel (net_of p) (calls (net_of p) @ [Accept4 (listener server)]) Fork"
    using pid heard_frame[OF n] by simp
  show ?thesis
  proof (cases "pid = 0")
    case True
    then obtain c where "peer n fd = Some c"
      and "on_session (accept_client E) (p\<lparr>net_of := n\<lparr>calls := calls n @ [Fork]\<rparr>, session_of := (session_of p)\<lparr>comm := c\<rparr>\<rparr>) =
        (Inr status, p')"
      using last by (auto simp: serve_child_def split: option.splits)
    then have "accept_client E ((session_of p)\<lparr>comm := c\<rparr>) = (Inr status, session_of p')"
      "net_of p' = n\<lparr>calls := calls n @ [Fork]\<rparr>" by (auto simp: sess.zoom_Inr_iff)
    with h k True accept_client_status show ?thesis by metis
  next
    case False
    with last h k show ?thesis by (auto simp: ret_def)
  qed
qed

text \<open>The loop is only left in a child, after its session.\<close>

lemma accept_loop_done:
  assumes "accept_loop n E server status p = Some (Inr r, p')" and "status \<noteq> - 1"
  shows "r = - 1 \<and> (\<exists>k < n. heard (net_of p) (net_of p') (rounds (Suc k) (listener server)) \<and>
    kernel (net_of p) (calls (net_of p) @ rounds k (listener server) @ [Accept4 (listener server)]) Fork = 0 \<and>
    (\<exists>c. accept_client E ((session_of p)\<lparr>comm := c\<rparr>) = (Inr (- 1), session_of p')))"
  using assms
proof (induction n arbitrary: status p)
  case 0
  then show ?case by (simp add: accept_loop.simps)
next
  case (Suc n)
  then obtain st q where st: "accept_next E server p = (Inr st, q)" and rest: "accept_loop n E server st q = Some (Inr r, p')"
    by (auto simp: accept_loop.simps[of "Suc n"] split: prod.splits sum.splits)
  note step = accept_next_done[OF st]
  show ?case
  proof (cases "st = - 1")
    case True
    with rest have "r = - 1" "p' = q" by (simp_all add: accept_loop.simps[of n])
    with step True show ?thesis by (intro conjI exI[of _ 0]) auto
  next
    case False
    with Suc.IH[OF rest False] obtain k c where "r = - 1" "k < n"
      and h: "heard (net_of q) (net_of p') (rounds (Suc k) (listener server))"
      and fork: "kernel (net_of q) (calls (net_of q) @ rounds k (listener server) @ [Accept4 (listener server)]) Fork = 0"
      and c: "accept_client E ((session_of q)\<lparr>comm := c\<rparr>) = (Inr (- 1), session_of p')" by blast
    from step False have q: "heard (net_of p) (net_of q) [Accept4 (listener server), Fork]" "session_of q = session_of p"
      by auto
    show ?thesis
      using \<open>r = - 1\<close> \<open>k < n\<close> heard_trans[OF q(1) h] fork c heard_frame[OF q(1)] q(2) by (intro conjI exI[of _ "Suc k"]) auto
  qed
qed

text \<open>
  When \<open>main\<close> returns, its calls were those of the startup, of some rounds and the closing of the listener;
  the last fork had given 0, and the connection to the database is left as the session left it.
\<close>

lemma main_done:
  assumes "main n E file p = Some (Inr r, p')"
  shows "r = 0 \<and> (\<exists>fd k c comm0. k < n \<and> start_server E file = Inr c \<and>
    heard (net_of p) (net_of p') (startup fd @ rounds (Suc k) fd @ [Close fd]) \<and>
    kernel (net_of p) (calls (net_of p) @ startup fd @ rounds k fd @ [Accept4 fd]) Fork = 0 \<and>
    accept_client E ((session_of p)\<lparr>conn := c, comm := comm0\<rparr>) = (Inr (- 1), session_of p'))"
proof -
  from assms obtain c server p1 st p2 where c: "start_server E file = Inr c"
    and up: "on_net set_up (p\<lparr>session_of := (session_of p)\<lparr>conn := c\<rparr>\<rparr>) = (Inr server, p1)"
    and lp: "accept_loop n E server 0 p1 = Some (Inr st, p2)" and wind: "wind_up E server st p2 = (Inr r, p')"
    by (auto simp: main_def split: sum.splits prod.splits option.splits)
  obtain s1 where su: "set_up (net_of p) = (Inr server, s1)" and p1: "p1 = p\<lparr>session_of := (session_of p)\<lparr>conn := c\<rparr>, net_of := s1\<rparr>"
    using up by (auto simp: net.zoom_Inr_iff)
  obtain fd where "server = \<lparr>listener = fd, addr = socket_address 0 PORT, max_backlog = BACKLOG_SIZE\<rparr>"
    "heard (net_of p) s1 (startup fd)" by (rule set_up_done[OF su])
  then have fd: "listener server = fd" "heard (net_of p) s1 (startup fd)" by simp_all
  from accept_loop_done[OF lp] obtain k comm0 where st: "st = - 1" and k: "k < n"
    "heard s1 (net_of p2) (rounds (Suc k) fd)" "kernel s1 (calls s1 @ rounds k fd @ [Accept4 fd]) Fork = 0"
    and a: "accept_client E ((session_of p1)\<lparr>comm := comm0\<rparr>) = (Inr (- 1), session_of p2)"
    using fd(1) p1 by auto
  have w: "r = 0" "heard (net_of p2) (net_of p') [Close fd]" "session_of p' = session_of p2"
    using wind st fd(1) by (auto simp: wind_up_def free_echo_server_def close_tcp_socket_def cbind_Inr_iff
        net.zoom_Inr_iff ret_def sys_or_exit_iff)
  have "heard (net_of p) (net_of p') (startup fd @ rounds (Suc k) fd @ [Close fd])"
    using heard_trans[OF heard_trans[OF fd(2) k(2)] w(2)] by simp
  moreover have "kernel (net_of p) (calls (net_of p) @ startup fd @ rounds k fd @ [Accept4 fd]) Fork = 0"
    using k(3) heard_frame[OF fd(2)] by simp
  ultimately show ?thesis using w(1,3) k(1) c a p1 by auto
qed

text \<open>The parent goes on for ever, unless the kernel refuses it a connection.\<close>

lemma accept_loop_waits:
  assumes "\<And>ks. kernel (net_of p) ks (Accept4 (listener server)) \<noteq> - 1" and "\<And>ks. kernel (net_of p) ks Fork \<noteq> 0"
  shows "accept_loop n E server 0 p = None"
  using assms
proof (induction n arbitrary: p)
  case 0
  then show ?case by (simp add: accept_loop.simps)
next
  case (Suc n)
  let ?q = "p\<lparr>net_of := (net_of p)\<lparr>calls := calls (net_of p) @ [Accept4 (listener server), Fork]\<rparr>\<rparr>"
  have "accept_next E server p = (Inr 0, ?q)"
    using Suc.prems by (simp add: accept_next_def cbind_def zoom_def sys_or_exit_def sys_def ret_def)
  moreover have "accept_loop n E server 0 ?q = None" by (rule Suc.IH) (simp_all add: Suc.prems)
  ultimately show ?case by (simp add: accept_loop.simps[of "Suc n"])
qed

lemma main_waits:
  assumes "start_server E file = Inr c" and "\<And>ks k. k \<noteq> Fork \<Longrightarrow> kernel (net_of p) ks k \<noteq> - 1"
    and "\<And>ks. kernel (net_of p) ks Fork \<noteq> 0"
  shows "main n E file p = None"
proof -
  let ?p = "p\<lparr>session_of := (session_of p)\<lparr>conn := c\<rparr>\<rparr>"
  have "\<exists>server s. set_up (net_of p) = (Inr server, s)"
    using assms(2) by (auto simp: set_up_def make_echo_server_def open_tcp_socket_def listen_for_connections_def
        cbind_def sys_or_exit_def sys_def ret_def)
  then obtain server s where s: "set_up (net_of p) = (Inr server, s)" by blast
  then obtain fd where "heard (net_of p) s (startup fd)" by (rule set_up_done)
  then have "accept_loop n E server 0 (?p\<lparr>net_of := s\<rparr>) = None"
    using assms(2,3) by (intro accept_loop_waits) (auto dest: heard_frame)
  then show ?thesis using assms(1) s by (simp add: main_def zoom_def)
qed

text \<open>A run in which the server forks twice, and the second child, which the model follows, serves a client.\<close>

definition kernel_of_visit :: "syscall list \<Rightarrow> syscall \<Rightarrow> int" where
  "kernel_of_visit ks k = (if k = Fork then (if Fork \<in> set ks then 0 else 7) else 3)"

definition visit :: "stream \<Rightarrow> 'w session \<Rightarrow> 'w process" where
  "visit x s = \<lparr>net_of = \<lparr>calls = [], kernel = kernel_of_visit, peer = (\<lambda>fd. Some x)\<rparr>, session_of = s\<rparr>"

lemma visit_run:
  assumes "start_server E file = Inr c" and "accept_client E (s\<lparr>conn := c, comm := x\<rparr>) = (Inr (- 1), s')"
  shows "\<exists>p'. main 2 E file (visit x s) = Some (Inr 0, p')"
proof -
  have "(s\<lparr>comm := x, conn := c\<rparr>) = s\<lparr>conn := c, comm := x\<rparr>" by simp
  then show ?thesis using assms
  by (simp add: visit_def main_def set_up_def make_echo_server_def open_tcp_socket_def listen_for_connections_def
      sys_or_exit_def sys_def zoom_def cbind_def ret_def accept_loop.simps numeral_2_eq_2 accept_next_def serve_child_def
      wind_up_def free_echo_server_def close_tcp_socket_def kernel_of_visit_def)
qed

end
