(* ===== verification/Memory.thy ===== *)
theory Memory
  imports Util
begin

text \<open>
  The functions that release memory: \<open>free_order\<close>, \<open>free_user\<close> and \<open>free_order_list\<close> of command.c and
  \<open>free_string_array\<close> of string_array.c, on a heap of blocks. Of a block only the pointers that the
  functions follow are kept; to release a block that is not allocated is a fault, and so is to read one.
\<close>

section \<open>The heap\<close>

type_synonym ptr = "nat option"

text \<open>
  \<open>Bytes\<close>: text, or a struct of which no pointer is followed. \<open>Fields fs\<close>: the pointers of a \<open>user\<close> (user
  name, password, name), of an \<open>order\<close> (time stamp), of an array of orders (the time stamps) or of an array
  of strings. \<open>Array strs n\<close>: a \<open>string_array\<close> with its block of strings and its size.
\<close>

datatype block = Bytes | Fields "ptr list" | Array ptr nat

type_synonym heap = "nat \<rightharpoonup> block"

definition release :: "ptr \<Rightarrow> (heap, unit) prog" where
  "release p h = (case p of
     None \<Rightarrow> (Inr (), h)
   | Some a \<Rightarrow> if h a = None then (Inl Bad_Pointer, h) else (Inr (), h(a := None)))"

definition load_block :: "ptr \<Rightarrow> (heap, block) prog" where
  "load_block p h = of_option Bad_Pointer (Option.bind p h) h"

definition get_field :: "ptr \<Rightarrow> nat \<Rightarrow> (heap, ptr) prog" where
  "get_field p i = cbind (load_block p) (\<lambda>b. case b of
     Fields fs \<Rightarrow> if i < length fs then ret (fs ! i) else stop Out_Of_Bounds
   | _ \<Rightarrow> stop Bad_Pointer)"

definition set_field :: "ptr \<Rightarrow> nat \<Rightarrow> ptr \<Rightarrow> (heap, unit) prog" where
  "set_field p i v = cbind (load_block p) (\<lambda>b. case (p, b) of
     (Some a, Fields fs) \<Rightarrow> if i < length fs then (\<lambda>h. (Inr (), h(a \<mapsto> Fields (fs[i := v])))) else stop Out_Of_Bounds
   | _ \<Rightarrow> stop Bad_Pointer)"

definition get_array :: "ptr \<Rightarrow> (heap, ptr \<times> nat) prog" where
  "get_array p = cbind (load_block p) (\<lambda>b. case b of Array strs n \<Rightarrow> ret (strs, n) | _ \<Rightarrow> stop Bad_Pointer)"

section \<open>The functions\<close>

definition free_order :: "ptr \<Rightarrow> (heap, int) prog" where
  "free_order p = (if p = None then ret (- 1) else cbind (release p) (\<lambda>_. ret 0))"

text \<open>\<open>if (user_ptr->f != NULL) { free(user_ptr->f); user_ptr->f = NULL; }\<close>\<close>

definition free_field :: "ptr \<Rightarrow> nat \<Rightarrow> (heap, unit) prog" where
  "free_field p i = cbind (get_field p i) (\<lambda>f.
     if f = None then ret () else cbind (release f) (\<lambda>_. set_field p i None))"

definition free_user :: "ptr \<Rightarrow> (heap, int) prog" where
  "free_user p =
     (if p = None then ret (- 1) else
      cbind (free_field p 0) (\<lambda>_.
      cbind (free_field p 1) (\<lambda>_.
      cbind (free_field p 2) (\<lambda>_.
      cbind (release p) (\<lambda>_. ret 0)))))"

text \<open>The loop over the time stamps, for the numbers \<open>i\<close> up to \<open>i + n - 1\<close>.\<close>

fun free_stamps :: "ptr \<Rightarrow> nat \<Rightarrow> nat \<Rightarrow> (heap, unit) prog" where
  "free_stamps p i 0 = ret ()"
| "free_stamps p i (Suc n) = cbind (get_field p i) (\<lambda>f.
     cbind (if f = None then ret () else release f) (\<lambda>_. free_stamps p (Suc i) n))"

definition free_order_list :: "ptr \<Rightarrow> int \<Rightarrow> (heap, int) prog" where
  "free_order_list p n =
     (if p = None then ret (- 1) else
      cbind (free_stamps p 0 (nat n)) (\<lambda>_.
      cbind (release p) (\<lambda>_. ret 0)))"

text \<open>The loop \<open>for (i = 0; i < array->size; ++i) free(array->strings[i])\<close>.\<close>

fun free_strings :: "ptr \<Rightarrow> nat \<Rightarrow> nat \<Rightarrow> (heap, unit) prog" where
  "free_strings strs i 0 = ret ()"
| "free_strings strs i (Suc n) = cbind (get_field strs i) (\<lambda>f.
     cbind (release f) (\<lambda>_. free_strings strs (Suc i) n))"

definition free_string_array :: "ptr \<Rightarrow> (heap, unit) prog" where
  "free_string_array p = cbind (get_array p) (\<lambda>(strs, n).
     cbind (free_strings strs 0 n) (\<lambda>_. cbind (release strs) (\<lambda>_. release p)))"

section \<open>What is released\<close>

text \<open>The blocks that the pointers of a list lead to.\<close>

definition targets :: "ptr list \<Rightarrow> nat set" where
  "targets fs = {a. Some a \<in> set fs}"

text \<open>A block owns what its pointers lead to: each leads to a block of its own, and none back.\<close>

definition owns :: "heap \<Rightarrow> nat \<Rightarrow> ptr list \<Rightarrow> bool" where
  "owns h a fs \<longleftrightarrow> h a = Some (Fields fs) \<and> distinct (filter (\<lambda>f. f \<noteq> None) fs) \<and> targets fs \<subseteq> dom h - {a}"

lemma targets_simps [simp]: "targets [] = {}" "targets (None # fs) = targets fs"
  "targets (Some b # fs) = insert b (targets fs)"
  by (auto simp: targets_def)

lemma release_run [simp]: "h b \<noteq> None \<Longrightarrow> release (Some b) h = (Inr (), h(b := None))" "release None h = (Inr (), h)"
  by (simp_all add: release_def)

lemma get_field_run [simp]:
  "h a = Some (Fields fs) \<Longrightarrow> i < length fs \<Longrightarrow> get_field (Some a) i h = (Inr (fs ! i), h)"
  by (simp add: get_field_def load_block_def cbind_def of_option_def ret_def)

lemma set_field_run [simp]:
  "h a = Some (Fields fs) \<Longrightarrow> i < length fs \<Longrightarrow> set_field (Some a) i v h = (Inr (), h(a \<mapsto> Fields (fs[i := v])))"
  by (simp add: set_field_def load_block_def cbind_def of_option_def ret_def)

lemma restrict_insert: "(h(b := None)) |` (- A) = h |` (- insert b A)"
  by (auto simp: restrict_map_def)

text \<open>Both loops release the blocks behind the rest of the pointers.\<close>

lemma loops_release:
  assumes "h a = Some (Fields (old @ fs))" and "distinct (filter (\<lambda>f. f \<noteq> None) fs)" and "targets fs \<subseteq> dom h - {a}"
  shows "free_strings (Some a) (length old) (length fs) h = (Inr (), h |` (- targets fs))"
    and "free_stamps (Some a) (length old) (length fs) h = (Inr (), h |` (- targets fs))"
  using assms
proof (induction fs arbitrary: old h)
  case Nil
  { case 1 show ?case by (simp add: ret_def) }
  { case 2 show ?case by (simp add: ret_def) }
next
  case (Cons f fs)
  define g where "g h = (case f of None \<Rightarrow> h | Some b \<Rightarrow> h(b := None))" for h :: heap
  have rel: "release f h = (Inr (), g h)" if "targets (f # fs) \<subseteq> dom h - {a}" for h
    using that by (cases f) (auto simp: g_def)
  have g: "g h a = Some (Fields ((old @ [f]) @ fs))" "distinct (filter (\<lambda>f. f \<noteq> None) fs)" "targets fs \<subseteq> dom (g h) - {a}"
      "g h |` (- targets fs) = h |` (- targets (f # fs))"
    if "h a = Some (Fields (old @ f # fs))" "distinct (filter (\<lambda>f. f \<noteq> None) (f # fs))" "targets (f # fs) \<subseteq> dom h - {a}"
    for h old
    using that by (cases f; auto simp: g_def targets_def restrict_map_def fun_eq_iff)+
  have get: "get_field (Some a) (length old) h = (Inr f, h)" if "h a = Some (Fields (old @ f # fs))"
    for h old using that by simp
  { case 1
    have "get_field (Some a) (length old) h = (Inr f, h)" using 1(1) by (rule get)
    with Cons.IH(1)[OF g(1-3)[OF 1]] show ?case by (simp add: cbind_def rel[OF 1(3)] g(4)[OF 1]) }
  { case 2
    have "get_field (Some a) (length old) h = (Inr f, h)" using 2(1) by (rule get)
    moreover have "(if f = None then ret () else release f) h = (Inr (), g h)" using rel[OF 2(3)] by (simp add: ret_def g_def)
    ultimately show ?case using Cons.IH(2)[OF g(1-3)[OF 2]] by (simp add: cbind_def g(4)[OF 2]) }
qed

lemma free_field_run: "free_field (Some a) i h = (Inr (), (h |` (- targets [fs ! i]))(a \<mapsto> Fields (fs[i := None])))"
  if "h a = Some (Fields fs)" "i < length fs" "targets [fs ! i] \<subseteq> dom h - {a}"
proof (cases "fs ! i")
  case None
  then have "fs[i := None] = fs" by (metis list_update_id)
  with None that show ?thesis by (auto simp: free_field_def cbind_def ret_def fun_eq_iff restrict_map_def)
next
  case (Some b)
  with that have "release (fs ! i) h = (Inr (), h(b := None))" "(h(b := None)) a = Some (Fields fs)" by auto
  with Some that show ?thesis by (auto simp: free_field_def cbind_def fun_eq_iff restrict_map_def)
qed

text \<open>Each function releases the struct and what it owns, and nothing else; the null pointer gives \<open>-1\<close>.\<close>

lemma free_user_releases:
  assumes "owns h a [un, pw, nm]"
  shows "free_user (Some a) h = (Inr 0, h |` (- insert a (targets [un, pw, nm])))"
proof -
  define h1 where "h1 = (h |` (- targets [un]))(a \<mapsto> Fields [None, pw, nm])"
  define h2 where "h2 = (h1 |` (- targets [pw]))(a \<mapsto> Fields [None, None, nm])"
  define h3 where "h3 = (h2 |` (- targets [nm]))(a \<mapsto> Fields [None, None, None])"
  have live: "h a = Some (Fields [un, pw, nm])" "targets [un] \<subseteq> dom h - {a}" "targets [pw] \<subseteq> dom h1 - {a}"
    "targets [nm] \<subseteq> dom h2 - {a}"
    using assms by (cases un; cases pw; cases nm; auto simp: owns_def h1_def h2_def)+
  have "free_field (Some a) 0 h = (Inr (), h1)"
    using free_field_run[of h a "[un, pw, nm]" 0] live(1,2) by (simp add: h1_def)
  moreover have "free_field (Some a) 1 h1 = (Inr (), h2)"
    using free_field_run[of h1 a "[None, pw, nm]" 1] live(3) by (simp add: h1_def h2_def)
  moreover have "free_field (Some a) 2 h2 = (Inr (), h3)"
    using free_field_run[of h2 a "[None, None, nm]" 2] live(4) by (simp add: h2_def h3_def)
  moreover have "h3(a := None) = h |` (- insert a (targets [un, pw, nm]))"
    by (cases un; cases pw; cases nm) (auto simp: h1_def h2_def h3_def fun_eq_iff restrict_map_def)
  moreover have "release (Some a) h3 = (Inr (), h3(a := None))" by (simp add: h3_def)
  ultimately show ?thesis by (simp add: free_user_def cbind_def ret_def)
qed

lemma free_order_list_releases:
  assumes "owns h a fs"
  shows "free_order_list (Some a) (int (length fs)) h = (Inr 0, h |` (- insert a (targets fs)))"
proof -
  have "free_stamps (Some a) 0 (length fs) h = (Inr (), h |` (- targets fs))"
    using loops_release(2)[of h a "[]" fs] assms by (simp add: owns_def)
  moreover have "(h |` (- targets fs)) a \<noteq> None" using assms by (auto simp: owns_def restrict_map_def)
  moreover have "(h |` (- targets fs))(a := None) = h |` (- insert a (targets fs))" by (auto simp: restrict_map_def)
  ultimately show ?thesis by (simp add: free_order_list_def cbind_def ret_def)
qed

lemma free_string_array_releases:
  assumes "owns h a fs" and "h b = Some (Array (Some a) (length fs))" and "b \<notin> targets fs"
  shows "free_string_array (Some b) h = (Inr (), h |` (- insert b (insert a (targets fs))))"
proof -
  have "free_strings (Some a) 0 (length fs) h = (Inr (), h |` (- targets fs))"
    using loops_release(1)[of h a "[]" fs] assms(1) by (simp add: owns_def)
  moreover have "get_array (Some b) h = (Inr (Some a, length fs), h)"
    using assms(2) by (simp add: get_array_def load_block_def cbind_def of_option_def ret_def)
  moreover have "(h |` (- targets fs)) a \<noteq> None" using assms(1) by (auto simp: owns_def restrict_map_def)
  moreover have "b \<noteq> a" using assms(1,2) by (auto simp: owns_def)
  then have "((h |` (- targets fs))(a := None)) b \<noteq> None" using assms(2,3) by auto
  moreover have "((h |` (- targets fs))(a := None))(b := None) = h |` (- insert b (insert a (targets fs)))"
    by (auto simp: restrict_map_def)
  ultimately show ?thesis by (simp add: free_string_array_def cbind_def)
qed

text \<open>An order is released without its time stamp.\<close>

lemma free_order_releases: "h a \<noteq> None \<Longrightarrow> free_order (Some a) h = (Inr 0, h(a := None))"
  by (simp add: free_order_def cbind_def ret_def)

lemma free_null: "free_order None = ret (- 1)" "free_user None = ret (- 1)" "free_order_list None n = ret (- 1)"
  by (simp_all add: free_order_def free_user_def free_order_list_def)

end
