(* ===== verification/Mishaps.thy ===== *)
theory Mishaps
  imports Samples Departures
begin

text \<open>
  Runs that stop half way, computed: a sell order that trades and then reports a failure, and a
  cancellation whose second statement fails, so that the order can be cancelled, and refunded, again.
\<close>

section \<open>Sessions on the reference engine\<close>

interpretation ref_reads: session_reader P ref_platform for P
  by (rule ref.keeps_reads)

interpretation ref_login: session_login "arrived t0" ref_platform for t0
  by (rule ref.arrived_login)

interpretation ref_commands: session_commands "commanded uid t0" ref_platform uid for uid t0
  by (rule ref.commanded_commands)

section \<open>Traded, and refused\<close>

text \<open>Alice bids for 3 OMG at 2 each. (A bid for OMG is accepted as any other.) Bob offers 5 at 1.\<close>

definition omg_bid :: order_t where
  "omg_bid = alice_buys\<lparr>item := COIN_OMG, quantity := 3, unitPrice := Fin 2\<rparr>"

definition omg_shop :: tables where
  "omg_shop = shop\<lparr>orders := [omg_bid]\<rparr>"

definition omg_conn :: "string sqlite3" where
  "omg_conn = \<lparr>db = omg_shop, world = ''2024-12-02 09:00:00''\<rparr>"

definition omg_offer :: order_t where
  "omg_offer = bob_order COIN_OMG SELL 5 1"

definition omg_sold :: "string sqlite3" where
  "omg_sold = snd (sell ref_platform (Some omg_offer) omg_conn)"

lemmas omg_defs = omg_bid_def omg_shop_def omg_conn_def omg_offer_def

lemma omg_shop_wf: "wf_db omg_shop" and omg_shop_small: "ids_small omg_shop"
  by (simp_all add: omg_defs sample_defs wf_db_def ids_small_def keyed_def user_ok_def order_ok_def in_int32_def
      user_ids_def)

lemma omg_sold_run: "sell ref_platform (Some omg_offer) omg_conn = (Inr (- 1), omg_sold)"
  "length (archives (db omg_sold)) = 2" "orders (db omg_sold) = []"
  by (simp_all add: omg_sold_def prod_eq_iff run_defs sample_defs omg_defs)

text \<open>Whatever \<open>order_outcome\<close> allows besides, this is a trade with Alice's bid that did not come to its end.\<close>

lemma omg_offer_ok: "order_ints omg_offer" "in_int32 (ord_userID omg_offer)" "buyOrSell omg_offer = SELL"
  by (simp_all add: omg_defs sample_defs order_ints_def in_int32_def)

lemma omg_conn_db [simp]: "db omg_conn = omg_shop"
  by (simp add: omg_conn_def)

section \<open>Refunded, and refused\<close>

text \<open>An engine that keeps the contract and cannot prepare the deletion of an order.\<close>

definition stuck_platform :: "string platform" where
  "stuck_platform = ref_platform\<lparr>prepare_v2 := (\<lambda>c q. case q of
     Delete_Order k \<Rightarrow> (SQLITE_ERROR, c) | _ \<Rightarrow> ref_prepare c q)\<rparr>"

lemma stuck_fields [simp]:
  "prepare_v2 stuck_platform = (\<lambda>c q. case q of Delete_Order k \<Rightarrow> (SQLITE_ERROR, c) | _ \<Rightarrow> ref_prepare c q)"
  "run_stmt stuck_platform = ref_run" "last_rowid stuck_platform = last_rowid ref_platform"
  "bind_param stuck_platform = (\<lambda>c q i. SQLITE_OK)" "malloc_ok stuck_platform c n"
  by (simp_all add: stuck_platform_def ref_platform_def)

interpretation stuck: sqlite_engine stuck_platform
proof unfold_locales
  fix c :: "string sqlite3" and q rows rc c'
  show "prepare_v2 stuck_platform c q = (rc, c') \<Longrightarrow> db c' = db c"
    "prepare_v2 stuck_platform c q = (rc, c') \<Longrightarrow> 0 \<le> rc"
    by (auto simp: ref_prepare_def split: stmt.splits if_splits)
qed (use ref.done_meaning ref.failed_db ref.final_code ref.delivered ref.rowid in auto)

text \<open>Alice, who has 100 DOGE and offers 100 more, takes her offer back twice.\<close>

definition refunded_once :: "string sqlite3" where
  "refunded_once = snd (cancel_order stuck_platform 1 1 shop_conn)"

definition refunded_twice :: "string sqlite3" where
  "refunded_twice = snd (cancel_order stuck_platform 1 1 refunded_once)"

lemma refunded_once_run: "cancel_order stuck_platform 1 1 shop_conn = (Inr (- 1), refunded_once)"
  "map DOGE (users (db refunded_once)) = [200, 200]" "ids_small (db refunded_once)"
  by (simp_all add: refunded_once_def prod_eq_iff run_defs sample_defs stuck.binds_ret ids_small_def)

lemma refunded_twice_run: "cancel_order stuck_platform 1 1 refunded_once = (Inr (- 1), refunded_twice)"
  "map DOGE (users (db refunded_twice)) = [300, 200]" "orders (db refunded_twice) = orders shop"
  by (simp_all add: refunded_twice_def refunded_once_def prod_eq_iff run_defs sample_defs stuck.binds_ret)

end
