(* ===== verification/Answers.thy ===== *)
theory Answers
  imports Sessions
begin

text \<open>
  Every line that a client types is answered, whatever it says and whatever the engine does, unless
  the process dies over it: a round of the loop of commands takes one line and sends a message.
\<close>

section \<open>What a client has been told\<close>

text \<open>A client that takes every message and has been sent \<open>xs\<close>, and perhaps more.\<close>

definition told :: "string list \<Rightarrow> 'w session \<Rightarrow> bool" where
  "told xs s \<longleftrightarrow> open_stream (comm s) \<and> prefix xs (sent (comm s))"

lemma keeps_told_send: "keeps (\<lambda>c. open_stream c \<and> prefix xs (sent c)) (send msg)"
  by (auto simp: keeps_def send_def open_stream_def)

lemma keeps_told_put_line: "keeps (\<lambda>c. open_stream c \<and> prefix xs (sent c)) (put_line msg)"
  unfolding put_line_def by (intro keeps_intros keeps_told_send)

lemma keeps_told_put_ignored: "keeps (\<lambda>c. open_stream c \<and> prefix xs (sent c)) (put_ignored msg)"
  unfolding put_ignored_def by (intro keeps_intros keeps_told_send)

lemma keeps_told_put_lines: "keeps (\<lambda>c. open_stream c \<and> prefix xs (sent c)) (put_lines ms)"
  by (induction ms) (auto intro!: keeps_intros keeps_told_put_line)

lemma keeps_told_view_rows: "keeps (\<lambda>c. open_stream c \<and> prefix xs (sent c)) (view_rows bs ss)"
  by (induction bs ss rule: view_rows.induct) (simp_all del: put_lines.simps add: keeps_cbind keeps_told_put_lines)

lemma keeps_told_validate: "keeps (\<lambda>c. open_stream c \<and> prefix xs (sent c)) (validate_command_args toks n)"
  unfolding validate_command_args_def by (intro keeps_intros keeps_told_put_line)

lemma told_comm: "keeps (\<lambda>c. open_stream c \<and> prefix xs (sent c)) m \<Longrightarrow> keeps (told xs) (on_comm m)"
  unfolding told_def by (rule comm.keeps_zoom)

lemma told_db [keeps_intros]: "keeps (told xs) (on_db m)"
  by (rule conn.keeps_zoom_frame) (simp add: told_def)

lemma told_print [keeps_intros]: "keeps (told xs) (print msg)"
  by (simp add: keeps_def print_def told_def)

lemmas told_tell [keeps_intros] = told_comm[OF keeps_told_put_line]
  and told_view_rows [keeps_intros] = told_comm[OF keeps_told_view_rows]
  and told_validate [keeps_intros] = told_comm[OF keeps_told_validate]
  and told_send [keeps_intros] = told_comm[OF keeps_told_send]

lemma told_send_orders [keeps_intros]: "keeps (told xs) (send_orders i rs)"
  by (induction i rs rule: send_orders.induct) (auto intro!: keeps_intros)

section \<open>Programs that answer\<close>

text \<open>If the program comes to its end, it has sent a message.\<close>

definition answering :: "('w, 'a) sprog \<Rightarrow> bool" where
  "answering m \<longleftrightarrow> (\<forall>s a s'. open_stream (comm s) \<longrightarrow> m s = (Inr a, s') \<longrightarrow>
     (\<exists>msg ms. sent (comm s') = sent (comm s) @ msg # ms) \<and> open_stream (comm s'))"

lemma told_more: "keeps (told (sent (comm s))) m \<Longrightarrow> open_stream (comm s) \<Longrightarrow> m s = (r, s') \<Longrightarrow>
    (\<exists>ms. sent (comm s') = sent (comm s) @ ms) \<and> open_stream (comm s')"
  by (auto simp: told_def prefix_def dest!: keepsD)

lemma answering_first:
  assumes "answering m" and "\<And>a xs. keeps (told xs) (f a)"
  shows "answering (cbind m f)"
  unfolding answering_def
proof (intro allI impI)
  fix s a s' assume s: "open_stream (comm s)" and run: "cbind m f s = (Inr a, s')"
  from run obtain b s1 where m: "m s = (Inr b, s1)" and f: "f b s1 = (Inr a, s')" by (rule cbindE)
  obtain msg ms where "sent (comm s1) = sent (comm s) @ msg # ms" "open_stream (comm s1)"
    using assms(1) s m unfolding answering_def by blast
  with told_more[OF assms(2) _ f]
  show "(\<exists>msg ms. sent (comm s') = sent (comm s) @ msg # ms) \<and> open_stream (comm s')" by auto
qed

lemma answering_last:
  assumes "\<And>xs. keeps (told xs) m" and "\<And>a s s'. m s = (Inr a, s') \<Longrightarrow> answering (f a)"
  shows "answering (cbind m f)"
  unfolding answering_def
proof (intro allI impI)
  fix s a s' assume s: "open_stream (comm s)" and run: "cbind m f s = (Inr a, s')"
  from run obtain b s1 where m: "m s = (Inr b, s1)" and f: "f b s1 = (Inr a, s')" by (rule cbindE)
  obtain ms where "sent (comm s1) = sent (comm s) @ ms" "open_stream (comm s1)"
    using told_more[OF assms(1) s m] by blast
  with assms(2)[OF m] f
  show "(\<exists>msg ms. sent (comm s') = sent (comm s) @ msg # ms) \<and> open_stream (comm s')"
    unfolding answering_def by (metis append.assoc append_Cons append_Nil neq_Nil_conv)
qed

lemma answering_tell: "answering (tell msg)"
  by (auto simp: answering_def zoom_def)

lemma answering_lines: "ms \<noteq> [] \<Longrightarrow> answering (on_comm (put_lines ms))"
  by (cases ms) (auto simp: comm.zoom_cbind intro!: answering_first answering_tell told_comm keeps_told_put_lines)

lemma answering_if: "(b \<Longrightarrow> answering m) \<Longrightarrow> (\<not> b \<Longrightarrow> answering m') \<Longrightarrow> answering (if b then m else m')"
  by simp

lemma answering_ignored: "answering (on_comm (cbind (put_ignored msg) f))" if "\<And>xs. keeps (\<lambda>c. open_stream c \<and> prefix xs (sent c)) (f ())"
  unfolding comm.zoom_cbind
  by (rule answering_first) (use that in \<open>auto simp: answering_def zoom_def intro: told_comm\<close>)

text \<open>The check of the number of words answers when it fails.\<close>

lemma answering_validate:
  assumes "answering m"
  shows "answering (cbind (on_comm (validate_command_args toks n)) (\<lambda>ok. if ok \<noteq> 1 then ret () else m))"
proof (cases "sa_size toks = n")
  case True
  then have "validate_command_args toks n = ret 1" by (simp add: validate_command_args_def)
  with assms show ?thesis by simp
next
  case False
  then show ?thesis by (auto simp: answering_def validate_command_args_def zoom_def cbind_def ret_def)
qed

section \<open>The commands\<close>

lemma answering_orders: "answering (handle_buy E uid toks)" "answering (handle_sell E uid toks)"
  unfolding handle_buy_def handle_sell_def
  by (intro answering_validate answering_last told_db; auto intro!: answering_last told_print answering_tell told_db)+

lemma answering_cancel_order: "answering (handle_cancel_order E uid toks)"
  unfolding handle_cancel_order_def
  by (intro answering_validate answering_last keeps_sa_get)
    (auto intro!: answering_last answering_tell told_db split: prod.split)

lemma answering_view: "answering (handle_view E uid toks)"
  unfolding handle_view_def
  by (intro answering_validate answering_if answering_tell answering_last[OF keeps_sa_get])
    (auto intro!: answering_last[OF told_db] answering_first[OF answering_tell] answering_tell keeps_intros
      split: option.split prod.split)

lemma answering_my_orders: "answering (handle_my_orders E uid)"
  unfolding handle_my_orders_def
  by (intro answering_last answering_first told_db answering_tell) (intro keeps_intros)

lemma answering_my_inventory: "answering (handle_my_inventory E uid)"
  unfolding handle_my_inventory_def Let_def
  by (intro answering_last told_db)
    (auto intro!: answering_tell answering_ignored keeps_intros keeps_told_put_ignored split: sum.split)

lemma answering_help: "answering handle_help"
  unfolding handle_help_def by (rule answering_lines) (simp add: help_texts_def)

lemma answering_run_command: "answering (run_command E uid line)"
  unfolding run_command_def
  by (intro answering_last answering_if answering_tell answering_orders answering_cancel_order answering_view
    answering_my_orders answering_my_inventory answering_help keeps_tokenize_line keeps_sa_get)

text \<open>The shortest line has an answer, too.\<close>

lemma run_blank_line:
  assumes "closed_words (c_str line) = []" and "length line \<le> max_strings"
  shows "run_command E uid line = tell (''Invalid syntax!'' @ CRLF)"
proof -
  obtain a where "(tokenize_line line :: ('a session, _) prog) = ret a" "sa_inv a" "sa_list a = []"
    using tokenize_line_ok[OF assms(2)] assms(1) by metis
  moreover from this have "sa_size a = 0" by (metis length_sa_list list.size(3))
  ultimately show ?thesis by (simp add: run_command_def)
qed

text \<open>A round of the loop takes one line and answers it.\<close>

lemma round_answers:
  assumes "open_stream (comm s)" and "echo_round E uid s = (Inr (), s')"
  shows "\<exists>line msg ms. inp (comm s) = line # inp (comm s') \<and> sent (comm s') = sent (comm s) @ msg # ms"
proof -
  obtain s1 s2 line where d: "dump E s = (Inr (), s1)" and l: "on_comm get_line s1 = (Inr line, s2)"
    and c: "run_command E uid line s2 = (Inr (), s')"
    using assms(2) unfolding echo_round_def by (auto elim!: cbindE)
  have s1: "comm s1 = comm s" using d by (auto simp: dump_def zoom_def print_def cbind_def split: prod.splits sum.splits)
  have s2: "inp (comm s) = line # inp (comm s2)" "sent (comm s2) = sent (comm s)" "open_stream (comm s2)"
    using l assms(1) by (auto simp: s1 zoom_def get_line_def open_stream_def split: list.splits)
  have "inp (comm s') = inp (comm s2)" using keepsD[OF keeps_input_run_command c refl] .
  with s2 c answering_run_command[of E uid line] show ?thesis by (auto simp: answering_def)
qed

end
