(* ===== verification/Spec2Isabelle.thy ===== *)
theory Spec2Isabelle
  imports Bystanders Races Journeys Listener Memory Mishaps Answers
begin

text \<open>
  OMG is a marketplace for four coins: a TCP server (src/src) where clients register, log in, and place,
  match, list and cancel orders that a SQLite database keeps. This is the root of its verification
  library; the model follows the C sources function by function.

  \<^bold>\<open>The program and its model.\<close> Every function of C is a definition of the same name, from state to
  result and state; a fault (leaving by \<open>error_and_exit\<close>, an index out of bounds, a bad pointer, signed
  overflow, a \<open>double\<close> that does not fit an \<open>int\<close>) ends the process and is the left summand of the result.

  \<^item> Prelude: that state and exception monad (\<open>prog\<close>), what a computation keeps (\<open>keeps\<close>), its use on a
    part of a larger state (\<open>zoom\<close>), C's \<open>int\<close> and C strings.
  \<^item> CNumber, CText: the standard library as far as it is called: \<open>double\<close> with rounding to nearest even
    (without the sign of zero), its conversions to and from \<open>int\<close>; \<open>strtol\<close>, \<open>strtod\<close>, \<open>%d\<close>, \<open>%.2f\<close>, \<open>%-30s\<close>.
  \<^item> StringArray (string_array.c), Comm (the client's stream), Util (util.c: tokenizer, names of coins,
    check of arguments; \<open>fprintf_to_string\<close> is in CText).
  \<^item> Schema (the tables of \<open>create_tables\<close> and the meaning of the 22 SQL texts of db.c), Engine (SQLite as a
    parameter, below), Db (db.c), DbFacts (what each call of db.c does, on success and on failure),
    Invariants (what every call and every command keeps, also beside other sessions).
  \<^item> Command (command.c): opening, orders from text, \<open>buy\<close>, \<open>sell\<close>, \<open>cancel_order\<close> and the listings.
  \<^item> Server (server.c): registration, login, the handlers, the command loop of a client, \<open>accept_client\<close>
    from the fork on, and \<open>start_server\<close>, the database part of \<open>main\<close>. Listener: the rest of the process, sockets,
    \<open>accept4\<close>, the fork and all of \<open>main\<close> (run_server.c), over a kernel whose answers are a parameter.
  \<^item> Memory: the functions that release memory, on a heap of blocks.
  \<^item> Market: what the commands promise, an abstract market of accounts, a book and a history with the
    steps \<open>Post\<close> and \<open>Cancel\<close>, with a notion of its own of what an owner can afford and of the amount and price of a
    trade, which command.c is shown to compute. Effects: what a command that comes to its end has done to the tables, as a step of
    the market. Refinement: each command that reports success has done that.
  \<^item> Failures and Outcomes: the tables that a command leaves when it stops half way, as \<open>trade_stage\<close>, \<open>booked\<close>
    and \<open>refund_only\<close>. Runs: a session as a run of such outcomes. Departures: how orders leave the book;
    Bystanders: how accounts change in the session of somebody else.
  \<^item> Accounts (the number of coins), Safety (who can lose what), Trading and Progress (commands that must
    succeed do), Listings, Answers and Transcripts (what is listed, that every
    line is answered, the text of the answers), Sessions, Logins,
    Arrivals, Handlers, Journeys (the parts of a session, and whole sessions), Startup (the server over many
    sessions), Races (sessions at the same time), Samples and Mishaps (the concrete markets of the witnesses).

  \<^bold>\<open>Interfaces.\<close> A session reaches the database through eight functions of db.c and command.c. The locales
  \<open>session_reader\<close>, \<open>session_login\<close> and \<open>session_commands\<close> in Sessions say what these have to keep, and show that
  the handlers, the loops and the session then keep it. They are used twice: for every invariant of the
  statements (\<open>session_invariant\<close>, with its interpretations in Invariants), and in Runs for the outcomes of
  commands. \<open>buy\<close> and \<open>sell\<close> share their trade but for the way the two parties are
  settled: \<open>trade_parties\<close> (Failures) and \<open>trade_settles\<close> (Trading) say what the trade needs of it.
  \<open>keyed_table\<close>, \<open>string_store\<close> and \<open>part\<close> are the interfaces of a table with keys, of the string array
  to the tokenizer, and of a part of a state.

  \<^bold>\<open>SQLite.\<close> The engine is not part of the repository. It is a parameter, the record \<open>platform\<close>: results of
  preparing, binding and running a statement, of memory allocation, of opening and closing. The locale
  \<open>sqlite_engine\<close> states its contract: a statement that reports success has the meaning Schema gives it, one
  that fails leaves the tables alone; parameters can be bound; everything else may fail at any time. The
  locale \<open>sqlite_healthy\<close> adds that calls that can succeed do: below, an engine that works. Both are interpreted
  on \<open>ref_platform\<close>, which computes; \<open>busy_platform\<close> in Samples and \<open>stuck_platform\<close> in Mishaps keep the contract
  and fail. Uninitialised memory of an order is a parameter too.

  \<^bold>\<open>Other sessions.\<close> Every client has a process of its own on the same database file. The locale
  \<open>sqlite_shared\<close> is the engine as such a process sees it: between two statements any number of whole
  statements of others may have run (\<open>traffic\<close>). \<open>sqlite_engine\<close> is the case without others (\<open>sublocale\<close>); C17
  shows that a session is itself such traffic, so the assumption holds of all sessions together.
  \<open>interrupted\<close> in Races makes a shared engine of any engine, on which another command comes in between;
  \<open>racing_platform\<close> is one that computes. What is shown of \<open>sqlite_engine\<close> and
  \<open>sqlite_healthy\<close> is about a command that no other session disturbs; C18 is what happens to one that is.

  \<^bold>\<open>What is shown.\<close> C1, C13, C17: what all sessions keep, at the same time as others. C2, C3: buying, selling
  and cancelling refine the market. C4 to C7: coins are conserved, or how far they are not, and cancelling
  undoes placing. C8, C12: all that a command can leave, also when it fails or the process dies in it. C9 to
  C11: poor users are refused, nobody else's account changes. C14 to C16: a session is a run of outcomes of one
  user's commands, nobody else's order vanishes in it, and nobody else's account changes but by a trade. C18:
  two sessions spend the same coins. C19 to C21: the loop of commands ends, the loop of the server does not. C22
  to C24: login and registration. C25 to C27: from the typed line to the command. C28 to C31: tokenizer, string
  array, memory. C32 to C34: the text of the listings is complete. C35 to C38: what must succeed succeeds, C36
  over a whole session. C39: start of the server. C40: no line stays without an answer.

  \<^bold>\<open>Bounds.\<close> \<open>ids_small\<close>: keys of the tables are below \<open>2 ^ 31\<close>, since \<open>sqlite3_column_int\<close> cuts them to an
  \<open>int\<close>. \<open>max_capacity\<close> (\<open>2 ^ 60\<close>) and \<open>max_strings\<close> (\<open>2 ^ 59\<close>): byte counts of the string array do not wrap
  around in 64 bits. C33: fewer than \<open>2 ^ 30\<close> archived rows, or the doubled capacity overflows. C19: the loops
  of a session read a line in each round, so a round more than there are lines is enough. The loop of \<open>main\<close>
  may run for ever: it has a number of rounds, \<open>None\<close> says that they were not enough, and C21 that none are.

  \<^bold>\<open>Not modelled.\<close> What another session may do within one statement (SQLite locks the file), and what
  becomes of a connection that is carried over a fork, which SQLite advises against: it is taken to work. \<open>fdopen\<close> is the
  parameter \<open>peer\<close>; buffering and \<open>fflush\<close> are left out, a message is sent when it is written. The heap of
  Memory serves the functions that only release memory; the other functions handle values, and the memory of
  \<open>strdup\<close>, \<open>getline\<close>, \<open>vasprintf\<close> and the string array is taken to be there. Fused multiplication and
  addition of \<open>double\<close>s. Messages on standard error. SQLite's handling of strings that are not UTF-8.
\<close>

section \<open>The tables\<close>

text \<open>C1: Whatever clients type, whatever the engine refuses and however sessions end, alone or with any
  number of others at the same time, the tables that a running server can reach are well-formed and exist.\<close>

theorem server_tables_sound:
  fixes S :: "'v platform" and E :: "'w platform"
  assumes "sqlite_engine S" and "sqlite_shared E" and "server_tables S E t"
  shows "wf_db t \<and> created t"
  by (rule server_tables_ok[OF assms])

lemma server_tables_sound_witness:
  "\<exists>t. server_tables ref_platform racing_platform t \<and> wf_db t \<and> created t"
proof -
  obtain c where c: "start_server ref_platform shop_conn = Inr c"
    using ref.start_server_healthy[of shop_conn] by auto
  define s where "s = (client [''r'' @ CRLF, ''carol'' @ CRLF, ''Carol'' @ CRLF, ''key'' @ CRLF])\<lparr>conn := c\<rparr>"
  have "server_tables ref_platform racing_platform (db (conn s))" by (simp add: s_def Started[OF c])
  then have "server_tables ref_platform racing_platform (db (conn (snd (accept_client racing_platform s))))"
    by (rule Served) (rule surjective_pairing)
  with server_tables_sound[OF ref.sqlite_engine_axioms racing.sqlite_shared_axioms this] show ?thesis by blast
qed

section \<open>Commands are steps of the market\<close>

text \<open>C2: On an engine that works an accepted order is a step of the market: it rests in the book, its coins locked, when no order of
  the other side fills it, and trades with the oldest one that does otherwise.\<close>

theorem order_refines_market:
  fixes E :: "'w platform"
  assumes "sqlite_healthy E" and "wf_db (db c)" and "ids_small (db c)" and "created (db c)"
    and "order_ints ord" and "in_int32 (ord_userID ord)"
    and "buyOrSell ord = BUY \<and> buy E (Some ord) c = (Inr 0, c') \<or>
      buyOrSell ord = SELL \<and> sell E (Some ord) c = (Inr 0, c')"
  shows "market_step (Post ord) (market_of (db c)) (market_of (db c'))"
proof -
  have "posted ord (db c) (db c')"
    using assms(7) sqlite_healthy.buy_done[OF assms(1-6)] sqlite_healthy.sell_done[OF assms(1-6)] by blast
  from posted_step[OF this] assms(2) show ?thesis by simp
qed

lemma order_refines_market_witness:
  "market_step (Post bid) (market_of shop) (market_of (db bought)) \<and>
   market_step (Post ask_price) (market_of shop) (market_of (db sold))"
  using order_refines_market[OF ref.sqlite_healthy_axioms, of shop_conn bid bought] bought_run
    order_refines_market[OF ref.sqlite_healthy_axioms, of shop_conn ask_price sold] sold_run sample_orders
    shop_wf shop_small shop_created by simp

text \<open>C3: Cancelling, on any engine, takes exactly the named order of the caller out of the book, refunds its
  owner, and changes nothing else.\<close>

theorem cancel_refines_market:
  fixes E :: "'w platform"
  assumes "sqlite_engine E" and "wf_db (db c)" and "ids_small (db c)"
    and "cancel_order E k uid c = (Inr 0, c')"
  shows "market_step (Cancel uid k) (market_of (db c)) (market_of (db c'))"
  using cancelled_step[OF sqlite_engine.cancel_order_done[OF assms]] assms(2) by simp

lemma cancel_refines_market_witness:
  "market_step (Cancel 1 1) (market_of shop) (market_of (db withdrawn))"
  using cancel_refines_market[OF ref.sqlite_engine_axioms, of shop_conn 1 1 withdrawn] withdrawn_run
    shop_wf shop_small by simp

section \<open>Coins\<close>

text \<open>C4: An order that rests moves coins without changing their number; one that trades destroys, of the
  coin that the matched order had locked, as many as the trade is about: its owner is debited a second time
  for them. (On an engine that works; the new quantity and those of the orders that can fill it are not negative,
  and these have a whole price and coins locked, \<open>sound_fill\<close>.)\<close>

theorem order_destroys_coins:
  fixes E :: "'w platform"
  assumes "sqlite_healthy E" and "wf_db (db c)" and "ids_small (db c)" and "created (db c)"
    and "order_ints ord" and "in_int32 (ord_userID ord)"
    and "buyOrSell ord = BUY \<and> buy E (Some ord) c = (Inr 0, c') \<or>
      buyOrSell ord = SELL \<and> sell E (Some ord) c = (Inr 0, c')"
    and "0 \<le> quantity ord" and "\<forall>m \<in> set (orders (db c)). fills m ord \<longrightarrow> sound_fill ord m"
  shows "(\<forall>m \<in> set (orders (db c)). \<not> fills m ord) \<and> coin_supply i (db c') = coin_supply i (db c) \<or>
    (\<exists>m \<in> set (orders (db c)). fills m ord \<and> (\<forall>x \<in> set (orders (db c)). fills x ord \<longrightarrow> older m x) \<and>
      coin_supply i (db c') = coin_supply i (db c) - locked i (m\<lparr>quantity := trade_quantity ord m\<rparr>))"
proof -
  have "posted ord (db c) (db c')"
    using assms(7) sqlite_healthy.buy_done[OF assms(1-6)] sqlite_healthy.sell_done[OF assms(1-6)] by blast
  from posted_supply[OF this _ assms(8,9)] assms(2) show ?thesis by simp
qed

lemma order_destroys_coins_witness:
  "coin_supply COIN_DOGE (db bought) = coin_supply COIN_DOGE shop - 5 \<and>
   coin_supply COIN_OMG (db sold) = coin_supply COIN_OMG shop - 120"
proof
  show "coin_supply COIN_DOGE (db bought) = coin_supply COIN_DOGE shop - 5"
  proof -
    have only: "\<forall>m \<in> set (orders shop). fills m bid \<longleftrightarrow> m = alice_sells" and "alice_sells \<in> set (orders shop)"
      by (auto simp: sample_defs bid_def fills_def dle_def)
    moreover have "sound_fill bid alice_sells"
      by (auto simp: sound_fill_def sample_defs bid_def whole_price_def lock_def trade_quantity_def intro!: exI[of _ 2])
    moreover have "0 \<le> quantity bid" by (simp add: sample_defs bid_def)
    moreover have "locked COIN_DOGE (alice_sells\<lparr>quantity := trade_quantity bid alice_sells\<rparr>) = 5"
      by (simp add: locked_def lock_def sample_defs bid_def trade_quantity_def)
    ultimately show ?thesis
      using order_destroys_coins[OF ref.sqlite_healthy_axioms, of shop_conn bid bought COIN_DOGE] bought_run sample_orders
        shop_wf shop_small shop_created by auto
  qed
  show "coin_supply COIN_OMG (db sold) = coin_supply COIN_OMG shop - 120"
  proof -
    have only: "\<forall>m \<in> set (orders shop). fills m ask_price \<longleftrightarrow> m = alice_buys" and "alice_buys \<in> set (orders shop)"
      by (auto simp: sample_defs ask_price_def fills_def dle_def)
    moreover have "sound_fill ask_price alice_buys"
      by (auto simp: sound_fill_def sample_defs ask_price_def whole_price_def lock_def order_cost_def arith_defs
          trade_quantity_def intro!: exI[of _ 30])
    moreover have "0 \<le> quantity ask_price" by (simp add: sample_defs ask_price_def)
    moreover have "locked COIN_OMG (alice_buys\<lparr>quantity := trade_quantity ask_price alice_buys\<rparr>) = 120"
      by (simp add: locked_def lock_def sample_defs ask_price_def trade_quantity_def order_cost_def arith_defs)
    ultimately show ?thesis
      using order_destroys_coins[OF ref.sqlite_healthy_axioms, of shop_conn ask_price sold COIN_OMG] sold_run sample_orders
        shop_wf shop_small shop_created by auto
  qed
qed

text \<open>C5: Cancelling an order, on any engine, gives back exactly what it had locked, when the price of a buy order is
  a whole number.\<close>

theorem cancel_keeps_coins:
  fixes E :: "'w platform"
  assumes "sqlite_engine E" and "wf_db (db c)" and "ids_small (db c)"
    and "cancel_order E k uid c = (Inr 0, c')" and "r \<in> set (orders (db c))" and "orderID r = k"
    and "lock r = Some (j, n)" and "buyOrSell r = BUY \<Longrightarrow> whole_price r p"
  shows "coin_supply i (db c') = coin_supply i (db c)"
  by (rule cancelled_supply[OF sqlite_engine.cancel_order_done[OF assms(1-4)] _ assms(5-8)]) (use assms(2) in simp_all)

lemma cancel_keeps_coins_witness:
  "coin_supply COIN_DOGE (db withdrawn) = coin_supply COIN_DOGE shop"
  using cancel_keeps_coins[OF ref.sqlite_engine_axioms, of shop_conn 1 1 withdrawn alice_sells COIN_DOGE 100 0 COIN_DOGE]
    withdrawn_run shop_wf shop_small by (simp add: sample_defs lock_def)

text \<open>C6: At any price, of whatever sign, cancelling a bid gives back what it had locked, up to one OMG: one more may
  come when the rounded cost is not negative, one less when it is. The refund and the balance are added as rounded
  \<open>double\<close>s, while the lock had been truncated.\<close>

theorem cancel_slips_by_at_most_one:
  fixes E :: "'w platform"
  assumes "sqlite_engine E" and "wf_db (db c)" and "ids_small (db c)"
    and "cancel_order E k uid c = (Inr 0, c')" and "r \<in> set (orders (db c))" and "orderID r = k"
    and "lock r = Some (COIN_OMG, n)"
  shows "coin_supply COIN_OMG (db c') - coin_supply COIN_OMG (db c) \<in>
    (if dle (Fin 0) (dmul (of_cint (quantity r)) (unitPrice r)) then {0, 1} else {- 1, 0})"
  unfolding slips_def[symmetric]
proof (rule cancelled_supply_OMG[OF sqlite_engine.cancel_order_done[OF assms(1-4)] _ assms(5-7)])
  show "\<forall>u \<in> set (users (db c)). in_int32 (OMG u)" using assms(2) by (auto simp: wf_db_def user_ok_def)
qed (use assms(2) in simp)

lemma cancel_slips_by_at_most_one_witness:
  "coin_supply COIN_OMG (db unbid) - coin_supply COIN_OMG shop \<in> {0, 1}"
  using cancel_slips_by_at_most_one[OF ref.sqlite_engine_axioms, of shop_conn 2 1 unbid alice_buys 300]
    unbid_run shop_wf shop_small by (simp add: sample_defs lock_def order_cost_def arith_defs dle_def)

text \<open>C7: Placing an order and cancelling it leaves every account, every open order and the history as they were,
  when it is a sell order or a bid at a whole price. At any other price the same holds up to one OMG of the owner,
  the slip of C6.\<close>

theorem place_then_cancel:
  fixes E :: "'w platform"
  assumes "sqlite_engine E" and "wf_db (db c)" and "order_ints ord" and "in_int32 (ord_userID ord)"
    and "buyOrSell ord \<in> {BUY, SELL}"
    and "insert_order E ord c = (Inr 0, c1)" and "ids_small (db c1)"
    and "cancel_order E (order_seq (db c1)) uid c1 = (Inr 0, c2)"
  shows "(buyOrSell ord = SELL \<or> whole_price ord p \<longrightarrow> market_of (db c2) = market_of (db c)) \<and>
    (\<exists>u d. acct (market_of (db c)) uid = Some u \<and> d \<in> (if buyOrSell ord = SELL then {0} else slips ord) \<and>
      market_of (db c2) = (market_of (db c))\<lparr>acct := (acct (market_of (db c)))(uid \<mapsto> u\<lparr>OMG := OMG u + d\<rparr>)\<rparr>)"
proof -
  have pl: "placed ord (db c) (db c1)" by (rule sqlite_engine.insert_order_done[OF assms(1,2,4,5,6)])
  then obtain ts where "place ord (order_seq (db c) + 1) ts (market_of (db c)) = Some (market_of (db c1))"
    using placed_place assms(2) by blast
  moreover have "order_seq (db c1) = order_seq (db c) + 1"
    using pl by (auto simp: placed_def set_user_def change_balance_def add_order_def)
  ultimately have place: "place ord (order_seq (db c1)) ts (market_of (db c)) = Some (market_of (db c1))" by simp
  have "wf_db (db c1)" using keepsD[OF wf.keeps_insert_order[OF sqlite_engine.shared[OF assms(1)] assms(3)] assms(6)] assms(2) .
  then have cancel: "market_step (Cancel uid (order_seq (db c1))) (market_of (db c1)) (market_of (db c2))"
    using cancelled_step[OF sqlite_engine.cancel_order_done[OF assms(1) _ assms(7,8)]] by simp
  have "in_int32 (OMG u)" if "acct (market_of (db c)) uid = Some u" for u
    using that assms(2) by (auto simp: acct_iff wf_db_def user_ok_def keys_ok_def)
  then show ?thesis
    using place_cancel_slips[OF place assms(5) cancel] place_cancel_same[OF place assms(5) cancel] by auto
qed

lemma place_then_cancel_witness:
  "market_of (db taken_back) = market_of shop"
proof -
  have "order_ints eth_offer" "in_int32 (ord_userID eth_offer)" "buyOrSell eth_offer = SELL"
    by (simp_all add: eth_offer_def bob_order_def order_ints_def in_int32_def)
  then show ?thesis
    using place_then_cancel[OF ref.sqlite_engine_axioms, of shop_conn eth_offer offered 2 taken_back 0] offered_run
      taken_back_run shop_wf by simp
qed

text \<open>C8: Cancelling, on any engine, gives 0 and has taken the caller's order back, or gives \<open>-1\<close> and has done nothing
  or written no more than the refund, or faults before any write at the caller's own order. So nobody cancels an
  order that is not theirs; but when the deletion fails the order is refunded and still open.\<close>

theorem cancel_outcomes:
  fixes E :: "'w platform"
  assumes "sqlite_engine E" and "wf_db (db c)" and "ids_small (db c)" and "cancel_order E k uid c = (r, c')"
  shows "r = Inr 0 \<and> cancelled uid k (db c) (db c') \<or>
    r = Inr (- 1) \<and> (db c' = db c \<or> refund_only uid k (db c) (db c')) \<or>
    (\<exists>e. r = Inl e) \<and> db c' = db c \<and> (\<exists>x \<in> set (orders (db c)). orderID x = k \<and> ord_userID x = uid)"
  using outcomeD[OF sqlite_engine.outcome_cancel_order[OF assms(1-3)] _ assms(4)]
  by (cases r) (auto simp: cancel_outcome_def own_order_def)

lemma cancel_outcomes_witness:
  "fst (cancel_order ref_platform 1 2 shop_conn) = Inr (- 1) \<and> db (snd (cancel_order ref_platform 1 2 shop_conn)) = shop \<and>
   refund_only 1 1 shop (db refunded_once) \<and> refund_only 1 1 (db refunded_once) (db refunded_twice) \<and>
   map DOGE (users (db refunded_twice)) = [300, 200] \<and> orders (db refunded_twice) = orders shop"
proof (intro conjI)
  have "\<not> cancelled 2 1 shop t" "\<not> refund_only 2 1 shop t" "\<not> (\<exists>x \<in> set (orders shop). orderID x = 1 \<and> ord_userID x = 2)"
    for t by (auto simp: cancelled_def refund_only_def sample_defs)
  then show "fst (cancel_order ref_platform 1 2 shop_conn) = Inr (- 1)" "db (snd (cancel_order ref_platform 1 2 shop_conn)) = shop"
    using cancel_outcomes[OF ref.sqlite_engine_axioms _ _ surjective_pairing, of shop_conn 1 2] shop_wf shop_small by auto
  have changed: "db refunded_once \<noteq> shop" "db refunded_twice \<noteq> db refunded_once"
    using refunded_once_run(2) refunded_twice_run(2) by (auto simp: sample_defs)
  with cancel_outcomes[OF stuck.sqlite_engine_axioms _ _ refunded_once_run(1)] shop_wf shop_small
  show "refund_only 1 1 shop (db refunded_once)" by simp
  have "wf_db (db refunded_once)" "ids_small (db refunded_once)"
    using keepsD[OF wf.keeps_cancel_order[OF stuck.shared] refunded_once_run(1)] shop_wf
    refunded_once_run(3) by simp_all
  with changed cancel_outcomes[OF stuck.sqlite_engine_axioms _ _ refunded_twice_run(1)]
  show "refund_only 1 1 (db refunded_once) (db refunded_twice)" by simp
qed (rule refunded_twice_run)+

text \<open>C9: An order that its owner cannot pay for, a bid whose rounded cost exceeds the OMG balance or an offer of more
  coins than the balance of that coin, is refused, as is one whose owner does not exist, and the tables stay as they
  are, on any engine.\<close>

theorem unaffordable_order_refused:
  fixes E :: "'w platform"
  assumes "sqlite_engine E" and "wf_db (db c)" and "in_int32 (ord_userID ord)"
    and "\<forall>u \<in> set (users (db c)). userID u = ord_userID ord \<longrightarrow> \<not> affordable ord u"
    and "buyOrSell ord = BUY \<and> buy E (Some ord) c = (r, c') \<or> buyOrSell ord = SELL \<and> sell E (Some ord) c = (r, c')"
  shows "r = Inr (- 1) \<and> db c' = db c"
  using assms(5) sqlite_engine.buy_refused[OF assms(1-3) _ assms(4)]
    sqlite_engine.sell_refused[OF assms(1-3) _ assms(4)] by blast

lemma unaffordable_order_refused_witness:
  "fst (sell ref_platform (Some (bob_order COIN_BTC SELL 51 2)) shop_conn) = Inr (- 1) \<and>
   db (snd (sell ref_platform (Some (bob_order COIN_BTC SELL 51 2)) shop_conn)) = db shop_conn"
proof (rule unaffordable_order_refused[OF ref.sqlite_engine_axioms])
  show "\<forall>u \<in> set (users (db shop_conn)). userID u = ord_userID (bob_order COIN_BTC SELL 51 2) \<longrightarrow>
      \<not> affordable (bob_order COIN_BTC SELL 51 2) u"
    by (simp add: sample_defs affordable_def coins_def)
qed (simp_all add: shop_wf bob_order_def in_int32_def)

text \<open>C10: On an engine that works an accepted buy order does not leave a buyer in debt who was not before, when
  neither its quantity nor quantity and price of the offers that fill it are negative.\<close>

theorem buyer_stays_solvent:
  fixes E :: "'w platform"
  assumes "sqlite_healthy E" and "wf_db (db c)" and "ids_small (db c)" and "created (db c)"
    and "order_ints ord" and "in_int32 (ord_userID ord)" and "buyOrSell ord = BUY"
    and "buy E (Some ord) c = (Inr 0, c')" and "0 \<le> quantity ord"
    and "\<forall>m \<in> set (orders (db c)). fills m ord \<longrightarrow> 0 \<le> quantity m \<and> Fin 0 \<le> unitPrice m"
    and "u \<in> set (users (db c))" and "userID u = ord_userID ord" and "0 \<le> OMG u"
  shows "\<exists>v. acct (market_of (db c')) (ord_userID ord) = Some v \<and> 0 \<le> OMG v"
proof (rule step_solvent[OF _ assms(7,9) _ _ assms(13)])
  show "market_step (Post ord) (market_of (db c)) (market_of (db c'))"
    using posted_step[OF sqlite_healthy.buy_done[OF assms(1-8)]] assms(2) by simp
qed (use assms(2,10-12) in \<open>simp_all add: acct_iff ran_book\<close>)

lemma buyer_stays_solvent_witness:
  "\<exists>v. acct (market_of (db bought)) 2 = Some v \<and> 0 \<le> OMG v"
proof -
  have "\<forall>m \<in> set (orders shop). 0 \<le> quantity m \<and> Fin 0 \<le> unitPrice m" "0 \<le> quantity bid" "ord_userID bid = 2"
    "bob \<in> set (users shop)" "userID bob = 2" "0 \<le> OMG bob"
    by (simp_all add: sample_defs bid_def)
  then show ?thesis
    using buyer_stays_solvent[OF ref.sqlite_healthy_axioms, of shop_conn bid bought bob] bought_run sample_orders
      shop_wf shop_small shop_created by simp
qed

text \<open>C11: A new order changes the account of nobody but its owner and the owners of the orders that can fill
  it, whatever it returns and even if the process dies in it, on an engine that works.\<close>

theorem bystanders_keep_their_accounts:
  fixes E :: "'w platform"
  assumes "sqlite_healthy E" and "wf_db (db c)" and "ids_small (db c)" and "created (db c)"
    and "order_ints ord" and "in_int32 (ord_userID ord)"
    and "buyOrSell ord = BUY \<and> buy E (Some ord) c = (r, c') \<or> buyOrSell ord = SELL \<and> sell E (Some ord) c = (r, c')"
    and "k \<noteq> ord_userID ord" and "\<forall>m \<in> set (orders (db c)). fills m ord \<longrightarrow> ord_userID m \<noteq> k"
  shows "acct (market_of (db c')) k = acct (market_of (db c)) k"
proof (rule post_frame[OF _ _ assms(8,9)])
  show "post_outcome ord (r = Inr 0) (db c) (db c')"
    using assms(7) sqlite_healthy.buy_outcome[OF assms(1-6)] sqlite_healthy.sell_outcome[OF assms(1-6)] by blast
qed (use assms(2) in simp)

lemma bystanders_keep_their_accounts_witness:
  "acct (market_of (db bought)) 3 = acct (market_of shop) 3 \<and> acct (market_of (db omg_sold)) 3 = acct (market_of omg_shop) 3"
proof
  have "ord_userID bid = 2" "\<forall>m \<in> set (orders shop). ord_userID m \<noteq> 3" by (simp_all add: sample_defs bid_def)
  then show "acct (market_of (db bought)) 3 = acct (market_of shop) 3"
    using bystanders_keep_their_accounts[OF ref.sqlite_healthy_axioms, of shop_conn bid "Inr 0" bought 3] bought_run
      sample_orders shop_wf shop_small shop_created by simp
  have "ord_userID omg_offer = 2" "\<forall>m \<in> set (orders omg_shop). ord_userID m \<noteq> 3" by (simp_all add: sample_defs omg_defs)
  then show "acct (market_of (db omg_sold)) 3 = acct (market_of omg_shop) 3"
    using bystanders_keep_their_accounts[OF ref.sqlite_healthy_axioms, of omg_conn omg_offer "Inr (- 1)" omg_sold 3]
      omg_sold_run(1) omg_offer_ok omg_shop_wf omg_shop_small by (simp add: omg_defs sample_defs)
qed

section \<open>What a failure leaves\<close>

text \<open>C12: Whatever a new order returns and however it is interrupted, on any engine, the tables it leaves are those of
  a command that stopped between two of its statements: nothing done, the order in the book without its coins
  locked, or a trade with an open order at some stage. It gives 0 exactly if the order rests or the trade is done.\<close>

theorem failed_order_leaves_a_prefix:
  fixes E :: "'w platform"
  assumes "sqlite_engine E" and "wf_db (db c)" and "ids_small (db c)" and "order_ints ord" and "in_int32 (ord_userID ord)"
    and "buyOrSell ord = BUY \<and> buy E (Some ord) c = (r, c') \<or> buyOrSell ord = SELL \<and> sell E (Some ord) c = (r, c')"
  shows "if r = Inr 0
    then placed ord (db c) (db c') \<or> (\<exists>m \<in> set (orders (db c)). trade_stage ord m (db c) (last_stage ord m) (db c'))
    else db c' = db c \<or> booked ord (db c) (db c') \<or>
      (\<exists>m \<in> set (orders (db c)). \<exists>n. trade_stage ord m (db c) n (db c') \<and> n \<noteq> last_stage ord m)"
  using assms(6)
proof (elim disjE conjE)
  assume "buyOrSell ord = BUY" and "buy E (Some ord) c = (r, c')"
  from outcomeD[OF sqlite_engine.outcome_buy[OF assms(1-5) this(1)] _ this(2)]
  show ?thesis by (cases r) (auto simp: order_outcome_def stopped_def)
next
  assume "buyOrSell ord = SELL" and "sell E (Some ord) c = (r, c')"
  from outcomeD[OF sqlite_engine.outcome_sell[OF assms(1-5) this(1)] _ this(2)]
  show ?thesis by (cases r) (auto simp: order_outcome_def stopped_def)
qed

lemma failed_order_leaves_a_prefix_witness:
  "sell ref_platform (Some omg_offer) omg_conn = (Inr (- 1), omg_sold) \<and> last_stage omg_offer omg_bid = 7 \<and>
   (\<exists>n. trade_stage omg_offer omg_bid omg_shop n (db omg_sold) \<and> n \<noteq> 7)"
proof (intro conjI)
  show l: "last_stage omg_offer omg_bid = 7" by (simp add: last_stage_def omg_defs sample_defs)
  have "db omg_sold \<noteq> omg_shop" "\<not> booked omg_offer omg_shop (db omg_sold)" "set (orders omg_shop) = {omg_bid}"
    using omg_sold_run(2) by (auto simp: omg_defs sample_defs booked_def add_order_def)
  then show "\<exists>n. trade_stage omg_offer omg_bid omg_shop n (db omg_sold) \<and> n \<noteq> 7"
    using failed_order_leaves_a_prefix[OF ref.sqlite_engine_axioms, of omg_conn omg_offer "Inr (- 1)" omg_sold]
      omg_sold_run(1) omg_offer_ok omg_shop_wf omg_shop_small l by simp
qed (rule omg_sold_run)

section \<open>Sessions\<close>

text \<open>C13: Sessions, also at the same time, only add to what is there for good: archived orders stay as they
  are and in their order, accounts stay and keep number, names and password, and the number of an order that is
  gone is never given to another order.\<close>

theorem sessions_only_add:
  fixes E :: "'w platform"
  assumes "sqlite_shared E" and "accept_client E s = (r, s')"
  shows "prefix (archives (db (conn s))) (archives (db (conn s'))) \<and>
    prefix (map credentials (users (db (conn s)))) (map credentials (users (db (conn s')))) \<and>
    ({k. k \<le> order_seq (db (conn s))} - orderID ` set (orders (db (conn s)))) \<inter> orderID ` set (orders (db (conn s'))) = {}"
proof (intro conjI)
  show "prefix (archives (db (conn s))) (archives (db (conn s')))"
    using keepsD[OF archived.keeps_accept_client[OF assms(1)] assms(2)] unfolding archived_since_def by blast
  show "prefix (map credentials (users (db (conn s)))) (map credentials (users (db (conn s'))))"
    using keepsD[OF accounts.keeps_accept_client[OF assms(1)] assms(2)] unfolding accounts_since_def by blast
  show "({k. k \<le> order_seq (db (conn s))} - orderID ` set (orders (db (conn s)))) \<inter> orderID ` set (orders (db (conn s'))) = {}"
    using keepsD[OF gone.keeps_accept_client[OF assms(1)] assms(2), of _ "order_seq (db (conn s))"]
    by (auto simp: gone_since_def)
qed

lemma sessions_only_add_witness:
  "1 \<notin> orderID ` set (orders (db (conn (snd (accept_client racing_platform
     ((client [''x'' @ CRLF])\<lparr>conn := withdrawn\<rparr>)))))) \<and>
   prefix [(1, ''alice'', ''sesame'', ''Alice''), (2, ''bob'', ''hush'', ''Bob'')]
     (map credentials (users (db (conn (snd (accept_client racing_platform ((client [''x'' @ CRLF])\<lparr>conn := withdrawn\<rparr>)))))))"
proof -
  have "order_seq (db withdrawn) = 2" "1 \<notin> orderID ` set (orders (db withdrawn))"
    "map credentials (users (db withdrawn)) = [(1, ''alice'', ''sesame'', ''Alice''), (2, ''bob'', ''hush'', ''Bob'')]"
    by (simp_all add: withdrawn_def run_defs sample_defs credentials_def)
  moreover note sessions_only_add[OF racing.sqlite_shared_axioms surjective_pairing,
      of "(client [''x'' @ CRLF])\<lparr>conn := withdrawn\<rparr>"]
  moreover have "1 \<in> {k :: int. k \<le> 2}" by simp
  ultimately show ?thesis by (simp del: mem_Collect_eq) blast
qed

text \<open>C14: Alone on any engine, everything a session does to the tables is a run of the specification: newcomers
  are added, then orders and cancellations of one user, who has typed name and password, come to one of their
  outcomes, and nothing else happens, whatever the client types and wherever the session ends.\<close>

theorem session_is_a_run:
  fixes E :: "'w platform"
  assumes "sqlite_engine E" and "wf_db (db (conn s))" and "ids_small (db (conn s'))" and "accept_client E s = (r, s')"
  shows "\<exists>t1. arrival\<^sup>*\<^sup>* (db (conn s)) t1 \<and> (db (conn s') = t1 \<or>
    (\<exists>u \<in> set (users t1). typed_login u (inp (comm s)) \<and> (command_step (userID u))\<^sup>*\<^sup>* t1 (db (conn s'))))"
  by (rule sqlite_engine.accept_client_run[OF assms])

lemma typed_low_bid: "order_of_words low_bid ''buy'' COIN_DOGE ''1'' ''5'' 2 = low_bid"
proof -
  have "strtod ''1'' = (Fin 1, [])" "strtol ''5'' = (5, [])" "strcase_eq ''buy'' ''buy''" by code_simp+
  then show ?thesis by (simp add: order_of_words_def low_bid_def bob_order_def in_int32_def)
qed

lemma bob_bids:
  obtains r s' where "accept_client ref_platform
      (client [''u'' @ CRLF, ''bob'' @ CRLF, ''hush'' @ CRLF, ''buy doge 1 5'' @ CRLF]) = (r, s')"
    and "ids_small (db (conn s'))" and "placed low_bid shop (db (conn s'))"
proof -
  let ?ls = "[CHR ''u'' # CRLF, ''bob'' @ CRLF, ''hush'' @ CRLF, ''buy doge 1 5'' @ CRLF]"
  have l: "strip_newline (''bob'' @ CRLF) = Some (username bob)" "strip_newline (''hush'' @ CRLF) = Some (password bob)"
    "ends_line (''hush'' @ CRLF)" by (simp_all add: sample_defs strip_newline_def c_str_def ends_line_def)
  have w: "closed_words (c_str (''buy doge 1 5'' @ CRLF)) = [''buy'', ''doge'', ''1'', ''5'']"
    "strcase_eq ''buy'' ''buy''" "COIN_of_string ''doge'' = Some COIN_DOGE" by code_simp+
  have b: "bob \<in> set (users shop)" "userID bob = 2" "affordable low_bid bob" "order_cost low_bid = Some 5"
    "in_int32 (OMG bob - 5)"
    by (simp_all add: low_bid_def sample_defs in_int32_def affordable_def order_cost_def arith_defs)
  have o: "low_bid = order_of_words low_bid ''buy'' COIN_DOGE ''1'' ''5'' (userID bob)" using typed_low_bid b(2) by simp
  have m: "moves_on shop ?ls (client ?ls)" by (simp add: moves_on_def)
  have n: "length (''buy doge 1 5'' @ CRLF) \<le> max_strings" by (simp add: max_strings_def)
  obtain r s' where r: "accept_client ref_platform (client ?ls) = (r, s')" by force
  have "placed low_bid shop (db (conn s'))"
    using ref.typed_bid[OF shop_wf shop_small shop_created b(1) m l w(1) n w(2,3) o b(3) low_bid_unfillable b(4,5)] r
    by simp
  moreover from this have "ids_small (db (conn s'))"
    by (auto simp: placed_def set_user_def change_balance_def add_order_def ids_small_def sample_defs)
  ultimately show thesis using r that by simp
qed

lemma session_is_a_run_witness:
  "\<exists>r s' t1. accept_client ref_platform
     (client [''u'' @ CRLF, ''bob'' @ CRLF, ''hush'' @ CRLF, ''buy doge 1 5'' @ CRLF]) = (r, s') \<and>
   arrival\<^sup>*\<^sup>* shop t1 \<and> (db (conn s') = t1 \<or> (\<exists>u \<in> set (users t1). (command_step (userID u))\<^sup>*\<^sup>* t1 (db (conn s'))))"
proof -
  obtain r s' where r: "accept_client ref_platform
     (client [''u'' @ CRLF, ''bob'' @ CRLF, ''hush'' @ CRLF, ''buy doge 1 5'' @ CRLF]) = (r, s')" "ids_small (db (conn s'))"
    by (rule bob_bids)
  with session_is_a_run[OF ref.sqlite_engine_axioms _ r(2,1)] shop_wf show ?thesis by fastforce
qed

lemma not_alice: "l1 = ''u'' @ CRLF \<Longrightarrow> \<not> typed_login alice [l1, ''bob'' @ CRLF, ''hush'' @ CRLF, ''buy doge 1 5'' @ CRLF]"
proof -
  have "\<forall>l \<in> set [''u'' @ CRLF, ''bob'' @ CRLF, ''hush'' @ CRLF, ''buy doge 1 5'' @ CRLF]. strip_newline l \<noteq> Some (username alice)"
    by (simp add: sample_defs strip_newline_def c_str_def)
  then show "l1 = ''u'' @ CRLF \<Longrightarrow> ?thesis" unfolding typed_login_def by (metis in_set_conv_decomp)
qed

text \<open>C15: During the session of somebody else, an order stays open, with the quantity that is left of it, or is
  archived: it leaves the book by a trade only, whatever fails. (Alone on any engine; somebody else is a client
  who does not type the owner's name and password.)\<close>

theorem orders_leave_through_the_archive:
  fixes E :: "'w platform"
  assumes "sqlite_engine E" and "wf_db (db (conn s))" and "ids_small (db (conn s'))" and "accept_client E s = (r, s')"
    and "ord \<in> set (orders (db (conn s)))"
    and "u \<in> set (users (db (conn s)))" and "userID u = ord_userID ord" and "\<not> typed_login u (inp (comm s))"
  shows "(\<exists>q. ord\<lparr>quantity := q\<rparr> \<in> set (orders (db (conn s')))) \<or>
    (\<exists>k q. ord\<lparr>orderID := k, quantity := q\<rparr> \<in> set (drop (length (archives (db (conn s)))) (archives (db (conn s')))))"
  using sqlite_engine.order_leaves[OF assms] by (simp add: traced_def)

lemma orders_leave_through_the_archive_witness:
  "\<exists>r s'. accept_client ref_platform
     (client [''u'' @ CRLF, ''bob'' @ CRLF, ''hush'' @ CRLF, ''buy doge 1 5'' @ CRLF]) = (r, s') \<and>
   ((\<exists>q. alice_sells\<lparr>quantity := q\<rparr> \<in> set (orders (db (conn s')))) \<or>
    (\<exists>k q. alice_sells\<lparr>orderID := k, quantity := q\<rparr> \<in> set (archives (db (conn s')))))"
proof -
  let ?ls = "[''u'' @ CRLF, ''bob'' @ CRLF, ''hush'' @ CRLF, ''buy doge 1 5'' @ CRLF]"
  obtain r s' where r: "accept_client ref_platform (client ?ls) = (r, s')" "ids_small (db (conn s'))"
    by (rule bob_bids)
  have "alice \<in> set (users shop)" "alice_sells \<in> set (orders shop)" "userID alice = ord_userID alice_sells" "archives shop = []"
    by (simp_all add: sample_defs)
  moreover have "\<not> typed_login alice ?ls" by (rule not_alice) simp
  ultimately show ?thesis
    using orders_leave_through_the_archive[OF ref.sqlite_engine_axioms _ r(2,1), of alice_sells alice] shop_wf r(1) by auto
qed

text \<open>C16: During the session of somebody else an account changes only by trades: its row, balances, names and password,
  is still there unchanged, or an order of the user that was open when the session began has been archived in
  it. So the coins of a user without open orders are safe, whatever others type and whatever fails. (Alone on
  any engine, as C15.)\<close>

theorem accounts_change_by_trades_only:
  fixes E :: "'w platform"
  assumes "sqlite_engine E" and "wf_db (db (conn s))" and "ids_small (db (conn s'))" and "accept_client E s = (r, s')"
    and "u \<in> set (users (db (conn s)))" and "\<not> typed_login u (inp (comm s))"
  shows "u \<in> set (users (db (conn s'))) \<or> (\<exists>ord \<in> set (orders (db (conn s))). ord_userID ord = userID u \<and>
    (\<exists>k q. ord\<lparr>orderID := k, quantity := q\<rparr> \<in> set (drop (length (archives (db (conn s)))) (archives (db (conn s'))))))"
  by (rule sqlite_engine.account_kept[OF assms])

lemma accounts_change_by_trades_only_witness:
  "\<exists>r s'. accept_client ref_platform
     (client [''u'' @ CRLF, ''bob'' @ CRLF, ''hush'' @ CRLF, ''buy doge 1 5'' @ CRLF]) = (r, s') \<and>
   alice \<in> set (users (db (conn s')))"
proof -
  let ?ls = "[''u'' @ CRLF, ''bob'' @ CRLF, ''hush'' @ CRLF, ''buy doge 1 5'' @ CRLF]"
  obtain r s' where r: "accept_client ref_platform (client ?ls) = (r, s')" "ids_small (db (conn s'))"
      "placed low_bid shop (db (conn s'))" by (rule bob_bids)
  then have "archives (db (conn s')) = archives shop" using placed_tables by blast
  moreover have "alice \<in> set (users shop)" by (simp add: sample_defs)
  moreover have "\<not> typed_login alice ?ls" by (rule not_alice) simp
  ultimately show ?thesis
    using accounts_change_by_trades_only[OF ref.sqlite_engine_axioms _ r(2,1), of alice] shop_wf r(1) by auto
qed

text \<open>C17: What a session does to the tables beside any number of others is what the others have to expect of
  it: data statements of the program with \<open>int\<close> parameters, each a whole, and nothing else.\<close>

theorem sessions_make_traffic:
  fixes E :: "'w platform"
  assumes "sqlite_shared E" and "accept_client E s = (r, s')"
  shows "traffic (db (conn s)) (db (conn s'))"
  by (rule sqlite_shared.flow_accept_client[OF assms])

lemma sessions_make_traffic_witness:
  "traffic shop (db (conn (snd (accept_client racing_platform (client [''u'' @ CRLF, ''bob'' @ CRLF])))))"
  using sessions_make_traffic[OF racing.sqlite_shared_axioms surjective_pairing, of "client [''u'' @ CRLF, ''bob'' @ CRLF]"]
  by simp

text \<open>C18: Two sessions can spend the same coins, on any engine that works: when a user places a bid while another of
  the user's bids comes in after the balance was read, both are accepted if no offer fills them and the balance covers
  each of them alone, leaving an \<open>int\<close> (\<open>payable_bid\<close>). Both are then in the book, only the later one is paid for, and
  there are as many OMG more as the other one costs.\<close>

theorem two_sessions_spend_twice:
  fixes E :: "'w platform"
  assumes "sqlite_healthy E" and "wf_db (db c)" and "ids_small (db c)" and "created (db c)" and "u \<in> set (users (db c))"
    and "payable_bid other u k (db c)" and "payable_bid ord u n (db c)"
  shows "sqlite_shared (interrupted E (order_seq (db c)) other) \<and>
    (\<forall>cx. db cx = db c \<longrightarrow> fst (buy E (Some other) cx) = Inr 0) \<and>
    (\<exists>c'. buy (interrupted E (order_seq (db c)) other) (Some ord) c = (Inr 0, c') \<and>
      acct (market_of (db c')) (userID u) = Some (u\<lparr>OMG := OMG u - n\<rparr>) \<and>
      (\<exists>ts ts'. orders (db c') = orders (db c) @ [other\<lparr>orderID := order_seq (db c) + 1, created_at := Some ts\<rparr>,
        ord\<lparr>orderID := order_seq (db c) + 2, created_at := Some ts'\<rparr>]) \<and>
      coin_supply COIN_OMG (db c') = coin_supply COIN_OMG (db c) + k)"
proof (intro conjI)
  have "sqlite_engine E" using assms(1) by (simp add: sqlite_healthy_def)
  then show "sqlite_shared (interrupted E (order_seq (db c)) other)"
    using assms(6) by (simp add: sqlite_engine.interrupted_shared payable_bid_def)
  show "\<forall>cx. db cx = db c \<longrightarrow> fst (buy E (Some other) cx) = Inr 0"
  proof (intro allI impI)
    fix cx :: "'w sqlite3" assume "db cx = db c"
    then show "fst (buy E (Some other) cx) = Inr 0"
      using sqlite_healthy.payable_bid_rests[OF assms(1), of cx u other k] assms(2-6) by auto
  qed
  obtain c' ts t1 where c': "buy (interrupted E (order_seq (db c)) other) (Some ord) c = (Inr 0, c')" "placed other (db c) t1"
    "db c' = set_user (u\<lparr>OMG := OMG u - n\<rparr>) (add_order ts (item ord) BUY (quantity ord) (unitPrice ord) (userID u) t1)"
    using sqlite_healthy.overlapping_bids[OF assms] by blast
  have "keys_ok (db c)" using assms(2) by simp
  note left = overlapped_tables[OF c'(2,3) this assms(5-7)]
  from left c'(1) show "\<exists>c'. buy (interrupted E (order_seq (db c)) other) (Some ord) c = (Inr 0, c') \<and>
      acct (market_of (db c')) (userID u) = Some (u\<lparr>OMG := OMG u - n\<rparr>) \<and>
      (\<exists>ts ts'. orders (db c') = orders (db c) @ [other\<lparr>orderID := order_seq (db c) + 1, created_at := Some ts\<rparr>,
        ord\<lparr>orderID := order_seq (db c) + 2, created_at := Some ts'\<rparr>]) \<and>
      coin_supply COIN_OMG (db c') = coin_supply COIN_OMG (db c) + k" by blast
qed

lemma two_sessions_spend_twice_witness:
  "\<exists>c'. buy racing_platform (Some rival) shop_conn = (Inr 0, c') \<and> length (orders (db c')) = length (orders shop) + 2 \<and>
    coin_supply COIN_OMG (db c') = coin_supply COIN_OMG shop + 7000"
proof -
  have "bob \<in> set (users shop)" "racing_platform = interrupted ref_platform (order_seq shop) rival"
    by (simp_all add: sample_defs racing_platform_def)
  then show ?thesis
    using two_sessions_spend_twice[OF ref.sqlite_healthy_axioms, of shop_conn bob rival 7000 rival 7000]
      shop_wf shop_small shop_created rival_payable by auto
qed

text \<open>C19: The loop that serves a client ends after at most one round more than there are lines of input:
  executed with that many rounds, the loop of \<open>echo\<close> comes to its end, with the result of \<open>echo_loop\<close>.\<close>

theorem echo_ends:
  "echo_rounds (length (inp (comm s)) + 1) E uid s = Some (echo_loop E uid s)"
  by (rule echo_rounds_enough) (simp add: pending_def)

section \<open>The server process\<close>

lemma sample_visit: "\<exists>p'. main 2 ref_platform shop_conn (visit (comm (client [''r'' @ CRLF, ''carol'' @ CRLF,
     ''Carol'' @ CRLF, ''key'' @ CRLF, ''u'' @ CRLF, ''carol'' @ CRLF, ''key''])) (client [])) = Some (Inr 0, p')"
proof -
  obtain c where c: "start_server ref_platform shop_conn = Inr c" using ref.start_server_healthy[of shop_conn] by auto
  let ?ls = "[''r'' @ CRLF, ''carol'' @ CRLF, ''Carol'' @ CRLF, ''key'' @ CRLF, ''u'' @ CRLF, ''carol'' @ CRLF, ''key'']"
  let ?s = "(client ?ls)\<lparr>conn := c\<rparr>"
  have fresh: "fresh_db (db c)" by (rule ref.start_server_done[OF c])
  have "moves_on (db c) ?ls ?s" by (simp add: moves_on_def)
  moreover have "strip_newline (''carol'' @ CRLF) = Some ''carol''" "strip_newline (''Carol'' @ CRLF) = Some ''Carol''"
    "strip_newline (''key'' @ CRLF) = Some ''key''" "strip_newline ''key'' = Some ''key''"
    by (simp_all add: strip_newline_def c_str_def)
  ultimately obtain s2 where "login ref_platform (- 1) 0 ?s = (Inr 1, s2)"
    and "moves_on (add_user ''carol'' ''key'' ''Carol'' DEFAULT_OMG DEFAULT_DOGE DEFAULT_BTC DEFAULT_ETH (db c)) [] s2"
    and "eof (comm s2)"
    using ref.newcomer_login[of "db c" "''carol''" CRLF "''carol'' @ CRLF" "''Carol'' @ CRLF" "''key'' @ CRLF" CRLF
        "''carol'' @ CRLF" "''key''" "[]" ?s "''Carol''" "''key''"] fresh fresh_db_ok[OF fresh]
    by (auto simp: fresh_db_def ends_line_def)
  then obtain s' where "accept_client ref_platform ?s = (Inr (- 1), s')" by (rule ref.silent_session)
  moreover have "?s = (client [])\<lparr>conn := c, comm := comm (client ?ls)\<rparr>" by (simp add: client_def)
  ultimately have "accept_client ref_platform ((client [])\<lparr>conn := c, comm := comm (client ?ls)\<rparr>) = (Inr (- 1), s')"
    by (simp only:)
  then show ?thesis by (rule visit_run[OF c])
qed

text \<open>C20: \<open>main\<close> only returns in a child: its calls were those that start the server, some rounds of accepting
  and forking, and the closing of the listener; the last fork had given 0, and the child had served its client
  to the end of the input. So the branch of \<open>main\<close> that closes the database is never taken.\<close>

theorem main_returns_in_the_child:
  fixes E :: "'w platform"
  assumes "main n E file p = Some (Inr r, p')"
  shows "r = 0 \<and> (\<exists>fd k c client. k < n \<and> start_server E file = Inr c \<and>
    heard (net_of p) (net_of p') (startup fd @ rounds (Suc k) fd @ [Close fd]) \<and>
    kernel (net_of p) (calls (net_of p) @ startup fd @ rounds k fd @ [Accept4 fd]) Fork = 0 \<and>
    accept_client E ((session_of p)\<lparr>conn := c, comm := client\<rparr>) = (Inr (- 1), session_of p'))"
  by (rule main_done[OF assms])

lemma main_returns_in_the_child_witness:
  "\<exists>p' ks. main 2 ref_platform shop_conn (visit (comm (client [''r'' @ CRLF, ''carol'' @ CRLF,
     ''Carol'' @ CRLF, ''key'' @ CRLF, ''u'' @ CRLF, ''carol'' @ CRLF, ''key''])) (client [])) = (Some (Inr 0, p')) \<and>
     calls (net_of p') = Socket # ks"
proof -
  obtain p' where p': "main 2 ref_platform shop_conn (visit (comm (client [''r'' @ CRLF, ''carol'' @ CRLF,
     ''Carol'' @ CRLF, ''key'' @ CRLF, ''u'' @ CRLF, ''carol'' @ CRLF, ''key''])) (client [])) = Some (Inr 0, p')"
    using sample_visit by blast
  have "calls (net_of (visit x s)) = []" for x and s :: "string session" by (simp add: visit_def)
  with main_returns_in_the_child[OF p'] p' show ?thesis by (auto simp: startup_def dest!: heard_frame)
qed

text \<open>C21: The parent, the process to which no fork answers 0, serves clients for ever when it could start and
  no call but a fork is refused.\<close>

theorem parent_serves_forever:
  fixes E :: "'w platform"
  assumes "start_server E file = Inr c" and "\<forall>ks k. k \<noteq> Fork \<longrightarrow> kernel (net_of p) ks k \<noteq> - 1"
    and "\<forall>ks. kernel (net_of p) ks Fork \<noteq> 0"
  shows "main n E file p = None"
  by (rule main_waits[OF assms(1)]) (use assms(2,3) in auto)

lemma parent_serves_forever_witness:
  "main 1000000 ref_platform shop_conn ((visit (comm (client [])) (client []))
     \<lparr>net_of := \<lparr>calls = [], kernel = (\<lambda>ks k. 3), peer = (\<lambda>fd. None)\<rparr>\<rparr>) = None"
proof -
  obtain c where "start_server ref_platform shop_conn = Inr c" using ref.start_server_healthy[of shop_conn] by auto
  then show ?thesis by (rule parent_serves_forever) simp_all
qed

section \<open>Login and registration\<close>

text \<open>C22: Nobody is logged in without having typed, one after the other, the user name and the password of
  the account that the commands then run for, whatever other sessions do in the meantime.\<close>

theorem login_needs_credentials:
  fixes E :: "'w platform"
  assumes "sqlite_shared E" and "wf_db (db (conn s))" and "ids_small (db (conn s'))"
    and "login E (- 1) 0 s = (Inr uid, s')"
  shows "\<exists>u pre l1 l2. u \<in> set (users (db (conn s'))) \<and> userID u = uid \<and>
    inp (comm s) = pre @ l1 # l2 # inp (comm s') \<and>
    strip_newline l1 = Some (username u) \<and> strip_newline l2 = Some (password u)"
  using sqlite_shared.login_done[OF assms(1-3) _ assms(4)] by (simp add: credentials_typed_def)

lemma login_needs_credentials_witness:
  "\<exists>s' u. login ref_platform (- 1) 0 (client [''u'' @ CRLF, ''alice'' @ CRLF, ''sesame'' @ CRLF]) = (Inr 1, s') \<and>
    u \<in> set (users (db (conn s'))) \<and> userID u = 1"
proof -
  let ?s = "client [''u'' @ CRLF, ''alice'' @ CRLF, ''sesame'' @ CRLF]"
  have "moves_on shop [''u'' @ CRLF, ''alice'' @ CRLF, ''sesame'' @ CRLF] ?s" by (simp add: moves_on_def)
  moreover have "strip_newline (''alice'' @ CRLF) = Some (username alice)"
    "strip_newline (''sesame'' @ CRLF) = Some (password alice)" "alice \<in> set (users shop)" "userID alice = 1"
    by (simp_all add: sample_defs strip_newline_def c_str_def)
  ultimately obtain s' where s': "login ref_platform (- 1) 0 ?s = (Inr 1, s')" "moves_on shop [] s'"
    using ref.login_succeeds[OF shop_wf shop_small shop_created, of alice CRLF "''alice'' @ CRLF" "''sesame'' @ CRLF" "[]" ?s]
    by (metis append_Cons append_Nil)
  with login_needs_credentials[OF ref.shared _ _ s'(1)] shop_wf shop_small show ?thesis
    by (auto simp: moves_on_def)
qed

text \<open>C23: A registration that is answered has read three lines, and has stored them with the starting balances
  under a user name that was free, or has left the tables alone and given \<open>-1\<close>.\<close>

theorem registration_stores_answers:
  fixes E :: "'w platform"
  assumes "sqlite_engine E" and "register_user E s = (Inr uid, s')"
  shows "\<exists>l1 l2 l3 un nm pw. inp (comm s) = l1 # l2 # l3 # inp (comm s') \<and>
    strip_newline l1 = Some un \<and> strip_newline l2 = Some nm \<and> strip_newline l3 = Some pw \<and>
    (uid = - 1 \<and> db (conn s') = db (conn s) \<or>
     un \<notin> username ` set (users (db (conn s))) \<and> uid = wrap32 (user_seq (db (conn s'))) \<and>
     db (conn s') = add_user un pw nm DEFAULT_OMG DEFAULT_DOGE DEFAULT_BTC DEFAULT_ETH (db (conn s)))"
  by (rule sqlite_engine.register_user_done[OF assms])

lemma registration_stores_answers_witness:
  "\<exists>s' un. register_user ref_platform (client [''carol'' @ CRLF, ''Carol'' @ CRLF, ''key'' @ CRLF]) = (Inr 3, s') \<and>
    db (conn s') = add_user ''carol'' ''key'' ''Carol'' 10000 200 50 75 shop"
proof -
  let ?s = "client [''carol'' @ CRLF, ''Carol'' @ CRLF, ''key'' @ CRLF]"
  have l: "strip_newline (''carol'' @ CRLF) = Some ''carol''" "strip_newline (''Carol'' @ CRLF) = Some ''Carol''"
    "strip_newline (''key'' @ CRLF) = Some ''key''" by (simp_all add: strip_newline_def c_str_def)
  have "moves_on shop [''carol'' @ CRLF, ''Carol'' @ CRLF, ''key'' @ CRLF] ?s" by (simp add: moves_on_def)
  moreover have "''carol'' \<notin> username ` set (users shop)" "user_seq shop = 2" by (simp_all add: sample_defs)
  ultimately obtain s' where s': "register_user ref_platform ?s = (Inr 3, s')"
    using ref.register_user_succeeds[OF shop_created _ _ _ _ l, where s = ?s and ls = "[]"] by auto
  with registration_stores_answers[OF ref.sqlite_engine_axioms s'] l show ?thesis by auto
qed

text \<open>C24: A newcomer who registers a free name and then logs in with the answers given before is in, in one
  session: the account has the next number, as long as that is an \<open>int\<close>, and the starting balances.\<close>

theorem newcomer_gets_in:
  fixes E :: "'w platform"
  assumes "sqlite_healthy E" and "wf_db (db (conn s))" and "created (db (conn s))"
    and "order_seq (db (conn s)) < 2 ^ 31" and "archive_seq (db (conn s)) < 2 ^ 31"
    and "un \<notin> username ` set (users (db (conn s)))" and "user_seq (db (conn s)) < 2 ^ 31 - 1"
    and "open_stream (comm s)"
    and "inp (comm s) = (CHR ''r'' # rest) # l1 # l2 # l3 # (CHR ''u'' # rest') # l4 # l5 # ls"
    and "strip_newline l1 = Some un" and "strip_newline l2 = Some nm" and "strip_newline l3 = Some pw"
    and "strip_newline l4 = Some un" and "strip_newline l5 = Some pw"
  shows "\<exists>s'. login E (- 1) 0 s = (Inr (user_seq (db (conn s)) + 1), s') \<and> inp (comm s') = ls \<and>
    db (conn s') = add_user un pw nm DEFAULT_OMG DEFAULT_DOGE DEFAULT_BTC DEFAULT_ETH (db (conn s))"
proof -
  have "moves_on (db (conn s)) ((CHR ''r'' # rest) # l1 # l2 # l3 # (CHR ''u'' # rest') # l4 # l5 # ls) s"
    using assms(8,9) by (simp add: moves_on_def)
  from sqlite_healthy.newcomer_login[OF assms(1-7) this assms(10-14)] show ?thesis by (fastforce simp: moves_on_def)
qed

lemma newcomer_gets_in_witness:
  "\<exists>s'. login ref_platform (- 1) 0 (client [''r'' @ CRLF, ''carol'' @ CRLF, ''Carol'' @ CRLF, ''key'' @ CRLF,
     ''u'' @ CRLF, ''carol'' @ CRLF, ''key'' @ CRLF]) = (Inr 3, s') \<and> inp (comm s') = []"
proof -
  let ?ls = "[''r'' @ CRLF, ''carol'' @ CRLF, ''Carol'' @ CRLF, ''key'' @ CRLF, ''u'' @ CRLF, ''carol'' @ CRLF, ''key'' @ CRLF]"
  have "strip_newline (''carol'' @ CRLF) = Some ''carol''" "strip_newline (''Carol'' @ CRLF) = Some ''Carol''"
    "strip_newline (''key'' @ CRLF) = Some ''key''" "''carol'' \<notin> username ` set (users shop)" "user_seq shop = 2"
    "order_seq shop < 2 ^ 31" "archive_seq shop < 2 ^ 31"
    by (simp_all add: strip_newline_def c_str_def sample_defs)
  then show ?thesis
    using newcomer_gets_in[OF ref.sqlite_healthy_axioms, where s = "client ?ls" and un = "''carol''" and nm = "''Carol''"
        and pw = "''key''" and ls = "[]" and rest = CRLF and rest' = CRLF] shop_wf shop_created by auto
qed

section \<open>Commands\<close>

text \<open>C25: A line \<open>buy item price quantity\<close> or \<open>sell item price quantity\<close> calls that command with the order that
  its words describe, the price as \<open>strtod\<close> and the quantity as \<open>strtol\<close> read them, and tells the client whether
  the call gave \<open>-1\<close>, if memory for the order is there. With a coin that does not exist it ends the session: \<open>create_order_from_string\<close> returns the
  null pointer, and the command follows it.\<close>

theorem order_line_runs_its_command:
  fixes E :: "'w platform"
  assumes "closed_words (c_str line) = [verb, coin, price, amount]" and "length line \<le> max_strings"
    and "malloc_ok E (conn s) sizeof_order"
    and "strcase_eq verb ''buy'' \<and> command = buy \<and> side = BUY \<and> what = ''buy'' \<or>
      strcase_eq verb ''sell'' \<and> command = sell \<and> side = SELL \<and> what = ''sell''"
  shows "\<exists>msg. run_command E uid line s = (case COIN_of_string coin of
    None \<Rightarrow> (Inl Bad_Pointer, s\<lparr>console := console s @ msg\<rparr>)
  | Some i \<Rightarrow> cbind (print msg) (\<lambda>_.
      cbind (on_db (command E (Some ((heap_order E (conn s))\<lparr>unitPrice := fst (strtod price), item := i,
        buyOrSell := side, quantity := wrap32 (fst (strtol amount)), ord_userID := uid\<rparr>))))
      (\<lambda>res. tell (if res = - 1 then ''Can't create '' @ what @ '' order!'' @ CRLF
        else ''Successfully created '' @ what @ '' order!'' @ CRLF))) s)"
proof (cases "COIN_of_string coin")
  case None
  have "strcase_eq verb ''buy'' \<or> strcase_eq verb ''sell''" using assms(4) by blast
  from unknown_coin_command[OF assms(1,2) this assms(3) None] None show ?thesis by simp
next
  case (Some i)
  from assms(4) show ?thesis
  proof (elim disjE conjE)
    assume v: "strcase_eq verb ''buy''" and c: "command = buy" "side = BUY" "what = ''buy''"
    from buy_command[OF assms(1,2) v assms(3)] show ?thesis by (simp add: Some v c order_of_words_def cong: if_cong)
  next
    assume v: "strcase_eq verb ''sell''" and c: "command = sell" "side = SELL" "what = ''sell''"
    from sell_command[OF assms(1,2) v assms(3)] show ?thesis
      by (simp add: Some c order_of_words_def strcase_eq_trans[OF v] cong: if_cong)
  qed
qed

lemma order_line_runs_its_command_witness:
  "(\<exists>msg. run_command ref_platform 2 (''Buy doge 3 5'' @ CRLF) (client []) = cbind (print msg) (\<lambda>_.
    cbind (on_db (buy ref_platform (Some ((heap_order ref_platform shop_conn)\<lparr>unitPrice := fst (strtod ''3''),
      item := COIN_DOGE, buyOrSell := BUY, quantity := wrap32 (fst (strtol ''5'')), ord_userID := 2\<rparr>))))
    (\<lambda>res. tell (if res = - 1 then ''Can't create buy order!'' @ CRLF
      else ''Successfully created buy order!'' @ CRLF))) (client [])) \<and>
   (\<exists>msg. run_command ref_platform 2 (''sell gold 3 5'' @ CRLF) (client []) =
    (Inl Bad_Pointer, (client [])\<lparr>console := console (client []) @ msg\<rparr>))"
proof
  have "closed_words (c_str (''Buy doge 3 5'' @ CRLF)) = [''Buy'', ''doge'', ''3'', ''5'']" by code_simp
  moreover have "strcase_eq ''Buy'' ''buy''" "COIN_of_string ''doge'' = Some COIN_DOGE" by code_simp+
  ultimately show "\<exists>msg. run_command ref_platform 2 (''Buy doge 3 5'' @ CRLF) (client []) = cbind (print msg) (\<lambda>_.
    cbind (on_db (buy ref_platform (Some ((heap_order ref_platform shop_conn)\<lparr>unitPrice := fst (strtod ''3''),
      item := COIN_DOGE, buyOrSell := BUY, quantity := wrap32 (fst (strtol ''5'')), ord_userID := 2\<rparr>))))
    (\<lambda>res. tell (if res = - 1 then ''Can't create buy order!'' @ CRLF
      else ''Successfully created buy order!'' @ CRLF))) (client [])"
    using order_line_runs_its_command[of "''Buy doge 3 5'' @ CRLF" "''Buy''" "''doge''" "''3''" "''5''" ref_platform
      "client []" buy BUY "''buy''" 2] by (simp add: max_strings_def cong: if_cong)
  have "closed_words (c_str (''sell gold 3 5'' @ CRLF)) = [''sell'', ''gold'', ''3'', ''5'']" by code_simp
  moreover have "strcase_eq ''sell'' ''sell''" by simp
  moreover have "COIN_of_string ''gold'' = None" by code_simp
  ultimately show "\<exists>msg. run_command ref_platform 2 (''sell gold 3 5'' @ CRLF) (client []) =
      (Inl Bad_Pointer, (client [])\<lparr>console := console (client []) @ msg\<rparr>)"
    using order_line_runs_its_command[of "''sell gold 3 5'' @ CRLF" "''sell''" "''gold''" "''3''" "''5''" ref_platform
      "client []" sell SELL "''sell''" 2] by (simp add: max_strings_def)
qed

text \<open>C26: Cancelling by the number that the lists print cancels that order: \<open>strtol\<close> reads back what \<open>%d\<close>
  printed, and the client is told whether the call gave 0.\<close>

theorem cancel_line_runs_cancel:
  fixes E :: "'w platform"
  assumes "closed_words (c_str line) = [verb, show_int k]" and "length line \<le> max_strings"
    and "strcase_eq verb ''cancelorder''" and "in_int32 k"
  shows "run_command E uid line = cbind (on_db (cancel_order E k uid)) (\<lambda>res.
    tell (if res \<noteq> 0 then ''Failed to cancel order!'' @ CRLF else ''Successfully cancelled order!'' @ CRLF))"
  by (rule cancel_command[OF assms])

lemma cancel_line_runs_cancel_witness:
  "run_command ref_platform 1 (''cancelOrder 17'' @ CRLF) = cbind (on_db (cancel_order ref_platform 17 1)) (\<lambda>res.
    tell (if res \<noteq> 0 then ''Failed to cancel order!'' @ CRLF else ''Successfully cancelled order!'' @ CRLF))"
proof -
  have "closed_words (c_str (''cancelOrder 17'' @ CRLF)) = [''cancelOrder'', show_int 17]" by code_simp
  moreover have "strcase_eq ''cancelOrder'' ''cancelorder''" by code_simp
  ultimately show ?thesis
    using cancel_line_runs_cancel[of "''cancelOrder 17'' @ CRLF" "''cancelOrder''" 17 ref_platform 1]
    by (simp add: max_strings_def in_int32_def)
qed

text \<open>C27: A line that offers OMG for sale at a price that no bid of another user reaches changes nothing, and yet it is
  reported as a success when the balance covers it: \<open>sell\<close> lets the order through, \<open>insert_order\<close> refuses it with a
  positive code, and the handler only takes \<open>-1\<close> for a failure. More than the balance is refused. (On an engine
  that works.)\<close>

theorem unmatched_OMG_offer_changes_nothing:
  fixes E :: "'w platform"
  assumes "sqlite_healthy E" and "closed_words (c_str line) = [verb, coin, price, amount]"
    and "length line \<le> max_strings" and "strcase_eq verb ''sell''" and "strcase_eq coin ''omg''"
    and "wf_db (db (conn s))" and "ids_small (db (conn s))" and "created (db (conn s))" and "open_stream (comm s)"
    and "u \<in> set (users (db (conn s)))" and "userID u = uid"
    and "\<forall>m \<in> set (orders (db (conn s))). item m = COIN_OMG \<and> buyOrSell m = BUY \<and> ord_userID m \<noteq> uid \<longrightarrow>
      \<not> dle (fst (strtod price)) (unitPrice m)"
  shows "\<exists>s'. run_command E uid line s = (Inr (), s') \<and> db (conn s') = db (conn s) \<and>
    sent (comm s') = sent (comm s) @ [(if wrap32 (fst (strtol amount)) \<le> OMG u
      then ''Successfully created sell order!'' else ''Can't create sell order!'') @ CRLF]"
  by (rule sqlite_healthy.sell_OMG_command[OF assms])

lemma unmatched_OMG_offer_changes_nothing_witness:
  "(\<exists>s'. run_command ref_platform 2 (''sell OMG 1 50'' @ CRLF) (client []) = (Inr (), s') \<and> db (conn s') = shop \<and>
    sent (comm s') = sent (comm (client [])) @ [''Successfully created sell order!'' @ CRLF]) \<and>
   (\<exists>s'. run_command ref_platform 2 (''sell OMG 1 20000'' @ CRLF) (client []) = (Inr (), s') \<and> db (conn s') = shop \<and>
    sent (comm s') = sent (comm (client [])) @ [''Can't create sell order!'' @ CRLF])"
proof -
  have w: "closed_words (c_str (''sell OMG 1 50'' @ CRLF)) = [''sell'', ''OMG'', ''1'', ''50'']"
    "closed_words (c_str (''sell OMG 1 20000'' @ CRLF)) = [''sell'', ''OMG'', ''1'', ''20000'']"
    "strcase_eq ''sell'' ''sell''" "strcase_eq ''OMG'' ''omg''" by code_simp+
  have n: "strtol ''50'' = (50, [])" "strtol ''20000'' = (20000, [])" by code_simp+
  have b: "bob \<in> set (users (db (conn (client []))))" "userID bob = 2" "OMG bob = 10000"
    "\<forall>m \<in> set (orders (db (conn (client [])))). item m = COIN_OMG \<and> buyOrSell m = BUY \<and> ord_userID m \<noteq> 2 \<longrightarrow>
      \<not> dle (fst (strtod ''1'')) (unitPrice m)" by (simp_all add: sample_defs)
  note line = unmatched_OMG_offer_changes_nothing[OF ref.sqlite_healthy_axioms _ _ w(3,4) _ _ _ _ b(1,2,4)]
  show ?thesis
    using line[OF w(1)] line[OF w(2)] shop_wf shop_small shop_created by (simp add: max_strings_def n b(3) in_int32_def wrap32_def)
qed

text \<open>C28: On every line the tokenizer is its reference: it never fails or writes out of bounds, and the array
  holds, in order, the longest runs of characters that are not whitespace and are followed by whitespace. So it
  reads back the words that a line was put together from, and drops a last word that runs to the end of the line.\<close>

theorem tokenizer_is_its_reference:
  assumes "length line \<le> max_strings"
  shows "\<exists>a. (tokenize_line line :: ('s, string_array) prog) = ret a \<and> sa_inv a \<and>
    sa_list a = closed_words (c_str line) \<and>
    (\<forall>ws tail. line = unwords ws @ tail \<and> list_all is_word ws \<and> (tail = [] \<or> tail = CRLF \<or> is_word tail) \<longrightarrow>
      sa_list a = ws)"
  using tokenize_line_ok[OF assms] closed_words_typed by (metis list_all_iff)

lemma tokenizer_is_its_reference_witness:
  "\<exists>a. (tokenize_line (unwords [''buy'', ''doge'', ''3''] @ ''5'') :: (unit, string_array) prog) = ret a \<and> sa_inv a \<and>
    sa_list a = [''buy'', ''doge'', ''3'']"
proof -
  have "is_word ''5''" "list_all is_word [''buy'', ''doge'', ''3'']" by code_simp+
  moreover have "length (unwords [''buy'', ''doge'', ''3''] @ ''5'') \<le> max_strings" by (simp add: max_strings_def)
  note tokenizer_is_its_reference[OF this, where 's = unit]
  ultimately show ?thesis by blast
qed

text \<open>C29: Any sequence of additions to a new array of strings succeeds, within the bound that keeps byte counts
  from wrapping around; the elements read back in order, and the slot behind them is the null pointer.\<close>

theorem string_array_holds_what_was_added:
  assumes "cap \<le> max_capacity" and "length ps \<le> max_strings"
  shows "\<exists>a b. (make_string_array cap :: ('s, string_array) prog) = ret a \<and>
    (add_all add_string a ps :: ('s, string_array) prog) = ret b \<and> sa_inv b \<and>
    (\<forall>i < length ps. (sa_get b i :: ('s, string) prog) = ret (c_str (take (snd (ps ! i)) (fst (ps ! i))))) \<and>
    (sa_get b (length ps) :: ('s, string) prog) = stop Bad_Pointer"
proof -
  have "\<exists>a. (make_string_array cap :: ('s, _) prog) = ret a \<and> sa_inv a \<and> sa_list a = [] \<and> capacity a = cap"
    by (rule make_string_array_ok[OF assms(1)])
  then obtain a where a: "(make_string_array cap :: ('s, _) prog) = ret a" "sa_inv a" "sa_list a = []" by blast
  have "\<exists>b. (add_all add_string a ps :: ('s, _) prog) = ret b \<and> sa_inv b \<and>
      sa_list b = sa_list a @ map (\<lambda>p. c_str (take (snd p) (fst p))) ps"
    by (rule sa.add_all_ok[OF a(2)]) (simp add: a(3) assms(2))
  then obtain b where b: "(add_all add_string a ps :: ('s, _) prog) = ret b" "sa_inv b"
    "sa_list b = map (\<lambda>p. c_str (take (snd p) (fst p))) ps" using a(3) by auto
  have n: "sa_size b = length ps" using length_sa_list[OF b(2)] b(3) by simp
  have "(sa_get b i :: ('s, string) prog) = ret (c_str (take (snd (ps ! i)) (fst (ps ! i))))" if "i < length ps" for i
    using that n b(3) by (simp add: sa_get_ok[OF b(2)])
  moreover have "(sa_get b (length ps) :: ('s, string) prog) = stop Bad_Pointer"
    unfolding n[symmetric] by (rule sa_get_end[OF b(2)])
  ultimately show ?thesis using a(1) b by blast
qed

lemma string_array_holds_what_was_added_witness:
  "\<exists>a b. (make_string_array 1 :: (unit, string_array) prog) = ret a \<and>
    (add_all add_string a [(''buy doge'', 3), (''doge'', 4)] :: (unit, string_array) prog) = ret b \<and>
    (sa_get b 0 :: (unit, string) prog) = ret ''buy'' \<and> (sa_get b 1 :: (unit, string) prog) = ret ''doge''"
proof -
  let ?ps = "[(''buy doge'', 3), (''doge'', 4)] :: (string \<times> nat) list"
  have "1 \<le> max_capacity" "length ?ps \<le> max_strings" by (simp_all add: max_capacity_def max_strings_def)
  from string_array_holds_what_was_added[OF this, where 's = unit]
  obtain a b where ab: "(make_string_array 1 :: (unit, string_array) prog) = ret a"
    "(add_all add_string a ?ps :: (unit, string_array) prog) = ret b"
    and get: "\<forall>i < length ?ps. (sa_get b i :: (unit, string) prog) = ret (c_str (take (snd (?ps ! i)) (fst (?ps ! i))))"
    by blast
  have "(sa_get b 0 :: (unit, string) prog) = ret ''buy''" "(sa_get b 1 :: (unit, string) prog) = ret ''doge''"
    using get[rule_format, of 0] get[rule_format, of 1] by simp_all
  with ab show ?thesis by blast
qed

text \<open>C30: Resizing keeps the strings when the array grows and cuts off the last ones when it shrinks; both leave
  the null pointer behind the last.\<close>

theorem resize_keeps_a_prefix:
  assumes "sa_inv a" and "cap \<le> max_capacity"
  shows "\<exists>b. (resize a cap :: ('s, string_array) prog) = ret b \<and> sa_inv b \<and> capacity b = cap \<and>
    sa_list b = take cap (sa_list a)"
proof -
  have "\<exists>b. (resize a cap :: ('s, string_array) prog) = ret b \<and> sa_inv b \<and> capacity b = cap \<and>
      sa_size b = min (sa_size a) cap \<and> sa_list b = take cap (sa_list a)"
    by (rule resize_ok[OF assms])
  then show ?thesis by blast
qed

lemma resize_keeps_a_prefix_witness:
  "\<exists>b. (resize \<lparr>strings = [Str ''a'', Str ''b'', Null], sa_size = 2, capacity = 2\<rparr> 1 :: (unit, string_array) prog) = ret b \<and>
    sa_inv b \<and> sa_list b = [''a'']"
proof -
  have "sa_inv \<lparr>strings = [Str ''a'', Str ''b'', Null], sa_size = 2, capacity = 2\<rparr>"
    by (simp add: sa_inv_def numeral_2_eq_2 All_less_Suc)
  from resize_keeps_a_prefix[OF this, of 1, where 's = unit] show ?thesis
    by (auto simp: max_capacity_def sa_list_def slot_str_def)
qed

text \<open>C31: What a struct owns is released with it, completely and only once: \<open>free_user\<close> releases the three strings
  and the user, \<open>free_order_list\<close> the time stamps and the array, \<open>free_string_array\<close> the strings, their block and
  the array.\<close>

theorem owned_memory_is_released:
  assumes "owns h a fs"
  shows "(length fs = 3 \<longrightarrow> free_user (Some a) h = (Inr 0, h |` (- insert a (targets fs)))) \<and>
    free_order_list (Some a) (int (length fs)) h = (Inr 0, h |` (- insert a (targets fs))) \<and>
    (\<forall>b. h b = Some (Array (Some a) (length fs)) \<and> b \<notin> targets fs \<longrightarrow>
      free_string_array (Some b) h = (Inr (), h |` (- insert b (insert a (targets fs)))))"
  using assms free_user_releases[of h a] free_order_list_releases free_string_array_releases
  by (auto simp: numeral_3_eq_3 length_Suc_conv)

lemma owned_memory_is_released_witness:
  "free_string_array (Some 1) [1 \<mapsto> Array (Some 2) 3, 2 \<mapsto> Fields [Some 3, Some 4, None], 3 \<mapsto> Bytes, 4 \<mapsto> Bytes, 5 \<mapsto> Bytes] =
     (Inr (), [5 \<mapsto> Bytes]) \<and>
   free_user (Some 2) [2 \<mapsto> Fields [Some 3, Some 4, None], 3 \<mapsto> Bytes, 4 \<mapsto> Bytes, 5 \<mapsto> Bytes] = (Inr 0, [5 \<mapsto> Bytes])"
proof -
  let ?h = "[2 \<mapsto> Fields [Some 3, Some 4, None], 3 \<mapsto> Bytes, 4 \<mapsto> Bytes, 5 \<mapsto> Bytes] :: heap"
  let ?g = "?h(1 \<mapsto> Array (Some 2) 3)"
  have "owns ?h 2 [Some 3, Some 4, None]" "owns ?g 2 [Some 3, Some 4, None]" by (simp_all add: owns_def)
  note rel = this[THEN owned_memory_is_released]
  have "?h |` (- {2, 3, 4}) = [5 \<mapsto> Bytes]" "?g |` (- {1, 2, 3, 4}) = [5 \<mapsto> Bytes]"
    by (auto simp: fun_eq_iff restrict_map_def)
  moreover have "?g = [1 \<mapsto> Array (Some 2) 3, 2 \<mapsto> Fields [Some 3, Some 4, None], 3 \<mapsto> Bytes, 4 \<mapsto> Bytes, 5 \<mapsto> Bytes]"
    by (auto simp: fun_eq_iff)
  ultimately show ?thesis using rel(1) rel(2)[THEN conjunct2, THEN conjunct2, rule_format, of 1] by simp
qed

section \<open>Listings\<close>

text \<open>C32: On an engine that works \<open>view\<close> answers with the table of the five dearest bids and the five cheapest offers for a coin, best
  first: what is left out is no better than what is shown, and nothing is when there are no more than five.\<close>

theorem view_line_shows_the_five_best:
  fixes E :: "'w platform"
  assumes "sqlite_healthy E" and "wf_db (db (conn s))" and "ids_small (db (conn s))" and "created (db (conn s))"
    and "open_stream (comm s)" and "closed_words (c_str line) = [verb, coin]" and "length line \<le> max_strings"
    and "strcase_eq verb ''view''" and "COIN_of_string coin = Some i"
  shows "\<exists>buys sells. best dearer 5 (side_orders (db (conn s)) i BUY) buys \<and>
    best cheaper 5 (side_orders (db (conn s)) i SELL) sells \<and> answers (view_text buys sells) s (run_command E uid line s)"
  by (rule sqlite_healthy.view_command[OF assms])

lemma view_line_shows_the_five_best_witness:
  "answers (view_text [alice_buys] []) (client []) (run_command ref_platform 2 (''view btc'' @ CRLF) (client []))"
proof -
  have "closed_words (c_str (''view btc'' @ CRLF)) = [''view'', ''btc'']" by code_simp
  moreover have "strcase_eq ''view'' ''view''" "COIN_of_string ''btc'' = Some COIN_BTC" by code_simp+
  moreover have "side_orders shop COIN_BTC BUY = [alice_buys]" "side_orders shop COIN_BTC SELL = []"
    by (simp_all add: side_orders_def sample_defs)
  ultimately obtain buys sells where "best dearer 5 [alice_buys] buys" "best cheaper 5 [] sells"
    and t: "answers (view_text buys sells) (client []) (run_command ref_platform 2 (''view btc'' @ CRLF) (client []))"
    using view_line_shows_the_five_best[OF ref.sqlite_healthy_axioms, of "client []" "''view btc'' @ CRLF" "''view''" "''btc''" COIN_BTC 2]
      shop_wf shop_small shop_created by (auto simp: max_strings_def)
  then have "buys = [alice_buys]" "sells = []" by (auto simp: best_def length_Suc_conv)
  with t show ?thesis by simp
qed

text \<open>C33: On an engine that works \<open>myOrders\<close> answers with every open and every archived order of the user, each once and with its own
  fields, and no other, as long as the archive has fewer than \<open>2 ^ 30\<close> rows.\<close>

theorem my_orders_line_lists_exactly:
  fixes E :: "'w platform"
  assumes "sqlite_healthy E" and "wf_db (db (conn s))" and "ids_small (db (conn s))" and "created (db (conn s))"
    and "open_stream (comm s)" and "length (archives (db (conn s))) < 2 ^ 30"
    and "closed_words (c_str line) = verb # ws" and "length line \<le> max_strings" and "strcase_eq verb ''myorders''"
  shows "\<exists>open_orders archived.
    mset open_orders = mset (filter (\<lambda>r. ord_userID r = uid) (orders (db (conn s)))) \<and>
    mset archived = mset (filter (\<lambda>r. ord_userID r = uid) (archives (db (conn s)))) \<and>
    answers (my_orders_text open_orders archived) s (run_command E uid line s)"
  by (rule sqlite_healthy.my_orders_command[OF assms])

lemma my_orders_line_lists_exactly_witness:
  "answers (''Open Orders:'' @ CRLF @ ''No open orders.'' @ CRLF @ dashes @ dashes @ ''Archived Orders:'' @ CRLF @
     ''No archived orders.'' @ CRLF) (client []) (run_command ref_platform 2 (''MyOrders'' @ CRLF) (client []))"
proof -
  have "closed_words (c_str (''MyOrders'' @ CRLF)) = [''MyOrders'']" by code_simp
  moreover have "strcase_eq ''MyOrders'' ''myorders''" by code_simp
  moreover have "filter (\<lambda>r. ord_userID r = 2) (orders shop) = []" "archives shop = []" by (simp_all add: sample_defs)
  ultimately show ?thesis
    using my_orders_line_lists_exactly[OF ref.sqlite_healthy_axioms, of "client []" "''MyOrders'' @ CRLF" "''MyOrders''" "[]" 2]
      shop_wf shop_small shop_created by (simp add: max_strings_def my_orders_text_def)
qed

text \<open>C34: On an engine that works \<open>myInventory\<close> answers with the balances of the account.\<close>

theorem my_inventory_line_shows_balances:
  fixes E :: "'w platform"
  assumes "sqlite_healthy E" and "wf_db (db (conn s))" and "created (db (conn s))" and "open_stream (comm s)"
    and "u \<in> set (users (db (conn s)))" and "userID u = uid"
    and "closed_words (c_str line) = verb # ws" and "length line \<le> max_strings" and "strcase_eq verb ''myinventory''"
  shows "answers (inventory_text u) s (run_command E uid line s)"
  by (rule sqlite_healthy.my_inventory_command[OF assms])

lemma my_inventory_line_shows_balances_witness:
  "answers (''Your current inventory:'' @ CRLF @ ''OMG: 10000'' @ CRLF @ ''DOGE: 200'' @ CRLF @ ''ETH: 75'' @ CRLF @
     ''BTC: 50'' @ CRLF) (client []) (run_command ref_platform 2 (''myInventory'' @ CRLF) (client []))"
proof -
  have "closed_words (c_str (''myInventory'' @ CRLF)) = [''myInventory'']" by code_simp
  moreover have "strcase_eq ''myInventory'' ''myinventory''" by code_simp
  moreover have "bob \<in> set (users shop)" "userID bob = 2" by (simp_all add: sample_defs)
  moreover have "inventory_text bob = ''Your current inventory:'' @ CRLF @ ''OMG: 10000'' @ CRLF @ ''DOGE: 200'' @ CRLF @
     ''ETH: 75'' @ CRLF @ ''BTC: 50'' @ CRLF" by code_simp
  ultimately show ?thesis
    using my_inventory_line_shows_balances[OF ref.sqlite_healthy_axioms, of "client []" bob 2 "''myInventory'' @ CRLF"]
      shop_wf shop_created by (simp add: max_strings_def)
qed

section \<open>Commands that go through\<close>

text \<open>C35: An affordable sell order for DOGE, BTC or ETH that no bid fills is accepted, and its quantity leaves the
  seller's account, on an engine that works and if the price is a number and the balance that is left an \<open>int\<close>. The
  sign of the quantity is never checked: a negative one is paid into the account. (Offers of OMG are never accepted
  to rest, C27.)\<close>

theorem sell_rests_in_the_book:
  fixes E :: "'w platform"
  assumes "sqlite_healthy E" and "wf_db (db c)" and "ids_small (db c)" and "created (db c)" and "order_ints ord"
    and "u \<in> set (users (db c))" and "userID u = ord_userID ord" and "buyOrSell ord = SELL" and "affordable ord u"
    and "\<forall>m \<in> set (orders (db c)). \<not> fills m ord" and "item ord \<in> {COIN_DOGE, COIN_BTC, COIN_ETH}"
    and "in_int32 (coins (item ord) u - quantity ord)" and "unitPrice ord \<noteq> NaN"
  shows "\<exists>c'. sell E (Some ord) c = (Inr 0, c') \<and> placed ord (db c) (db c') \<and>
    acct (market_of (db c')) (ord_userID ord) = Some (gain (item ord) (- quantity ord) u)"
  by (rule sqlite_healthy.sell_rests_account[OF assms])

lemma sell_rests_in_the_book_witness:
  "\<exists>c'. sell ref_platform (Some (bob_order COIN_ETH SELL (- 500) 7)) shop_conn = (Inr 0, c') \<and>
    acct (market_of (db c')) 2 = Some (bob\<lparr>ETH := 575\<rparr>)"
proof -
  let ?o = "bob_order COIN_ETH SELL (- 500) 7"
  have "order_ints ?o" "bob \<in> set (users shop)" "userID bob = ord_userID ?o" "buyOrSell ?o = SELL" "affordable ?o bob"
    "\<forall>m \<in> set (orders shop). \<not> fills m ?o" "item ?o \<in> {COIN_DOGE, COIN_BTC, COIN_ETH}"
    "in_int32 (coins (item ?o) bob - quantity ?o)" "unitPrice ?o \<noteq> NaN" "ord_userID ?o = 2"
    "gain (item ?o) (- quantity ?o) bob = bob\<lparr>ETH := 575\<rparr>"
    by (simp_all add: sample_defs order_ints_def in_int32_def affordable_def fills_def coins_def gain_def)
  then show ?thesis
    using sell_rests_in_the_book[OF ref.sqlite_healthy_axioms, of shop_conn ?o bob] shop_wf shop_small shop_created
    by auto
qed

text \<open>C36: A bid that a client types after logging in is in the book when the session is over, its cost locked and
  everything else as it was, if the user can pay for it, cost and balance left are \<open>int\<close>s, no
  offer fills it, and the engine works.\<close>

theorem typed_bid_is_in_the_book:
  fixes E :: "'w platform"
  assumes "sqlite_healthy E" and "wf_db (db (conn s))" and "ids_small (db (conn s))" and "created (db (conn s))"
    and "u \<in> set (users (db (conn s)))" and "open_stream (comm s)"
    and "inp (comm s) = [CHR ''u'' # rest, l1, l2, line]"
    and "strip_newline l1 = Some (username u)" and "strip_newline l2 = Some (password u)" and "ends_line l2"
    and "closed_words (c_str line) = [verb, coin, price, amount]" and "length line \<le> max_strings"
    and "strcase_eq verb ''buy''" and "COIN_of_string coin = Some i"
    and "ord = order_of_words fresh verb i price amount (userID u)"
    and "affordable ord u" and "\<forall>m \<in> set (orders (db (conn s))). \<not> fills m ord"
    and "order_cost ord = Some n" and "in_int32 (OMG u - n)" and "accept_client E s = (r, s')"
  shows "placed ord (db (conn s)) (db (conn s')) \<and>
    acct (market_of (db (conn s'))) (userID u) = Some (u\<lparr>OMG := OMG u - n\<rparr>)"
proof -
  have "moves_on (db (conn s)) [CHR ''u'' # rest, l1, l2, line] s" using assms(6,7) by (simp add: moves_on_def)
  from sqlite_healthy.typed_bid[OF assms(1-5) this assms(8-19)] assms(20) show ?thesis by simp
qed

lemma typed_bid_is_in_the_book_witness:
  "acct (market_of (db (conn (snd (accept_client ref_platform
     (client [''u'' @ CRLF, ''bob'' @ CRLF, ''hush'' @ CRLF, ''buy doge 1 5'' @ CRLF])))))) 2 = Some (bob\<lparr>OMG := 9995\<rparr>)"
proof -
  let ?s = "client [''u'' @ CRLF, ''bob'' @ CRLF, ''hush'' @ CRLF, ''buy doge 1 5'' @ CRLF]"
  have l: "strip_newline (''bob'' @ CRLF) = Some (username bob)" "strip_newline (''hush'' @ CRLF) = Some (password bob)"
    "ends_line (''hush'' @ CRLF)" by (simp_all add: sample_defs strip_newline_def c_str_def ends_line_def)
  have w: "closed_words (c_str (''buy doge 1 5'' @ CRLF)) = [''buy'', ''doge'', ''1'', ''5'']"
    "strcase_eq ''buy'' ''buy''" "COIN_of_string ''doge'' = Some COIN_DOGE" by code_simp+
  have b: "bob \<in> set (users shop)" "userID bob = 2" "affordable low_bid bob" "order_cost low_bid = Some 5"
    "in_int32 (OMG bob - 5)" "OMG bob = 10000"
    by (simp_all add: low_bid_def sample_defs in_int32_def affordable_def order_cost_def arith_defs)
  have s: "inp (comm ?s) = [CHR ''u'' # CRLF, ''bob'' @ CRLF, ''hush'' @ CRLF, ''buy doge 1 5'' @ CRLF]"
    "db (conn ?s) = shop" "open_stream (comm ?s)" by simp_all
  obtain r s' where r: "accept_client ref_platform ?s = (r, s')" by force
  have "low_bid = order_of_words low_bid ''buy'' COIN_DOGE ''1'' ''5'' (userID bob)"
    using typed_low_bid b(2) by simp
  from typed_bid_is_in_the_book[OF ref.sqlite_healthy_axioms _ _ _ _ s(3,1) l w(1) _ w(2,3) this b(3) _ b(4,5) r]
  show ?thesis using s(2) b(1,2,6) low_bid_unfillable shop_wf shop_small shop_created r by (simp add: max_strings_def)
qed

text \<open>C37: An order that orders of the other side fill is traded on an engine that works: whichever of them is the
  oldest, the handler reports success and the tables are those after a trade with it, complete or with the rest of
  the new order placed in the book. The owner has to afford the order; the trade has to settle (\<open>settles\<close>): the
  balances and quantities it computes are \<open>int\<close>s, and the owner can lock the coins of a rest.\<close>

theorem fillable_order_trades:
  fixes E :: "'w platform"
  assumes "sqlite_healthy E" and "wf_db (db c)" and "ids_small (db c)" and "created (db c)" and "order_ints ord"
    and "u \<in> set (users (db c))" and "userID u = ord_userID ord" and "affordable ord u"
    and "unitPrice ord \<noteq> NaN" and "\<exists>m \<in> set (orders (db c)). fills m ord"
    and "\<forall>m \<in> set (orders (db c)). fills m ord \<longrightarrow> settles ord u (db c) m"
    and "command = buy \<and> buyOrSell ord = BUY \<or> command = sell \<and> buyOrSell ord = SELL \<and> item ord \<noteq> COIN_OMG"
  shows "\<exists>m c'. command E (Some ord) c = (Inr 0, c') \<and> m \<in> set (orders (db c)) \<and> fills m ord \<and>
    (\<forall>x \<in> set (orders (db c)). fills x ord \<longrightarrow> older m x) \<and> traded ord m (db c) (db c')"
proof -
  have "acceptable ord u (db c)" using assms(8-12) by (auto simp: acceptable_def)
  with assms(12) have "\<exists>c'. command E (Some ord) c = (Inr 0, c') \<and> posted ord (db c) (db c')"
    using sqlite_healthy.buy_accepted[OF assms(1-7)] sqlite_healthy.sell_accepted[OF assms(1-7)] by blast
  with assms(10) show ?thesis unfolding posted_def by blast
qed

lemma fillable_order_trades_witness:
  "(\<exists>m c'. buy ref_platform (Some bid) shop_conn = (Inr 0, c') \<and> fills m bid \<and> settled bid m shop (db c')) \<and>
   (\<exists>m c'. buy ref_platform (Some large_bid) shop_conn = (Inr 0, c') \<and> fills m large_bid \<and>
      quantity m < quantity large_bid \<and> traded large_bid m shop (db c')) \<and>
   (\<exists>m c'. sell ref_platform (Some ask_price) shop_conn = (Inr 0, c') \<and> fills m ask_price \<and>
      settled ask_price m shop (db c'))"
proof (intro conjI)
  note trades = fillable_order_trades[OF ref.sqlite_healthy_axioms, of shop_conn, unfolded db_shop_conn,
    OF shop_wf shop_small shop_created _ bob_of_shop]
  show "\<exists>m c'. buy ref_platform (Some bid) shop_conn = (Inr 0, c') \<and> fills m bid \<and> settled bid m shop (db c')"
    using trades[OF bid_ready(1-5) bid_settles, of buy] bid_ready(6,7) by (auto simp: traded_def sample_defs bid_def)
  show "\<exists>m c'. buy ref_platform (Some large_bid) shop_conn = (Inr 0, c') \<and> fills m large_bid \<and>
      quantity m < quantity large_bid \<and> traded large_bid m shop (db c')"
    using trades[OF large_bid_ready(1-5) large_bid_settles, of buy] large_bid_ready(6-8) by blast
  show "\<exists>m c'. sell ref_platform (Some ask_price) shop_conn = (Inr 0, c') \<and> fills m ask_price \<and>
      settled ask_price m shop (db c')"
    using trades[OF ask_ready(1-5) ask_settles, of sell] ask_ready(6-8) by (auto simp: traded_def sample_defs ask_price_def)
qed

text \<open>C38: The owner of an open order can always cancel it on an engine that works, when the refund leaves a
  balance that is an \<open>int\<close>.\<close>

theorem owner_can_cancel:
  fixes E :: "'w platform"
  assumes "sqlite_healthy E" and "wf_db (db c)" and "ids_small (db c)" and "created (db c)"
    and "r \<in> set (orders (db c))" and "orderID r = k" and "ord_userID r = uid"
    and "u \<in> set (users (db c))" and "userID u = uid" and "refunded r u = Some u'" and "user_ok u'"
  shows "\<exists>c'. cancel_order E k uid c = (Inr 0, c') \<and> cancelled uid k (db c) (db c')"
proof -
  obtain c' where c': "cancel_order E k uid c = (Inr 0, c')"
    by (rule sqlite_healthy.cancel_order_healthy[OF assms])
  have "sqlite_engine E" using assms(1) by (simp add: sqlite_healthy_def)
  from sqlite_engine.cancel_order_done[OF this assms(2,3) c'] c' show ?thesis by blast
qed

lemma owner_can_cancel_witness:
  "\<exists>c'. cancel_order ref_platform 1 1 shop_conn = (Inr 0, c') \<and> cancelled 1 1 shop (db c')"
proof -
  have "alice_sells \<in> set (orders shop)" "orderID alice_sells = 1" "ord_userID alice_sells = 1"
    "alice \<in> set (users shop)" "userID alice = 1" "refunded alice_sells alice = Some (alice\<lparr>DOGE := 200\<rparr>)"
    "user_ok (alice\<lparr>DOGE := 200\<rparr>)"
    by (simp_all add: sample_defs refunded_def gain_def user_ok_def in_int32_def)
  then show ?thesis
    using owner_can_cancel[OF ref.sqlite_healthy_axioms, of shop_conn alice_sells 1 1 alice] shop_wf shop_small shop_created
    by simp
qed

section \<open>Answers\<close>

text \<open>C39: When \<open>main\<close> gets to the point where it accepts clients, the database is open, its three tables exist
  and are empty, their counters are at 0, and foreign keys are enforced, whatever the file held before.\<close>

theorem server_starts_empty:
  fixes E :: "'w platform"
  assumes "sqlite_engine E" and "start_server E file = Inr c"
  shows "created (db c) \<and> fk_on (db c) \<and> users (db c) = [] \<and> orders (db c) = [] \<and> archives (db c) = [] \<and>
    user_seq (db c) = 0 \<and> order_seq (db c) = 0 \<and> archive_seq (db c) = 0"
  using sqlite_engine.start_server_done[OF assms] by (simp add: fresh_db_def)

lemma server_starts_empty_witness:
  "\<exists>c. start_server ref_platform shop_conn = Inr c \<and> users (db c) = [] \<and> orders (db c) = []"
proof -
  obtain c where c: "start_server ref_platform shop_conn = Inr c"
    using ref.start_server_healthy[of shop_conn] by auto
  with server_starts_empty[OF ref.sqlite_engine_axioms c] show ?thesis by blast
qed

text \<open>A failing search is mistaken for a match: on an engine that keeps the contract but cannot prepare the
  search for an offer, Bob's bid of 1 OMG a coin buys from Alice, who asks for 2, although no offer fills it.\<close>

lemma failed_search_trades:
  "filter (\<lambda>m. fills m low_bid) (orders shop) = [] \<and> fst (buy busy_platform (Some low_bid) shop_conn) = Inr 0 \<and>
   map OMG (users (db (snd (buy busy_platform (Some low_bid) shop_conn)))) = [10010, 9990]"
  using low_bid_unfillable low_bid_run by (simp add: filter_empty_conv)

section \<open>Every line is answered\<close>

text \<open>C40: While the stream is open, a round of the command loop that comes to its end has taken exactly one line from the client and has
  sent it a message at least, whatever the line says and whatever the engine did: no command is silent.\<close>

theorem every_line_is_answered:
  fixes E :: "'w platform"
  assumes "open_stream (comm s)" and "echo_round E uid s = (Inr (), s')"
  shows "\<exists>line msg msgs. inp (comm s) = line # inp (comm s') \<and> sent (comm s') = sent (comm s) @ msg # msgs"
  by (rule round_answers[OF assms])

lemma every_line_is_answered_witness:
  "\<exists>s' msg msgs. echo_round ref_platform 2 (client [CRLF]) = (Inr (), s') \<and> sent (comm s') = msg # msgs"
proof -
  obtain s1 where d: "dump ref_platform (client [CRLF]) = (Inr (), s1)" using ref.dump_total by blast
  then have s1: "comm s1 = comm (client [CRLF])" using ref.dump_frame by blast
  have "closed_words (c_str CRLF) = []" by code_simp
  then have "run_command ref_platform 2 CRLF = tell (''Invalid syntax!'' @ CRLF)"
    by (rule run_blank_line) (simp add: max_strings_def)
  then obtain s' where r: "echo_round ref_platform 2 (client [CRLF]) = (Inr (), s')"
    using d s1 by (simp add: echo_round_def cbind_def zoom_def get_line_def client_def put_line_def send_def ret_def)
  from every_line_is_answered[OF _ r] r show ?thesis by (auto simp: client_def open_stream_def)
qed

end
